(* ===== verification/Go_Prelude.thy ===== *)
theory Go_Prelude
  imports Main "HOL-Library.Word" "HOL-Library.AList" "HOL-Library.Sublist"
    "HOL-Library.Char_ord" "HOL-Library.List_Lexorder" "HOL-Library.Multiset"
begin

unbundle bit_operations_syntax

text \<open>
  What every component of the development shares: the parts of the Go language and of its
  standard library that the sources use, written out as executable HOL functions, and the
  generic lemmas on lists, association lists and integers that the component proofs rest on.

  Conventions. A Go \<^verbatim>\<open>string\<close> is its list of bytes (HOL \<^verbatim>\<open>char\<close>s); \<^verbatim>\<open>for _, r := range s\<close>
  decodes it to runes by \<open>rune_chunks\<close>. An \<^verbatim>\<open>error\<close> result with no other value is \<open>'e option\<close>
  (\<open>None\<close> is nil); a function that returns a value or an error returns \<open>'e + 'a\<close>. A Go map
  is an association list with distinct keys (\<open>go_map\<close>): the list's order is the (arbitrary)
  order in which the map is ranged over. A signed 64-bit integer is an \<open>int\<close> whose arithmetic
  goes through \<open>wrap64\<close>.
\<close>

named_theorems go_simps \<open>characteristic equations of the Go standard library model\<close>
named_theorems check_simps \<open>when a validation check returns nil\<close>

section \<open>Errors\<close>

type_synonym 'e check = "'e option"

text \<open>\<^verbatim>\<open>if err := a; err != nil { return err }; return b\<close>\<close>

definition and_then :: "'e check \<Rightarrow> 'e check \<Rightarrow> 'e check" where
  "and_then a b = (case a of None \<Rightarrow> b | Some e \<Rightarrow> Some e)"

text \<open>A loop over a slice that returns the first error its body returns; the body sees the index.\<close>

fun first_error :: "nat \<Rightarrow> (nat \<Rightarrow> 'a \<Rightarrow> 'e check) \<Rightarrow> 'a list \<Rightarrow> 'e check" where
  "first_error i f [] = None"
| "first_error i f (x # xs) = and_then (f i x) (first_error (Suc i) f xs)"

definition when_err :: "bool \<Rightarrow> 'e \<Rightarrow> 'e check" where
  "when_err b e = (if b then Some e else None)"

lemma and_then_None [check_simps]: "and_then a b = None \<longleftrightarrow> a = None \<and> b = None"
  by (simp add: and_then_def split: option.split)

lemma and_then_Some: "and_then a b = Some e \<longleftrightarrow> a = Some e \<or> (a = None \<and> b = Some e)"
  by (auto simp: and_then_def split: option.split)

lemma and_then_simps [simp]: "and_then None b = b" "and_then (Some e) b = Some e"
  by (simp_all add: and_then_def)

lemma when_err_None [check_simps]: "when_err b e = None \<longleftrightarrow> \<not> b"
  by (simp add: when_err_def)

lemma when_err_Some [simp]: "when_err b e = Some e' \<longleftrightarrow> b \<and> e' = e"
  by (auto simp: when_err_def)

lemma when_err_simps [simp]: "when_err True e = Some e" "when_err False e = None"
  by (simp_all add: when_err_def)

lemma first_error_None:
  "first_error i f xs = None \<longleftrightarrow> (\<forall>k < length xs. f (i + k) (xs ! k) = None)"
proof (induction xs arbitrary: i)
  case (Cons x xs)
  have "(\<forall>k < length (x # xs). f (i + k) ((x # xs) ! k) = None)
      \<longleftrightarrow> f i x = None \<and> (\<forall>k < length xs. f (Suc i + k) (xs ! k) = None)"
    by (simp add: All_less_Suc2)
  with Cons show ?case by (simp add: check_simps)
qed simp

lemma first_error_const_None [check_simps]:
  "first_error i (\<lambda>_. f) xs = None \<longleftrightarrow> (\<forall>x \<in> set xs. f x = None)"
  by (auto simp: first_error_None all_set_conv_all_nth)

section \<open>Byte strings\<close>

definition byte :: "char \<Rightarrow> nat" where
  "byte c = of_char c"

definition has_prefix :: "string \<Rightarrow> string \<Rightarrow> bool" where
  "has_prefix s p \<longleftrightarrow> prefix p s"

definition has_suffix :: "string \<Rightarrow> string \<Rightarrow> bool" where
  "has_suffix s p \<longleftrightarrow> suffix p s"

definition trim_prefix :: "string \<Rightarrow> string \<Rightarrow> string" where
  "trim_prefix s p = (if has_prefix s p then drop (length p) s else s)"

definition trim_suffix :: "string \<Rightarrow> string \<Rightarrow> string" where
  "trim_suffix s p = (if has_suffix s p then take (length s - length p) s else s)"

definition contains_byte :: "string \<Rightarrow> char \<Rightarrow> bool" where
  "contains_byte s c \<longleftrightarrow> c \<in> set s"

lemma trim_prefix_append [go_simps]: "trim_prefix (p @ s) p = s"
  by (simp add: trim_prefix_def has_prefix_def)

lemma trim_suffix_append [go_simps]: "trim_suffix (s @ p) p = s"
  by (simp add: trim_suffix_def has_suffix_def suffixI)

lemma has_suffixE: "has_suffix s p \<Longrightarrow> (\<And>t. s = t @ p \<Longrightarrow> trim_suffix s p = t \<Longrightarrow> P) \<Longrightarrow> P"
  by (auto simp: has_suffix_def suffix_def trim_suffix_def)

lemma has_prefixE: "has_prefix s p \<Longrightarrow> (\<And>t. s = p @ t \<Longrightarrow> trim_prefix s p = t \<Longrightarrow> P) \<Longrightarrow> P"
  by (auto simp: has_prefix_def prefix_def trim_prefix_def)

lemma has_prefix_single: "has_prefix l [c] \<longleftrightarrow> l \<noteq> [] \<and> hd l = c"
  by (cases l) (auto simp: has_prefix_def)

lemma has_suffix_single: "has_suffix l [c] \<longleftrightarrow> l \<noteq> [] \<and> last l = c"
  by (cases l rule: rev_cases) (auto simp: has_suffix_def)

lemma byte_less: "byte c < 256"
  by (simp add: byte_def)

lemma byte_inject: "byte c = byte d \<longleftrightarrow> c = d"
  by (simp add: byte_def)

text \<open>\<^verbatim>\<open>crypto/subtle.ConstantTimeCompare\<close> on strings of one length: the differing bits of every
  byte pair are accumulated, and the strings are equal when none is left.\<close>

definition constant_time_diff :: "string \<Rightarrow> string \<Rightarrow> nat" where
  "constant_time_diff l r = foldl (\<lambda>v (x, y). v OR (byte x XOR byte y)) 0 (zip l r)"

lemma foldl_or_zero:
  "foldl (\<lambda>v (x, y). v OR (byte x XOR byte y)) v zs = 0
     \<longleftrightarrow> v = 0 \<and> (\<forall>(x, y) \<in> set zs. x = y)"
proof (induction zs arbitrary: v)
  case (Cons z zs)
  have "byte x XOR byte y = 0 \<longleftrightarrow> x = y" for x y
    by (metis byte_inject xor_self_eq xor.assoc xor.left_neutral xor.right_neutral)
  moreover have "m OR n = 0 \<longleftrightarrow> m = 0 \<and> n = 0" for m n :: nat
    by (simp add: or_eq_0_iff)
  ultimately show ?case using Cons by (auto split: prod.splits)
qed simp

lemma constant_time_diff_zero:
  "length l = length r \<Longrightarrow> constant_time_diff l r = 0 \<longleftrightarrow> l = r"
  unfolding constant_time_diff_def foldl_or_zero
  by (induction l r rule: list_induct2) auto

section \<open>Runes: what ranging over a string yields\<close>

text \<open>
  \<^verbatim>\<open>utf8.DecodeRuneInString\<close>: the rune at the start of a non-empty string and the number of
  bytes it takes beyond the first. A malformed sequence is \<open>RuneError\<close> (U+FFFD) of width one.
\<close>

definition rune_error :: nat where
  "rune_error = 65533"

definition byte_in :: "nat \<Rightarrow> nat \<Rightarrow> char \<Rightarrow> bool" where
  "byte_in lo hi c \<longleftrightarrow> lo \<le> byte c \<and> byte c \<le> hi"

definition low6 :: "char \<Rightarrow> nat" where
  "low6 c = byte c - 128"

definition decode_rune :: "char \<Rightarrow> string \<Rightarrow> nat \<times> nat" where
  "decode_rune c s =
     (let b = byte c;
          lo3 = (if b = 224 then 160 else 128); hi3 = (if b = 237 then 159 else 191);
          lo4 = (if b = 240 then 144 else 128); hi4 = (if b = 244 then 143 else 191)
      in if b < 128 then (b, 0)
         else if 194 \<le> b \<and> b \<le> 223 then
           (case s of c1 # _ \<Rightarrow>
              if byte_in 128 191 c1 then ((b - 192) * 64 + low6 c1, 1) else (rune_error, 0)
            | _ \<Rightarrow> (rune_error, 0))
         else if 224 \<le> b \<and> b \<le> 239 then
           (case s of c1 # c2 # _ \<Rightarrow>
              if byte_in lo3 hi3 c1 \<and> byte_in 128 191 c2
              then ((b - 224) * 4096 + low6 c1 * 64 + low6 c2, 2) else (rune_error, 0)
            | _ \<Rightarrow> (rune_error, 0))
         else if 240 \<le> b \<and> b \<le> 244 then
           (case s of c1 # c2 # c3 # _ \<Rightarrow>
              if byte_in lo4 hi4 c1 \<and> byte_in 128 191 c2 \<and> byte_in 128 191 c3
              then ((b - 240) * 262144 + low6 c1 * 4096 + low6 c2 * 64 + low6 c3, 3)
              else (rune_error, 0)
            | _ \<Rightarrow> (rune_error, 0))
         else (rune_error, 0))"

function rune_chunks :: "string \<Rightarrow> (nat \<times> string) list" where
  "rune_chunks [] = []"
| "rune_chunks (c # s) =
     (fst (decode_rune c s), c # take (snd (decode_rune c s)) s)
       # rune_chunks (drop (snd (decode_rune c s)) s)"
  by pat_completeness auto
termination
  by (relation "measure length") auto

definition runes :: "string \<Rightarrow> nat list" where
  "runes s = map fst (rune_chunks s)"

lemma decode_rune_ascii: "byte c < 128 \<Longrightarrow> decode_rune c s = (byte c, 0)"
  by (simp add: decode_rune_def Let_def)

lemma decode_rune_wide:
  assumes "128 \<le> byte c"
  shows "128 \<le> fst (decode_rune c s)"
proof -
  let ?b = "byte c"
  consider "?b < 194" | "244 < ?b" | "194 \<le> ?b \<and> ?b \<le> 223" | "?b = 224" | "225 \<le> ?b \<and> ?b \<le> 239"
    | "?b = 240" | "241 \<le> ?b \<and> ?b \<le> 244" by linarith
  then show ?thesis
  proof cases
    case 1
    with assms show ?thesis by (auto simp: decode_rune_def Let_def rune_error_def)
  next
    case 2
    then show ?thesis by (auto simp: decode_rune_def Let_def rune_error_def)
  next
    case 3
    then have "128 \<le> (?b - 192) * 64" by linarith
    with 3 show ?thesis
      by (simp add: decode_rune_def Let_def rune_error_def split: list.split)
  next
    case 4
    have "128 \<le> low6 d * 64" if "byte_in 160 191 d" for d
      using that unfolding byte_in_def low6_def by linarith
    with 4 show ?thesis
      by (auto simp: decode_rune_def Let_def rune_error_def trans_le_add1 split: list.split)
  next
    case 5
    then have "128 \<le> (?b - 224) * 4096" by linarith
    with 5 show ?thesis
      by (simp add: decode_rune_def Let_def rune_error_def trans_le_add1 split: list.split)
  next
    case 6
    have "128 \<le> low6 d * 4096" if "byte_in 144 191 d" for d
      using that unfolding byte_in_def low6_def by linarith
    with 6 show ?thesis
      by (auto simp: decode_rune_def Let_def rune_error_def trans_le_add1 split: list.split)
  next
    case 7
    then have "128 \<le> (?b - 240) * 262144" by linarith
    with 7 show ?thesis
      by (simp add: decode_rune_def Let_def rune_error_def trans_le_add1 split: list.split)
  qed
qed

lemma concat_rune_chunks: "concat (map snd (rune_chunks s)) = s"
  by (induction s rule: rune_chunks.induct) auto

lemma rune_chunks_eq_Nil [simp]: "rune_chunks s = [] \<longleftrightarrow> s = []"
  by (cases s) auto

lemma rune_chunks_nonempty: "(r, t) \<in> set (rune_chunks s) \<Longrightarrow> t \<noteq> []"
  by (induction s rule: rune_chunks.induct) auto

text \<open>
  A loop that accepts only ASCII runes accepts a string exactly when it accepts its bytes:
  every byte outside ASCII starts a rune outside ASCII, malformed or not.
\<close>

lemma runes_all_ascii:
  assumes ascii: "\<And>r. P r \<Longrightarrow> r < 128"
  shows "(\<forall>r \<in> set (runes s). P r) \<longleftrightarrow> (\<forall>c \<in> set s. P (byte c))"
proof (induction s rule: rune_chunks.induct)
  case (2 c s)
  show ?case
  proof (cases "byte c < 128")
    case True
    with "2.IH" show ?thesis by (simp add: runes_def decode_rune_ascii)
  next
    case False
    then have "\<not> P (fst (decode_rune c s))" and "\<not> P (byte c)"
      using ascii decode_rune_wide [of c s] by fastforce+
    then show ?thesis by (simp add: runes_def)
  qed
qed (simp add: runes_def)

lemma rune_chunks_ascii:
  "\<forall>c \<in> set s. byte c < 128 \<Longrightarrow> rune_chunks s = map (\<lambda>c. (byte c, [c])) s"
  by (induction s) (auto simp: decode_rune_ascii)

text \<open>\<^verbatim>\<open>unicode.IsSpace\<close> and \<^verbatim>\<open>strings.TrimSpace\<close>.\<close>

definition is_space :: "nat \<Rightarrow> bool" where
  "is_space r \<longleftrightarrow> r \<in> {9, 10, 11, 12, 13, 32, 133, 160, 5760, 8232, 8233, 8239, 8287, 12288}
     \<or> (8192 \<le> r \<and> r \<le> 8202)"

definition trim_space :: "string \<Rightarrow> string" where
  "trim_space s = concat (map snd
     (rev (dropWhile (is_space \<circ> fst) (rev (dropWhile (is_space \<circ> fst) (rune_chunks s))))))"

definition blank :: "string \<Rightarrow> bool" where
  "blank s \<longleftrightarrow> trim_space s = []"

lemma blank_iff: "blank s \<longleftrightarrow> (\<forall>r \<in> set (runes s). is_space r)"
proof -
  let ?cs = "rune_chunks s"
  let ?ts = "rev (dropWhile (is_space \<circ> fst) (rev (dropWhile (is_space \<circ> fst) ?cs)))"
  have sub: "x \<in> set ?cs" if "x \<in> set ?ts" for x
    using that by (metis set_dropWhileD set_rev)
  have "blank s \<longleftrightarrow> (\<forall>x \<in> set ?ts. snd x = [])"
    by (simp add: blank_def trim_space_def)
  also have "\<dots> \<longleftrightarrow> ?ts = []"
    using sub rune_chunks_nonempty by (metis last_in_set list.set(1) empty_iff prod.collapse)
  also have "\<dots> \<longleftrightarrow> (\<forall>x \<in> set (dropWhile (is_space \<circ> fst) ?cs). is_space (fst x))"
    by simp
  also have "\<dots> \<longleftrightarrow> dropWhile (is_space \<circ> fst) ?cs = []"
    by (metis comp_apply hd_dropWhile hd_in_set list.set(1) empty_iff)
  also have "\<dots> \<longleftrightarrow> (\<forall>x \<in> set ?cs. is_space (fst x))"
    by simp
  finally show ?thesis by (simp add: runes_def)
qed

lemma not_blank_ascii: "byte c < 128 \<Longrightarrow> \<not> is_space (byte c) \<Longrightarrow> \<not> blank (c # s)"
  by (simp add: blank_iff runes_def decode_rune_ascii)

lemma blank_Nil [simp]: "blank []"
  by (simp add: blank_iff runes_def)

section \<open>Integers\<close>

definition wrap64 :: "int \<Rightarrow> int" where
  "wrap64 x = (x + 2 ^ 63) mod 2 ^ 64 - 2 ^ 63"

definition max_int64 :: int where
  "max_int64 = 2 ^ 63 - 1"

lemma wrap64_id: "- (2 ^ 63) \<le> x \<Longrightarrow> x \<le> max_int64 \<Longrightarrow> wrap64 x = x"
  by (simp add: wrap64_def max_int64_def)

lemma wrap64_bounds: "- (2 ^ 63) \<le> wrap64 x \<and> wrap64 x \<le> max_int64"
  by (simp add: wrap64_def max_int64_def)

lemma wrap64_succ: "0 \<le> x \<Longrightarrow> x \<le> max_int64 \<Longrightarrow> wrap64 (x + 1) = x + 1 \<or> wrap64 (x + 1) < 0"
  by (cases "x = max_int64") (auto simp: wrap64_def max_int64_def)

lemma wrap64_0 [simp]: "wrap64 0 = 0"
  by (simp add: wrap64_def)

lemma wrap64_wrap64_add [simp]: "wrap64 (wrap64 x + y) = wrap64 (x + y)"
proof -
  have "wrap64 x + y + 2 ^ 63 = (x + 2 ^ 63) mod 2 ^ 64 + y"
    by (simp add: wrap64_def)
  then show ?thesis by (simp add: wrap64_def mod_simps ac_simps)
qed

lemma wrap64_add_wrap64 [simp]: "wrap64 (y + wrap64 x) = wrap64 (y + x)"
  by (metis add.commute wrap64_wrap64_add)

lemma wrap64_neq_succ: "wrap64 (x + 1) \<noteq> x"
proof -
  have "(x + 1 + 2 ^ 63) mod 2 ^ 64 \<noteq> x + 2 ^ 63"
  proof
    assume eq: "(x + 1 + 2 ^ 63) mod 2 ^ 64 = x + 2 ^ 63"
    then have "(x + 1 + 2 ^ 63) mod 2 ^ 64 = (x + 2 ^ 63) mod 2 ^ 64"
      by (metis mod_mod_trivial)
    then show False by (simp add: mod_eq_dvd_iff)
  qed
  then show ?thesis by (simp add: wrap64_def)
qed

text \<open>\<^verbatim>\<open>strconv.Atoi\<close> with a 64-bit \<^verbatim>\<open>int\<close>: an optional sign and decimal digits in range.\<close>

definition digit_value :: "char \<Rightarrow> int" where
  "digit_value c = int (byte c) - 48"

definition is_digit :: "char \<Rightarrow> bool" where
  "is_digit c \<longleftrightarrow> 48 \<le> byte c \<and> byte c \<le> 57"

definition parse_digits :: "string \<Rightarrow> int option" where
  "parse_digits s =
     (if s = [] \<or> \<not> list_all is_digit s then None
      else Some (foldl (\<lambda>a c. 10 * a + digit_value c) 0 s))"

definition atoi :: "string \<Rightarrow> int option" where
  "atoi s =
     (let (negative, digits) =
            (case s of [] \<Rightarrow> (False, []) | c # t \<Rightarrow>
               if c = CHR ''-'' then (True, t) else if c = CHR ''+'' then (False, t)
               else (False, s))
      in case parse_digits digits of None \<Rightarrow> None
         | Some n \<Rightarrow> (let v = (if negative then - n else n)
                     in if - (2 ^ 63) \<le> v \<and> v \<le> max_int64 then Some v else None))"

lemma atoi_bounds: "atoi s = Some v \<Longrightarrow> - (2 ^ 63) \<le> v \<and> v \<le> max_int64"
  by (auto simp: atoi_def Let_def split: option.splits if_splits prod.splits)

text \<open>\<^verbatim>\<open>strconv.Itoa\<close>, the \<^verbatim>\<open>%d\<close> verb.\<close>

definition digit_char :: "nat \<Rightarrow> char" where
  "digit_char d = char_of (48 + d)"

fun nat_digits :: "nat \<Rightarrow> string" where
  "nat_digits n = (if n < 10 then [digit_char n] else nat_digits (n div 10) @ [digit_char (n mod 10)])"

declare nat_digits.simps [simp del]

definition itoa :: "int \<Rightarrow> string" where
  "itoa i = (if i < 0 then CHR ''-'' # nat_digits (nat (- i)) else nat_digits (nat i))"

lemma byte_digit_char: "d < 10 \<Longrightarrow> byte (digit_char d) = 48 + d"
  by (simp add: byte_def digit_char_def)

lemma nat_digits_ne [simp]: "nat_digits n \<noteq> []"
  by (subst nat_digits.simps) simp

lemma nat_digits_digit: "c \<in> set (nat_digits n) \<Longrightarrow> is_digit c"
  by (induction n rule: nat_digits.induct)
     (subst (asm) (2) nat_digits.simps, auto simp: is_digit_def byte_digit_char split: if_splits)

lemma parse_digits_nat: "parse_digits (nat_digits n) = Some (int n)"
proof -
  have "foldl (\<lambda>a c. 10 * a + digit_value c) 0 (nat_digits n) = int n" for n
  proof (induction n rule: nat_digits.induct)
    case (1 n)
    show ?case
    proof (cases "n < 10")
      case True
      then show ?thesis by (subst nat_digits.simps) (simp add: digit_value_def byte_digit_char)
    next
      case False
      have "int n = 10 * int (n div 10) + int (n mod 10)" by presburger
      with 1 False show ?thesis
        by (subst nat_digits.simps) (simp add: digit_value_def byte_digit_char)
    qed
  qed
  then show ?thesis
    using nat_digits_digit by (auto simp: parse_digits_def list_all_iff)
qed

lemma itoa_inject: "itoa i = itoa j \<longleftrightarrow> i = j"
proof
  assume eq: "itoa i = itoa j"
  have dash: "nat_digits m \<noteq> CHR ''-'' # s" for m s
    using nat_digits_digit [of "CHR ''-''" m] by (auto simp: is_digit_def byte_def)
  have inj: "m = n" if "nat_digits m = nat_digits n" for m n
    using that parse_digits_nat by (metis of_nat_eq_iff option.inject)
  from eq show "i = j"
    by (auto simp: itoa_def dash dash [symmetric] split: if_splits dest!: inj)
qed simp

lemma itoa_bytes: "c \<in> set (itoa i) \<Longrightarrow> is_digit c \<or> c = CHR ''-''"
  by (auto simp: itoa_def dest: nat_digits_digit split: if_splits)

lemma atoi_itoa:
  assumes "- (2 ^ 63) \<le> i" and "i \<le> max_int64"
  shows "atoi (itoa i) = Some i"
proof (cases "i < 0")
  case True
  with assms show ?thesis by (simp add: atoi_def itoa_def parse_digits_nat)
next
  case False
  obtain c t where ct: "nat_digits (nat i) = c # t" by (cases "nat_digits (nat i)") auto
  then have "is_digit c" using nat_digits_digit [of c "nat i"] by simp
  then have "c \<noteq> CHR ''-'' \<and> c \<noteq> CHR ''+''" by (auto simp: is_digit_def byte_def)
  with False assms ct parse_digits_nat [of "nat i"] show ?thesis
    by (simp add: atoi_def itoa_def)
qed

text \<open>\<^verbatim>\<open>strings.Split\<close> with a separator of one byte.\<close>

fun split_on :: "char \<Rightarrow> string \<Rightarrow> string list" where
  "split_on c [] = [[]]"
| "split_on c (x # s) =
     (if x = c then [] # split_on c s
      else (case split_on c s of [] \<Rightarrow> [[x]] | p # ps \<Rightarrow> (x # p) # ps))"

lemma split_on_ne [simp]: "split_on c s \<noteq> []"
  by (induction s) (auto split: list.split)

section \<open>Hexadecimal\<close>

text \<open>\<^verbatim>\<open>crypto/sha256.Sum256\<close> is always a parameter of this type.\<close>

type_synonym digest = "string \<Rightarrow> 8 word list"

definition hex_char :: "nat \<Rightarrow> char" where
  "hex_char n = char_of (if n < 10 then 48 + n else 87 + n)"

definition hex_encode :: "8 word list \<Rightarrow> string" where
  "hex_encode bs = concat (map (\<lambda>b. [hex_char (unat b div 16), hex_char (unat b mod 16)]) bs)"

lemma byte_hex_char: "n < 16 \<Longrightarrow> byte (hex_char n) = (if n < 10 then 48 + n else 87 + n)"
  by (simp add: byte_def hex_char_def take_bit_eq_mod)

lemma hex_char_inject:
  assumes "m < 16" "n < 16"
  shows "hex_char m = hex_char n \<longleftrightarrow> m = n"
proof
  assume "hex_char m = hex_char n"
  then have "byte (hex_char m) = byte (hex_char n)" by simp
  with assms show "m = n" by (simp add: byte_hex_char split: if_splits)
qed simp

lemma hex_encode_inject: "hex_encode xs = hex_encode ys \<longleftrightarrow> xs = ys"
proof (induction xs arbitrary: ys)
  case Nil
  show ?case by (cases ys) (auto simp: hex_encode_def)
next
  case (Cons x xs)
  have less: "unat b div 16 < 16" "unat b mod 16 < 16" for b :: "8 word"
    using unsigned_less [of b, where ?'a = nat] by (simp_all add: less_mult_imp_div_less)
  have "unat b = unat b div 16 * 16 + unat b mod 16" for b :: "8 word" by simp
  then have byte: "unat x div 16 = unat b div 16 \<and> unat x mod 16 = unat b mod 16 \<longleftrightarrow> x = b" for b
    by (metis word_unat_eq_iff)
  show ?case
  proof (cases ys)
    case (Cons y ys')
    with Cons.IH [of ys'] less byte [of y] show ?thesis
      by (auto simp: hex_encode_def hex_char_inject)
  qed (simp add: hex_encode_def)
qed

section \<open>Maps\<close>

type_synonym ('k, 'v) go_map = "('k \<times> 'v) list"

definition map_get :: "('k, 'v) go_map \<Rightarrow> 'k \<Rightarrow> 'v option" where
  "map_get m k = map_of m k"

definition map_put :: "'k \<Rightarrow> 'v \<Rightarrow> ('k, 'v) go_map \<Rightarrow> ('k, 'v) go_map" where
  "map_put k v m = AList.update k v m"

definition map_delete :: "'k \<Rightarrow> ('k, 'v) go_map \<Rightarrow> ('k, 'v) go_map" where
  "map_delete k m = AList.delete k m"

definition map_keys :: "('k, 'v) go_map \<Rightarrow> 'k list" where
  "map_keys m = map fst m"

definition wf_map :: "('k, 'v) go_map \<Rightarrow> bool" where
  "wf_map m \<longleftrightarrow> distinct (map fst m)"

lemma map_get_Nil [simp]: "map_get [] k = None"
  by (simp add: map_get_def)

lemma map_get_put [simp]: "map_get (map_put k v m) k' = (if k' = k then Some v else map_get m k')"
  by (simp add: map_get_def map_put_def update_conv')

lemma map_get_delete [simp]:
  "map_get (map_delete k m) k' = (if k' = k then None else map_get m k')"
  by (simp add: map_get_def map_delete_def delete_conv')

lemma wf_map_Nil [simp]: "wf_map []"
  by (simp add: wf_map_def)

lemma wf_map_put [simp]: "wf_map m \<Longrightarrow> wf_map (map_put k v m)"
  by (simp add: wf_map_def map_put_def distinct_update)

lemma wf_map_delete [simp]: "wf_map m \<Longrightarrow> wf_map (map_delete k m)"
  by (simp add: wf_map_def map_delete_def distinct_delete)

lemma map_get_Some_iff: "wf_map m \<Longrightarrow> map_get m k = Some v \<longleftrightarrow> (k, v) \<in> set m"
  by (simp add: wf_map_def map_get_def map_of_eq_Some_iff)

lemma map_get_in_set: "map_get m k = Some v \<Longrightarrow> (k, v) \<in> set m"
  by (simp add: map_get_def map_of_SomeD)

lemma map_get_None_iff: "map_get m k = None \<longleftrightarrow> k \<notin> fst ` set m"
  by (simp add: map_get_def map_of_eq_None_iff)

lemma map_put_new: "k \<notin> fst ` set m \<Longrightarrow> map_put k v m = m @ [(k, v)]"
  unfolding map_put_def by (induction m) auto

text \<open>Copying a map by ranging over it rebuilds it.\<close>

definition map_copy :: "('k, 'v) go_map \<Rightarrow> ('k, 'v) go_map" where
  "map_copy m = foldl (\<lambda>copied (k, v). map_put k v copied) [] m"

lemma foldl_map_put_distinct:
  "wf_map (m @ xs) \<Longrightarrow> foldl (\<lambda>copied (k, v). map_put k v copied) m xs = m @ xs"
proof (induction xs arbitrary: m)
  case (Cons x xs)
  obtain k v where x: "x = (k, v)" by fastforce
  with Cons.prems have "k \<notin> fst ` set m" by (auto simp: wf_map_def)
  then have "map_put k v m = m @ [(k, v)]" by (rule map_put_new)
  with Cons x show ?case by simp
qed simp

lemma map_copy_id [simp]: "wf_map m \<Longrightarrow> map_copy m = m"
  using foldl_map_put_distinct [of "[]" m] by (simp add: map_copy_def)

section \<open>Sorting by a key\<close>

text \<open>\<^verbatim>\<open>sort.Slice\<close> on distinct keys has one possible result, whatever the order of its input.\<close>

lemma sort_key_unique:
  assumes "inj_on k (set xs)" and "mset xs = mset ys"
  shows "sort_key k xs = sort_key k ys"
proof (rule properties_for_sort_key)
  show "mset (sort_key k ys) = mset xs" using assms(2) by simp
  show "sorted (map k (sort_key k ys))" by simp
  fix x
  assume "x \<in> set (sort_key k ys)"
  with assms(2) have x: "x \<in> set xs" by (metis set_mset_mset mset_sort)
  have one: "filter (\<lambda>y. k x = k y) zs = replicate (count (mset zs) x) x" if "set zs = set xs" for zs
  proof -
    have "filter (\<lambda>y. k x = k y) zs = filter (HOL.eq x) zs"
      using that x assms(1) by (intro filter_cong) (auto simp: inj_on_def)
    then show ?thesis by (simp add: replicate_count_mset_eq_filter_eq)
  qed
  show "filter (\<lambda>y. k x = k y) (sort_key k ys) = filter (\<lambda>y. k x = k y) xs"
    using one [of "sort_key k ys"] one [of xs] assms(2)
    by (metis mset_sort set_mset_mset)
qed

section \<open>The environment\<close>

text \<open>\<^verbatim>\<open>os.Getenv\<close> is a function; a variable that is not set reads as empty.\<close>

definition env_or :: "(string \<Rightarrow> string) \<Rightarrow> string \<Rightarrow> string \<Rightarrow> string" where
  "env_or getenv name fallback = (let value = getenv name in if value \<noteq> [] then value else fallback)"

end
