(* ===== verification/Flags_Domain.thy ===== *)
theory Flags_Domain
  imports Go_Prelude
begin

text \<open>
  The feature-definition domain of the flags appliance: \<^verbatim>\<open>internal/flags/flag.go\<close> and
  \<^verbatim>\<open>internal/flags/context.go\<close>. A \<^verbatim>\<open>Flag\<close> is a record, a variant value (\<^verbatim>\<open>any\<close>, filled by
  \<^verbatim>\<open>encoding/json\<close>) a JSON value, a time the number of nanoseconds since the epoch. Each
  \<^verbatim>\<open>ErrInvalid\<close> message of the source is one constructor of \<open>invalid_detail\<close>.
\<close>

section \<open>Data\<close>

datatype json =
    JNull
  | JBool bool
  | JNumber string
  | JString string
  | JArray "json list"
  | JObject "(string \<times> json) list"

datatype invalid_detail =
    AttributeNotAllowed string
  | EqualsRequired
  | VariantNotDefined string
  | RolloutPercentage
  | RolloutVariantNotDefined string
  | KeyRequired
  | KeyCharacter string nat
  | KindUnsupported
  | VariantRequired
  | DefaultVariantNotDefined string
  | VariantNameRequired
  | VariantNotBoolean string
  | VariantNotString string
  | InRule nat invalid_detail
  | NegativeExpectedRevision
  | ActorRequired
  | EnvironmentRequired
  | TargetingKeyInvalid

text \<open>
  The sentinel classes \<^verbatim>\<open>ErrInvalid\<close>, \<^verbatim>\<open>ErrConflict\<close> (with the expected and the current revision)
  and \<^verbatim>\<open>ErrNotFound\<close>; every other error a store or a codec returns is \<open>Internal\<close>.
\<close>

datatype flag_error =
    ErrInvalid invalid_detail
  | ErrConflict int int
  | ErrNotFound string
  | Internal string

definition kind_boolean :: string where
  "kind_boolean = ''boolean''"

definition kind_string :: string where
  "kind_string = ''string''"

record rule =
  rule_attribute :: string
  rule_equals :: string
  rule_variant :: string

record rollout =
  rollout_attribute :: string
  rollout_percentage :: int
  rollout_variant :: string

record flag =
  flag_key :: string
  flag_kind :: string
  flag_enabled :: bool
  flag_default :: string
  flag_variants :: "(string, json) go_map"
  flag_rules :: "rule list"
  flag_rollout :: "rollout option"
  flag_revision :: int
  flag_updated_at :: int

record audit_entry =
  audit_sequence :: int
  audit_environment :: string
  audit_key :: string
  audit_revision :: int
  audit_actor :: string
  audit_action :: string
  audit_occurred_at :: int

section \<open>Validation\<close>

definition allowed_attributes :: "string list" where
  "allowed_attributes = [''organization.id'', ''targetingKey'']"

definition is_key_character :: "nat \<Rightarrow> bool" where
  "is_key_character r \<longleftrightarrow>
     (97 \<le> r \<and> r \<le> 122) \<or> (65 \<le> r \<and> r \<le> 90) \<or> (48 \<le> r \<and> r \<le> 57) \<or> r \<in> set (runes ''._-'')"

definition validate_key :: "string \<Rightarrow> flag_error check" where
  "validate_key key =
     and_then (when_err (key = []) (ErrInvalid KeyRequired))
       (first_error 0 (\<lambda>_ r. when_err (\<not> is_key_character r) (ErrInvalid (KeyCharacter key r)))
          (runes key))"

definition validate_variant :: "string \<Rightarrow> string \<Rightarrow> json \<Rightarrow> flag_error check" where
  "validate_variant kind name value =
     and_then (when_err (name = []) (ErrInvalid VariantNameRequired))
       (if kind = kind_boolean then
          (case value of JBool _ \<Rightarrow> None | _ \<Rightarrow> Some (ErrInvalid (VariantNotBoolean name)))
        else if kind = kind_string then
          (case value of JString _ \<Rightarrow> None | _ \<Rightarrow> Some (ErrInvalid (VariantNotString name)))
        else None)"

definition validate_attribute :: "string \<Rightarrow> flag_error check" where
  "validate_attribute attribute =
     when_err (attribute \<notin> set allowed_attributes) (ErrInvalid (AttributeNotAllowed attribute))"

definition validate_rule :: "flag \<Rightarrow> rule \<Rightarrow> flag_error check" where
  "validate_rule f r =
     and_then (validate_attribute (rule_attribute r))
    (and_then (when_err (rule_equals r = []) (ErrInvalid EqualsRequired))
       (when_err (map_get (flag_variants f) (rule_variant r) = None)
          (ErrInvalid (VariantNotDefined (rule_variant r)))))"

definition validate_rollout :: "flag \<Rightarrow> rollout \<Rightarrow> flag_error check" where
  "validate_rollout f r =
     and_then (validate_attribute (rollout_attribute r))
    (and_then (when_err (rollout_percentage r < 0 \<or> rollout_percentage r > 100)
        (ErrInvalid RolloutPercentage))
       (when_err (map_get (flag_variants f) (rollout_variant r) = None)
          (ErrInvalid (RolloutVariantNotDefined (rollout_variant r)))))"

text \<open>\<^verbatim>\<open>fmt.Errorf("rule %d: %w", i, err)\<close> keeps the class of the error it wraps.\<close>

fun in_rule :: "nat \<Rightarrow> flag_error \<Rightarrow> flag_error" where
  "in_rule i (ErrInvalid d) = ErrInvalid (InRule i d)"
| "in_rule i e = e"

text \<open>The variants are ranged over in the order of the map.\<close>

definition validate_flag :: "flag \<Rightarrow> flag_error check" where
  "validate_flag f =
     and_then (validate_key (flag_key f))
    (and_then (when_err (flag_kind f \<noteq> kind_boolean \<and> flag_kind f \<noteq> kind_string)
        (ErrInvalid KindUnsupported))
    (and_then (when_err (length (flag_variants f) = 0) (ErrInvalid VariantRequired))
    (and_then (when_err (map_get (flag_variants f) (flag_default f) = None)
        (ErrInvalid (DefaultVariantNotDefined (flag_default f))))
    (and_then (first_error 0 (\<lambda>_ (name, value). validate_variant (flag_kind f) name value)
        (flag_variants f))
    (and_then (first_error 0 (\<lambda>i r. map_option (in_rule i) (validate_rule f r)) (flag_rules f))
       (case flag_rollout f of None \<Rightarrow> None | Some r \<Rightarrow> validate_rollout f r))))))"

definition copy_flag :: "flag \<Rightarrow> flag" where
  "copy_flag f =
     f\<lparr>flag_variants := map_copy (flag_variants f), flag_rules := [] @ flag_rules f,
       flag_rollout := (case flag_rollout f of None \<Rightarrow> None | Some r \<Rightarrow> Some r)\<rparr>"

text \<open>
  \<^verbatim>\<open>Decode\<close>: \<^verbatim>\<open>json.Unmarshal\<close> into a flag, then \<^verbatim>\<open>Validate\<close>. The decoder of \<^verbatim>\<open>encoding/json\<close>
  is a parameter; \<open>None\<close> is its error.
\<close>

definition decode_flag :: "('b \<Rightarrow> flag option) \<Rightarrow> 'b \<Rightarrow> flag_error + flag" where
  "decode_flag unmarshal data =
     (case unmarshal data of
        None \<Rightarrow> Inl (Internal ''decode flag'')
      | Some f \<Rightarrow> (case validate_flag f of Some e \<Rightarrow> Inl e | None \<Rightarrow> Inr f))"

definition validate_environment :: "string \<Rightarrow> flag_error check" where
  "validate_environment environment =
     and_then (when_err (blank environment) (ErrInvalid EnvironmentRequired))
       (validate_key environment)"

section \<open>What validation establishes\<close>

text \<open>The declarative reading of \<^verbatim>\<open>Validate\<close>, with no order of checks.\<close>

definition key_byte :: "char \<Rightarrow> bool" where
  "key_byte c \<longleftrightarrow> (CHR ''a'' \<le> c \<and> c \<le> CHR ''z'') \<or> (CHR ''A'' \<le> c \<and> c \<le> CHR ''Z'')
     \<or> (CHR ''0'' \<le> c \<and> c \<le> CHR ''9'') \<or> c = CHR ''.'' \<or> c = CHR ''_'' \<or> c = CHR ''-''"

definition valid_key :: "string \<Rightarrow> bool" where
  "valid_key k \<longleftrightarrow> k \<noteq> [] \<and> (\<forall>c \<in> set k. key_byte c)"

definition has_kind :: "string \<Rightarrow> json \<Rightarrow> bool" where
  "has_kind kind v \<longleftrightarrow>
     (kind = kind_boolean \<and> (\<exists>b. v = JBool b)) \<or> (kind = kind_string \<and> (\<exists>s. v = JString s))"

definition variant_names :: "flag \<Rightarrow> string set" where
  "variant_names f = fst ` set (flag_variants f)"

definition valid_flag :: "flag \<Rightarrow> bool" where
  "valid_flag f \<longleftrightarrow>
     valid_key (flag_key f) \<and>
     flag_kind f \<in> {kind_boolean, kind_string} \<and>
     flag_default f \<in> variant_names f \<and>
     (\<forall>(name, v) \<in> set (flag_variants f). name \<noteq> [] \<and> has_kind (flag_kind f) v) \<and>
     (\<forall>r \<in> set (flag_rules f). rule_attribute r \<in> set allowed_attributes \<and>
        rule_equals r \<noteq> [] \<and> rule_variant r \<in> variant_names f) \<and>
     (\<forall>r \<in> set_option (flag_rollout f). rollout_attribute r \<in> set allowed_attributes \<and>
        0 \<le> rollout_percentage r \<and> rollout_percentage r \<le> 100 \<and>
        rollout_variant r \<in> variant_names f)"

lemma runes_punctuation: "runes ''._-'' = [46, 95, 45]"
  by code_simp

lemma is_key_character_ascii: "is_key_character r \<Longrightarrow> r < 128"
  by (auto simp: is_key_character_def runes_punctuation)

lemma is_key_character_byte: "is_key_character (byte c) \<longleftrightarrow> key_byte c"
proof -
  have "byte c = 46 \<longleftrightarrow> c = CHR ''.''" "byte c = 95 \<longleftrightarrow> c = CHR ''_''" "byte c = 45 \<longleftrightarrow> c = CHR ''-''"
    using byte_inject [of c "CHR ''.''"] byte_inject [of c "CHR ''_''"] byte_inject [of c "CHR ''-''"]
    by (simp_all add: byte_def)
  then show ?thesis
    by (simp add: is_key_character_def key_byte_def runes_punctuation less_eq_char_def byte_def)
qed

lemma validate_key_None [check_simps]: "validate_key k = None \<longleftrightarrow> valid_key k"
  unfolding validate_key_def valid_key_def check_simps
  using runes_all_ascii [of is_key_character k] is_key_character_ascii
  by (auto simp: is_key_character_byte)

lemma is_space_range: "is_space r \<Longrightarrow> r \<le> 32 \<or> 133 \<le> r"
  unfolding is_space_def by (elim disjE insertE) simp_all

lemma is_key_character_range: "is_key_character r \<Longrightarrow> 45 \<le> r \<and> r \<le> 122"
  unfolding is_key_character_def runes_punctuation by (elim disjE) auto

lemma valid_key_not_blank:
  assumes k: "valid_key k"
  shows "\<not> blank k"
proof
  assume "blank k"
  have "\<forall>r \<in> set (runes k). is_key_character r"
    using k runes_all_ascii [of is_key_character k] is_key_character_ascii
    by (auto simp: valid_key_def is_key_character_byte)
  moreover have "runes k \<noteq> []" using k by (simp add: valid_key_def runes_def)
  then obtain r where r: "r \<in> set (runes k)" by (meson list.set_sel(1))
  ultimately have "45 \<le> r \<and> r \<le> 122" using r is_key_character_range by blast
  moreover have "r \<le> 32 \<or> 133 \<le> r" using \<open>blank k\<close> r is_space_range unfolding blank_iff by blast
  ultimately show False by linarith
qed

lemma validate_environment_None [check_simps]: "validate_environment e = None \<longleftrightarrow> valid_key e"
  using valid_key_not_blank by (auto simp: validate_environment_def check_simps validate_key_None)

lemma validate_variant_None [check_simps]:
  assumes "kind \<in> {kind_boolean, kind_string}"
  shows "validate_variant kind name v = None \<longleftrightarrow> name \<noteq> [] \<and> has_kind kind v"
proof -
  have "kind_boolean \<noteq> kind_string" by (simp add: kind_boolean_def kind_string_def)
  with assms show ?thesis
    by (auto simp: validate_variant_def has_kind_def check_simps split: json.splits)
qed

lemma validate_rule_None [check_simps]:
  "validate_rule f r = None \<longleftrightarrow>
     rule_attribute r \<in> set allowed_attributes \<and> rule_equals r \<noteq> [] \<and>
     rule_variant r \<in> variant_names f"
  by (auto simp: validate_rule_def validate_attribute_def variant_names_def map_get_None_iff
      check_simps)

lemma validate_rollout_None [check_simps]:
  "validate_rollout f r = None \<longleftrightarrow>
     rollout_attribute r \<in> set allowed_attributes \<and>
     0 \<le> rollout_percentage r \<and> rollout_percentage r \<le> 100 \<and>
     rollout_variant r \<in> variant_names f"
  by (auto simp: validate_rollout_def validate_attribute_def variant_names_def map_get_None_iff
      check_simps)

lemma in_rule_None [check_simps]: "map_option (in_rule i) e = None \<longleftrightarrow> e = None"
  by simp

lemma validate_variants_None:
  assumes "flag_kind f \<in> {kind_boolean, kind_string}"
  shows "first_error 0 (\<lambda>_ (name, value). validate_variant (flag_kind f) name value)
      (flag_variants f) = None \<longleftrightarrow>
    (\<forall>(name, v) \<in> set (flag_variants f). name \<noteq> [] \<and> has_kind (flag_kind f) v)"
  using validate_variant_None [OF assms] by (simp add: first_error_const_None split_beta)

lemma validate_rules_None:
  "first_error 0 (\<lambda>i r. map_option (in_rule i) (validate_rule f r)) (flag_rules f) = None \<longleftrightarrow>
   (\<forall>r \<in> set (flag_rules f). rule_attribute r \<in> set allowed_attributes \<and>
      rule_equals r \<noteq> [] \<and> rule_variant r \<in> variant_names f)"
  by (auto simp: first_error_None validate_rule_None all_set_conv_all_nth)

lemma validate_flag_None: "validate_flag f = None \<longleftrightarrow> valid_flag f"
proof (cases "flag_kind f \<in> {kind_boolean, kind_string}")
  case True
  have rollout: "(case flag_rollout f of None \<Rightarrow> None | Some r \<Rightarrow> validate_rollout f r) = None \<longleftrightarrow>
      (\<forall>r \<in> set_option (flag_rollout f). validate_rollout f r = None)"
    by (simp split: option.split)
  have default: "flag_variants f \<noteq> [] \<and> map_get (flag_variants f) (flag_default f) \<noteq> None \<longleftrightarrow>
      flag_default f \<in> variant_names f"
    by (auto simp: map_get_None_iff variant_names_def)
  from True default show ?thesis
    unfolding validate_flag_def valid_flag_def validate_variants_None [OF True] validate_rules_None
      and_then_None when_err_None rollout validate_rollout_None validate_key_None length_0_conv
    by blast
qed (auto simp: validate_flag_def valid_flag_def check_simps)

section \<open>Every refusal is an \<^verbatim>\<open>ErrInvalid\<close>\<close>

definition invalid_error :: "flag_error check \<Rightarrow> bool" where
  "invalid_error e \<longleftrightarrow> (\<forall>x. e = Some x \<longrightarrow> (\<exists>d. x = ErrInvalid d))"

lemma invalid_error_simps [simp, intro!]:
  "invalid_error None" "invalid_error (Some (ErrInvalid d))"
  "invalid_error (when_err b (ErrInvalid d))"
  by (auto simp: invalid_error_def)

lemma invalid_error_and_then [intro!]:
  "invalid_error a \<Longrightarrow> invalid_error b \<Longrightarrow> invalid_error (and_then a b)"
  by (auto simp: invalid_error_def and_then_Some)

lemma invalid_error_first [intro!]:
  "(\<And>i x. invalid_error (f i x)) \<Longrightarrow> invalid_error (first_error i f xs)"
  by (induction xs arbitrary: i) auto

lemma validate_key_invalid [intro!]: "invalid_error (validate_key k)"
  unfolding validate_key_def by auto

lemma validate_environment_invalid [intro!]: "invalid_error (validate_environment e)"
  unfolding validate_environment_def by auto

lemma validate_variant_invalid [intro!]: "invalid_error (validate_variant kind n v)"
  by (auto simp: validate_variant_def split: json.splits)

lemma validate_rule_invalid [intro!]: "invalid_error (validate_rule f r)"
  unfolding validate_rule_def validate_attribute_def by auto

lemma validate_rollout_invalid [intro!]: "invalid_error (validate_rollout f r)"
  unfolding validate_rollout_def validate_attribute_def by auto

lemma in_rule_invalid [intro!]: "invalid_error e \<Longrightarrow> invalid_error (map_option (in_rule i) e)"
  by (auto simp: invalid_error_def)

lemma validate_flag_invalid [intro!]: "invalid_error (validate_flag f)"
  unfolding validate_flag_def by (auto simp: split_beta split: option.split)

text \<open>
  C1: the checks of \<^verbatim>\<open>Flag.Validate\<close>, made in the source's order over keys decoded as runes
  and over a map in any order, accept exactly the well-formed definitions: an ASCII key, a known
  kind, a non-empty map of named variants of that kind that defines the default, and rules and a
  rollout that use allowed attributes, a percentage in range and defined variants only; and every
  refusal wraps \<^verbatim>\<open>ErrInvalid\<close>, so the HTTP layer answers 400 and never 500.
\<close>

theorem validate_flag_sound_complete:
  "(validate_flag f = None \<longleftrightarrow> valid_flag f) \<and> invalid_error (validate_flag f)"
  using validate_flag_None by blast

section \<open>Copies and stored fields\<close>

lemma copy_flag_id [simp]: "wf_map (flag_variants f) \<Longrightarrow> copy_flag f = f"
  by (simp add: copy_flag_def split: option.split)

lemma copy_flag_key [simp]: "flag_key (copy_flag f) = flag_key f"
  and copy_flag_revision [simp]: "flag_revision (copy_flag f) = flag_revision f"
  by (simp_all add: copy_flag_def)

definition stamp_flag :: "int \<Rightarrow> int \<Rightarrow> flag \<Rightarrow> flag" where
  "stamp_flag revision now f = f\<lparr>flag_revision := revision, flag_updated_at := now\<rparr>"

lemma valid_stamp [simp]: "valid_flag (stamp_flag r t f) = valid_flag f"
  by (simp add: valid_flag_def stamp_flag_def variant_names_def)

lemma stamp_flag_fields [simp]:
  "flag_key (stamp_flag r t f) = flag_key f" "flag_revision (stamp_flag r t f) = r"
  "flag_updated_at (stamp_flag r t f) = t" "flag_variants (stamp_flag r t f) = flag_variants f"
  by (simp_all add: stamp_flag_def)

lemma decode_flag_valid: "decode_flag unmarshal d = Inr f \<Longrightarrow> valid_flag f"
  by (auto simp: decode_flag_def validate_flag_None split: option.splits)

lemma decode_flag_Inr:
  "decode_flag unmarshal d = Inr f \<longleftrightarrow> unmarshal d = Some f \<and> valid_flag f"
  by (auto simp: decode_flag_def validate_flag_None [symmetric] split: option.splits)

end
