(* ===== verification/Flags_Evaluate.thy ===== *)
theory Flags_Evaluate
  imports Flags_Domain
begin

text \<open>
  Evaluation of one definition: \<^verbatim>\<open>internal/flags/evaluate.go\<close>. The context is the decoded JSON
  object of the request; \<^verbatim>\<open>crypto/sha256.Sum256\<close> is the parameter \<open>sha256\<close> from byte strings to
  byte words, about which nothing is assumed; the bucket arithmetic is on 64-bit words.
\<close>

type_synonym evaluation_context = "(string, json) go_map"

record evaluation =
  eval_key :: string
  eval_value :: "json option"
  eval_reason :: string
  eval_variant :: string
  eval_revision :: int

definition string_attribute :: "evaluation_context \<Rightarrow> string \<Rightarrow> string option" where
  "string_attribute ctx attribute =
     (case map_get ctx attribute of Some (JString s) \<Rightarrow> Some s | _ \<Rightarrow> None)"

definition matches :: "rule \<Rightarrow> evaluation_context \<Rightarrow> bool" where
  "matches r ctx =
     (case string_attribute ctx (rule_attribute r) of None \<Rightarrow> False
      | Some value \<Rightarrow> value = rule_equals r)"

text \<open>\<^verbatim>\<open>binary.BigEndian.Uint64\<close>\<close>

definition be_uint64 :: "8 word list \<Rightarrow> 64 word" where
  "be_uint64 bs = foldl (\<lambda>acc b. push_bit 8 acc OR ucast b) 0 bs"

definition rollout_bucket :: "digest \<Rightarrow> string \<Rightarrow> string \<Rightarrow> 64 word" where
  "rollout_bucket sha256 key value =
     be_uint64 (take 8 (sha256 (key @ [CHR 0x00] @ value))) mod 10000"

definition in_rollout :: "digest \<Rightarrow> string \<Rightarrow> rollout \<Rightarrow> evaluation_context \<Rightarrow> bool" where
  "in_rollout sha256 key r ctx =
     (case string_attribute ctx (rollout_attribute r) of None \<Rightarrow> False
      | Some value \<Rightarrow>
          rollout_bucket sha256 key value < (word_of_int (rollout_percentage r) :: 64 word) * 100)"

text \<open>A variant missing from the map reads as the zero \<^verbatim>\<open>any\<close>, nil: \<open>None\<close>.\<close>

definition resolve :: "flag \<Rightarrow> string \<Rightarrow> string \<Rightarrow> evaluation" where
  "resolve f variant reason =
     \<lparr>eval_key = flag_key f, eval_value = map_get (flag_variants f) variant,
      eval_reason = reason, eval_variant = variant, eval_revision = flag_revision f\<rparr>"

fun first_match :: "rule list \<Rightarrow> evaluation_context \<Rightarrow> rule option" where
  "first_match [] ctx = None"
| "first_match (r # rs) ctx = (if \<not> matches r ctx then first_match rs ctx else Some r)"

definition evaluate :: "digest \<Rightarrow> flag \<Rightarrow> evaluation_context \<Rightarrow> flag_error + evaluation" where
  "evaluate sha256 f ctx =
     (case string_attribute ctx ''targetingKey'' of
        None \<Rightarrow> Inl (ErrInvalid TargetingKeyInvalid)
      | Some targeting_key \<Rightarrow>
        if targeting_key = [] then Inl (ErrInvalid TargetingKeyInvalid)
        else if \<not> flag_enabled f then Inr (resolve f (flag_default f) ''DISABLED'')
        else case first_match (flag_rules f) ctx of
          Some r \<Rightarrow> Inr (resolve f (rule_variant r) ''TARGETING_MATCH'')
        | None \<Rightarrow>
          (case flag_rollout f of
             None \<Rightarrow> Inr (resolve f (flag_default f) ''STATIC'')
           | Some r \<Rightarrow>
             if \<not> in_rollout sha256 (flag_key f) r ctx
             then Inr (resolve f (flag_default f) ''STATIC'')
             else Inr (resolve f (rollout_variant r) ''SPLIT'')))"

definition evaluate_definition :: "digest \<Rightarrow> flag \<Rightarrow> evaluation_context \<Rightarrow> flag_error + evaluation"
where
  "evaluate_definition sha256 f ctx = evaluate sha256 f ctx"

section \<open>Rules\<close>

lemma first_match_Some:
  "first_match rs ctx = Some r \<longleftrightarrow>
     (\<exists>pre post. rs = pre @ r # post \<and> matches r ctx \<and> (\<forall>q \<in> set pre. \<not> matches q ctx))"
proof (induction rs)
  case (Cons q rs)
  show ?case
  proof (cases "matches q ctx")
    case True
    then show ?thesis by (auto simp: Cons_eq_append_conv)
  next
    case False
    with Cons show ?thesis by (auto simp: Cons_eq_append_conv) (metis set_ConsD)+
  qed
qed simp

lemma first_match_None: "first_match rs ctx = None \<longleftrightarrow> (\<forall>r \<in> set rs. \<not> matches r ctx)"
  by (induction rs) auto

lemma first_match_in: "first_match rs ctx = Some r \<Longrightarrow> r \<in> set rs"
  by (auto simp: first_match_Some)

section \<open>The rollout threshold\<close>

lemma rollout_bucket_less: "unat (rollout_bucket sha256 key value) < 10000"
  by (simp add: rollout_bucket_def unat_mod)

lemma rollout_threshold:
  assumes "0 \<le> p" and "p \<le> 100"
  shows "unat ((word_of_int p :: 64 word) * 100) = nat p * 100"
proof -
  have "unat (word_of_int p :: 64 word) = nat p"
    using assms by (simp add: unat_eq_nat_uint uint_word_of_int)
  moreover have "nat p * 100 < 2 ^ 64" using assms by simp
  ultimately show ?thesis by (simp add: unat_word_ariths)
qed

lemma in_rollout_iff:
  assumes "0 \<le> rollout_percentage r" and "rollout_percentage r \<le> 100"
    and "string_attribute ctx (rollout_attribute r) = Some v"
  shows "in_rollout sha256 key r ctx \<longleftrightarrow>
    unat (rollout_bucket sha256 key v) < nat (rollout_percentage r) * 100"
  using assms by (simp add: in_rollout_def word_less_nat_alt rollout_threshold)

section \<open>What an evaluation returns\<close>

lemma evaluate_error:
  "evaluate sha256 f ctx = Inl e \<longleftrightarrow>
     (string_attribute ctx ''targetingKey'' = None \<or> string_attribute ctx ''targetingKey'' = Some [])
     \<and> e = ErrInvalid TargetingKeyInvalid"
  by (auto simp: evaluate_def split: option.splits)

lemma variant_defined:
  assumes "valid_flag f" and "v \<in> variant_names f"
  shows "\<exists>x. map_get (flag_variants f) v = Some x \<and> has_kind (flag_kind f) x"
proof -
  have "map_get (flag_variants f) v \<noteq> None"
    using assms(2) by (simp add: map_get_None_iff variant_names_def)
  then obtain x where x: "map_get (flag_variants f) v = Some x" by blast
  then have "(v, x) \<in> set (flag_variants f)" by (rule map_get_in_set)
  with assms(1) x show ?thesis by (auto simp: valid_flag_def)
qed

lemma evaluate_variant:
  assumes "valid_flag f" and "evaluate sha256 f ctx = Inr e"
  shows "eval_variant e \<in> variant_names f \<and> e = resolve f (eval_variant e) (eval_reason e)"
  using assms
  by (auto simp: evaluate_def resolve_def valid_flag_def dest!: first_match_in
      split: option.splits if_splits)

definition sample_flag :: flag where
  "sample_flag = \<lparr>flag_key = ''checkout-v2'', flag_kind = kind_boolean, flag_enabled = True,
     flag_default = ''off'', flag_variants = [(''on'', JBool True), (''off'', JBool False)],
     flag_rules = [\<lparr>rule_attribute = ''organization.id'', rule_equals = ''acme'', rule_variant = ''on''\<rparr>],
     flag_rollout = Some \<lparr>rollout_attribute = ''targetingKey'', rollout_percentage = 25,
       rollout_variant = ''on''\<rparr>,
     flag_revision = 3, flag_updated_at = 0\<rparr>"

definition sample_digest :: digest where
  "sample_digest s = replicate 32 0"

definition sample_context :: evaluation_context where
  "sample_context = [(''targetingKey'', JString ''user-2'')]"

lemma sample_flag_valid: "valid_flag sample_flag"
  unfolding validate_flag_None [symmetric] by code_simp

lemma sample_split:
  "evaluate sample_digest sample_flag sample_context = Inr (resolve sample_flag ''on'' ''SPLIT'')"
  by code_simp

text \<open>
  C2: a validated flag never resolves to a missing or ill-typed value. Whenever evaluation
  succeeds the chosen variant is defined, its value is of the flag's kind, and the result carries
  the key and revision of the definition.
\<close>

theorem evaluate_well_typed:
  assumes "valid_flag f" and "evaluate sha256 f ctx = Inr e"
  shows "\<exists>v. eval_value e = Some v \<and> map_get (flag_variants f) (eval_variant e) = Some v \<and>
    has_kind (flag_kind f) v \<and> eval_key e = flag_key f \<and> eval_revision e = flag_revision f"
  using evaluate_variant [OF assms] variant_defined [OF assms(1), of "eval_variant e"]
  by (auto simp: resolve_def) (metis evaluation.select_convs)+

theorem evaluate_well_typed_witness:
  "\<exists>v. map_get (flag_variants sample_flag) ''on'' = Some v \<and> has_kind (flag_kind sample_flag) v"
  using evaluate_well_typed [OF sample_flag_valid sample_split] by (auto simp: resolve_def)

text \<open>
  the rules of an enabled flag are tried in declaration order and the first that matches wins,
  whatever the later rules and the rollout say.
\<close>

theorem first_rule_wins:
  assumes "flag_enabled f"
    and "flag_rules f = pre @ r # post"
    and "matches r ctx" and "\<forall>q \<in> set pre. \<not> matches q ctx"
    and "string_attribute ctx ''targetingKey'' = Some k" and "k \<noteq> []"
  shows "evaluate sha256 f ctx = Inr (resolve f (rule_variant r) ''TARGETING_MATCH'')"
proof -
  have "first_match (flag_rules f) ctx = Some r"
    unfolding first_match_Some using assms by blast
  with assms show ?thesis by (simp add: evaluate_def)
qed

definition acme_context :: evaluation_context where
  "acme_context = [(''targetingKey'', JString ''user-2''), (''organization.id'', JString ''acme'')]"

theorem first_rule_wins_witness:
  "evaluate sample_digest sample_flag acme_context
     = Inr (resolve sample_flag ''on'' ''TARGETING_MATCH'')"
  using first_rule_wins [of sample_flag "[]" "hd (flag_rules sample_flag)" "[]" acme_context
      "''user-2''" sample_digest]
  by (simp add: sample_flag_def acme_context_def matches_def string_attribute_def map_get_def)

lemma first_match_cong:
  "(\<And>r. r \<in> set rs \<Longrightarrow> matches r c1 = matches r c2) \<Longrightarrow> first_match rs c1 = first_match rs c2"
  by (induction rs) auto

text \<open>
  C3: the domain's targeting boundary. Two contexts that agree on the two attributes the domain
  allows evaluate a validated flag identically, whatever else they carry.
\<close>

theorem evaluate_targeting_boundary:
  assumes "valid_flag f"
    and "string_attribute c1 ''targetingKey'' = string_attribute c2 ''targetingKey''"
    and "string_attribute c1 ''organization.id'' = string_attribute c2 ''organization.id''"
  shows "evaluate sha256 f c1 = evaluate sha256 f c2"
proof -
  have agree: "string_attribute c1 a = string_attribute c2 a" if "a \<in> set allowed_attributes" for a
    using that assms(2,3) by (auto simp: allowed_attributes_def)
  have "first_match (flag_rules f) c1 = first_match (flag_rules f) c2"
    using assms(1) agree by (intro first_match_cong) (auto simp: valid_flag_def matches_def)
  moreover have "in_rollout sha256 k r c1 = in_rollout sha256 k r c2" if "flag_rollout f = Some r" for k r
    using assms(1) agree that by (auto simp: valid_flag_def in_rollout_def)
  ultimately show ?thesis
    using assms(2) by (auto simp: evaluate_def split: option.splits)
qed

theorem evaluate_targeting_boundary_witness:
  "evaluate sample_digest sample_flag ((''plan'', JString ''gold'') # sample_context)
     = evaluate sample_digest sample_flag sample_context"
  by (rule evaluate_targeting_boundary [OF sample_flag_valid])
     (simp_all add: sample_context_def string_attribute_def map_get_def)

text \<open>
  C4: widening a rollout never moves anyone out of it. If a context is in the rollout of a flag
  then the flag with a larger percentage (at most 100) gives it the same evaluation.
\<close>

theorem rollout_monotone:
  assumes "flag_rollout f = Some r" and "evaluate sha256 f ctx = Inr e" and "eval_reason e = ''SPLIT''"
    and "0 \<le> rollout_percentage r" and "rollout_percentage r \<le> q" and "q \<le> 100"
  shows "evaluate sha256 (f\<lparr>flag_rollout := Some (r\<lparr>rollout_percentage := q\<rparr>)\<rparr>) ctx = Inr e"
proof -
  let ?r = "r\<lparr>rollout_percentage := q\<rparr>"
  have "in_rollout sha256 (flag_key f) ?r ctx" if split: "in_rollout sha256 (flag_key f) r ctx"
  proof -
    obtain v where v: "string_attribute ctx (rollout_attribute r) = Some v"
      using split by (auto simp: in_rollout_def split: option.splits)
    have "nat (rollout_percentage r) \<le> nat q" using assms(5) by simp
    with split v assms(4-6) show ?thesis
      by (auto simp: in_rollout_iff [where r = r] in_rollout_iff [where r = ?r])
  qed
  with assms(1-3) show ?thesis
    by (auto simp: evaluate_def resolve_def split: option.splits if_splits)
qed

theorem rollout_monotone_witness:
  "evaluate sample_digest (sample_flag\<lparr>flag_rollout :=
      Some (the (flag_rollout sample_flag)\<lparr>rollout_percentage := 60\<rparr>)\<rparr>) sample_context
     = Inr (resolve sample_flag ''on'' ''SPLIT'')"
  by (rule rollout_monotone [OF _ sample_split]) (simp_all add: sample_flag_def resolve_def)

text \<open>
  C5: the ends of the range are exact. With a string attribute, 0 percent selects nobody and 100
  percent everybody, for any digest: no bucket is outside the 10,000, and the threshold does not
  wrap in 64 bits.
\<close>

theorem rollout_ends:
  assumes "string_attribute ctx (rollout_attribute r) = Some v"
  shows "\<not> in_rollout sha256 key (r\<lparr>rollout_percentage := 0\<rparr>) ctx \<and>
    in_rollout sha256 key (r\<lparr>rollout_percentage := 100\<rparr>) ctx"
  using assms rollout_bucket_less [of sha256 key v]
  by (simp add: in_rollout_iff [where v = v])

theorem rollout_ends_witness:
  "in_rollout sample_digest ''k'' (the (flag_rollout sample_flag)\<lparr>rollout_percentage := 100\<rparr>)
     sample_context"
  using rollout_ends [of sample_context "the (flag_rollout sample_flag)" "''user-2''" sample_digest "''k''"]
  by (simp add: sample_context_def sample_flag_def string_attribute_def map_get_def)

end
