(* ===== verification/Flags_Snapshot.thy ===== *)
theory Flags_Snapshot
  imports Flags_Evaluate
begin

text \<open>
  The read projection: \<^verbatim>\<open>internal/snapshot/memory.go\<close>, a map from environments to maps from keys
  to flags, and the interface \<^verbatim>\<open>flags.Snapshot\<close> it is used through (the locale
  \<open>flag_snapshot\<close>), interpreted on it. Each method holds the mutex from its first to its last
  access to the map, so it is one atomic function of the state.
\<close>

type_synonym env_flags = "(string, flag) go_map"
type_synonym memory_snapshot = "(string, env_flags) go_map"

definition new_memory :: memory_snapshot where
  "new_memory = []"

text \<open>\<^verbatim>\<open>m.flags[environment]\<close>: the nil map of an unknown environment reads as empty.\<close>

definition env_map :: "memory_snapshot \<Rightarrow> string \<Rightarrow> env_flags" where
  "env_map m environment = (case map_get m environment of None \<Rightarrow> [] | Some current \<Rightarrow> current)"

definition index_flags :: "flag list \<Rightarrow> env_flags" where
  "index_flags fs = foldl (\<lambda>current f. map_put (flag_key f) (copy_flag f) current) [] fs"

definition snapshot_replace :: "(string, flag list) go_map \<Rightarrow> memory_snapshot \<Rightarrow> memory_snapshot" where
  "snapshot_replace loaded m =
     foldl (\<lambda>next (environment, fs). map_put environment (index_flags fs) next) [] loaded"

definition snapshot_put :: "string \<Rightarrow> flag \<Rightarrow> memory_snapshot \<Rightarrow> memory_snapshot" where
  "snapshot_put environment f m =
     (let current = env_map m environment;
          m1 = (if map_get m environment = None then map_put environment [] m else m)
      in case map_get current (flag_key f) of
           Some previous \<Rightarrow>
             if flag_revision previous \<ge> flag_revision f then m1
             else map_put environment (map_put (flag_key f) (copy_flag f) current) m1
         | None \<Rightarrow> map_put environment (map_put (flag_key f) (copy_flag f) current) m1)"

definition snapshot_get :: "memory_snapshot \<Rightarrow> string \<Rightarrow> string \<Rightarrow> flag option" where
  "snapshot_get m environment key = map_option copy_flag (map_get (env_map m environment) key)"

definition snapshot_list :: "memory_snapshot \<Rightarrow> string \<Rightarrow> flag list" where
  "snapshot_list m environment =
     sort_key flag_key (map (\<lambda>(_, f). copy_flag f) (env_map m environment))"

section \<open>Well-formed projections\<close>

definition wf_flag :: "flag \<Rightarrow> bool" where
  "wf_flag f \<longleftrightarrow> wf_map (flag_variants f)"

definition wf_env :: "env_flags \<Rightarrow> bool" where
  "wf_env current \<longleftrightarrow> wf_map current \<and> (\<forall>(k, f) \<in> set current. flag_key f = k \<and> wf_flag f)"

definition wf_snapshot :: "memory_snapshot \<Rightarrow> bool" where
  "wf_snapshot m \<longleftrightarrow> (\<forall>environment. wf_env (env_map m environment))"

definition wf_loaded :: "(string, flag list) go_map \<Rightarrow> bool" where
  "wf_loaded loaded \<longleftrightarrow> wf_map loaded \<and>
     (\<forall>(_, fs) \<in> set loaded. distinct (map flag_key fs) \<and> (\<forall>f \<in> set fs. wf_flag f))"

lemma wf_flag_copy [simp]: "wf_flag f \<Longrightarrow> copy_flag f = f"
  by (simp add: wf_flag_def)

lemma wf_flag_stamp [simp]: "wf_flag (stamp_flag r t f) = wf_flag f"
  by (simp add: wf_flag_def)

lemma wf_env_Nil [simp]: "wf_env []"
  by (simp add: wf_env_def)

lemma wf_envD: "wf_env current \<Longrightarrow> map_get current k = Some f \<Longrightarrow> flag_key f = k \<and> wf_flag f"
  using map_get_in_set [of current k f] by (auto simp: wf_env_def)

lemma wf_snapshot_env: "wf_snapshot m \<Longrightarrow> wf_env (env_map m e)"
  by (simp add: wf_snapshot_def)

lemma wf_env_mem: "wf_env current \<Longrightarrow> (k, f) \<in> set current \<Longrightarrow> flag_key f = k \<and> wf_flag f"
  by (auto simp: wf_env_def)

lemma set_map_put: "set (map_put k v m) \<subseteq> insert (k, v) (set m)"
  unfolding map_put_def by (induction m) auto

lemma wf_env_put [intro]: "wf_env current \<Longrightarrow> wf_flag f \<Longrightarrow> wf_env (map_put (flag_key f) f current)"
  using set_map_put [of "flag_key f" f current] by (auto simp: wf_env_def)

lemma env_map_put [simp]:
  "env_map (map_put e current m) e' = (if e' = e then current else env_map m e')"
  by (simp add: env_map_def)

lemma env_map_Nil [simp]: "env_map [] e = []"
  by (simp add: env_map_def)

lemma wf_snapshot_new [simp]: "wf_snapshot new_memory"
  by (simp add: wf_snapshot_def new_memory_def)

text \<open>The index of a loaded environment.\<close>

definition find_flag :: "flag list \<Rightarrow> string \<Rightarrow> flag option" where
  "find_flag fs key = List.find (\<lambda>f. flag_key f = key) fs"

lemma index_flags_foldl:
  assumes "\<forall>f \<in> set fs. wf_flag f" and "wf_env current"
  shows "wf_env (foldl (\<lambda>current f. map_put (flag_key f) (copy_flag f) current) current fs)"
  using assms by (induction fs arbitrary: current) auto

lemma index_flags_wf: "\<forall>f \<in> set fs. wf_flag f \<Longrightarrow> wf_env (index_flags fs)"
  by (simp add: index_flags_def index_flags_foldl)

lemma map_get_index_foldl:
  assumes "\<forall>f \<in> set fs. wf_flag f" and "distinct (map flag_key fs)"
  shows "map_get (foldl (\<lambda>current f. map_put (flag_key f) (copy_flag f) current) current fs) k =
    (case find_flag fs k of None \<Rightarrow> map_get current k | Some f \<Rightarrow> Some f)"
  using assms
proof (induction fs arbitrary: current)
  case (Cons f fs)
  from Cons.prems have "flag_key g \<noteq> flag_key f" if "g \<in> set fs" for g
    using that by (metis distinct.simps(2) imageI list.set_map list.simps(9))
  then have "find_flag fs (flag_key f) = None"
    by (auto simp: find_flag_def find_None_iff)
  then have "find_flag fs k = None" if "flag_key f = k" using that by simp
  with Cons show ?case by (auto simp: find_flag_def split: option.splits)
qed (simp add: find_flag_def)

lemma map_get_index:
  "\<forall>f \<in> set fs. wf_flag f \<Longrightarrow> distinct (map flag_key fs) \<Longrightarrow> map_get (index_flags fs) k = find_flag fs k"
  by (simp add: index_flags_def map_get_index_foldl split: option.split)

lemma find_flag_Some:
  "distinct (map flag_key fs) \<Longrightarrow> find_flag fs k = Some f \<longleftrightarrow> f \<in> set fs \<and> flag_key f = k"
proof (induction fs)
  case (Cons g fs)
  then show ?case by (auto simp: find_flag_def intro: rev_image_eqI)
qed (simp add: find_flag_def)

lemma env_map_replace_foldl:
  assumes "wf_map loaded"
  shows "env_map (foldl (\<lambda>next (environment, fs). map_put environment (index_flags fs) next) next loaded) e
    = (case map_get loaded e of None \<Rightarrow> env_map next e | Some fs \<Rightarrow> index_flags fs)"
  using assms
proof (induction loaded arbitrary: "next")
  case (Cons x loaded)
  obtain e1 fs1 where x: "x = (e1, fs1)" by fastforce
  with Cons.prems have "map_get loaded e1 = None" "wf_map loaded"
    by (auto simp: wf_map_def map_get_None_iff)
  with Cons.IH show ?case unfolding x
    by (auto simp: map_get_def split: option.splits)
qed simp

lemma env_map_replace:
  "wf_map loaded \<Longrightarrow> env_map (snapshot_replace loaded m) e =
     (case map_get loaded e of None \<Rightarrow> [] | Some fs \<Rightarrow> index_flags fs)"
  by (simp add: snapshot_replace_def env_map_replace_foldl split: option.split)

lemma wf_loadedD:
  "wf_loaded loaded \<Longrightarrow> map_get loaded e = Some fs \<Longrightarrow>
     distinct (map flag_key fs) \<and> (\<forall>f \<in> set fs. wf_flag f)"
  using map_get_in_set [of loaded e fs] by (auto simp: wf_loaded_def)

lemma wf_snapshot_replace:
  assumes "wf_loaded loaded"
  shows "wf_snapshot (snapshot_replace loaded m)"
proof -
  have "wf_map loaded" using assms by (simp add: wf_loaded_def)
  then show ?thesis
    using wf_loadedD [OF assms]
    by (auto simp: wf_snapshot_def env_map_replace intro!: index_flags_wf split: option.split)
qed

section \<open>The interface and its contract\<close>

text \<open>The newer of what is projected and what is being put, the projected one on a tie.\<close>

definition newest :: "flag option \<Rightarrow> flag \<Rightarrow> flag option" where
  "newest old f =
     (case old of Some g \<Rightarrow> if flag_revision g \<ge> flag_revision f then Some g else Some f
      | None \<Rightarrow> Some f)"

definition loaded_flag :: "(string, flag list) go_map \<Rightarrow> string \<Rightarrow> string \<Rightarrow> flag option" where
  "loaded_flag loaded e k = (case map_get loaded e of None \<Rightarrow> None | Some fs \<Rightarrow> find_flag fs k)"

locale flag_snapshot =
  fixes replace :: "(string, flag list) go_map \<Rightarrow> 'sn \<Rightarrow> 'sn"
    and put :: "string \<Rightarrow> flag \<Rightarrow> 'sn \<Rightarrow> 'sn"
    and get :: "'sn \<Rightarrow> string \<Rightarrow> string \<Rightarrow> flag option"
    and listing :: "'sn \<Rightarrow> string \<Rightarrow> flag list"
    and wf :: "'sn \<Rightarrow> bool"
  assumes wf_replace: "wf_loaded loaded \<Longrightarrow> wf (replace loaded m)"
    and get_replace: "wf_loaded loaded \<Longrightarrow> get (replace loaded m) e k = loaded_flag loaded e k"
    and wf_put: "wf m \<Longrightarrow> wf_flag f \<Longrightarrow> wf (put e f m)"
    and get_put: "wf m \<Longrightarrow> wf_flag f \<Longrightarrow> get (put e f m) e' k =
      (if e' = e \<and> k = flag_key f then newest (get m e k) f else get m e' k)"
    and get_wf: "wf m \<Longrightarrow> get m e k = Some f \<Longrightarrow> flag_key f = k \<and> wf_flag f"
    and set_listing: "wf m \<Longrightarrow> f \<in> set (listing m e) \<longleftrightarrow> get m e (flag_key f) = Some f"
    and sorted_listing: "wf m \<Longrightarrow> sorted (map flag_key (listing m e))"
    and distinct_listing: "wf m \<Longrightarrow> distinct (map flag_key (listing m e))"
begin

definition puts :: "(string \<times> flag) list \<Rightarrow> 'sn \<Rightarrow> 'sn" where
  "puts ps m = fold (\<lambda>(e, f). put e f) ps m"

lemma wf_puts: "wf m \<Longrightarrow> \<forall>(e, f) \<in> set ps. wf_flag f \<Longrightarrow> wf (puts ps m)"
  by (induction ps arbitrary: m) (auto simp: puts_def wf_put)

text \<open>What could be projected for one key: what was there, and what is put.\<close>

definition candidates :: "(string \<times> flag) list \<Rightarrow> 'sn \<Rightarrow> string \<Rightarrow> string \<Rightarrow> flag set" where
  "candidates ps m e k = set_option (get m e k) \<union> {f. (e, f) \<in> set ps \<and> flag_key f = k}"

lemma get_puts_newest:
  assumes "wf m" and "\<forall>(e, f) \<in> set ps. wf_flag f"
  shows "case get (puts ps m) e k of None \<Rightarrow> candidates ps m e k = {}
    | Some f \<Rightarrow> f \<in> candidates ps m e k \<and> (\<forall>g \<in> candidates ps m e k. flag_revision g \<le> flag_revision f)"
  using assms
proof (induction ps arbitrary: m)
  case Nil
  then show ?case by (auto simp: puts_def candidates_def split: option.split)
next
  case (Cons p ps)
  obtain e1 f1 where p: "p = (e1, f1)" by fastforce
  with Cons.prems have m1: "wf (put e1 f1 m)" and f1: "wf_flag f1" by (auto intro: wf_put)
  have "puts (p # ps) m = puts ps (put e1 f1 m)" by (simp add: puts_def p)
  moreover have "candidates ps (put e1 f1 m) e k \<subseteq> candidates (p # ps) m e k"
    and "\<forall>g \<in> candidates (p # ps) m e k. \<exists>h \<in> candidates ps (put e1 f1 m) e k.
          flag_revision g \<le> flag_revision h"
    using Cons.prems(1) f1
    by (auto simp: candidates_def get_put newest_def p split: option.splits if_splits)
  moreover have "case get (puts ps (put e1 f1 m)) e k of None \<Rightarrow> candidates ps (put e1 f1 m) e k = {}
    | Some f \<Rightarrow> f \<in> candidates ps (put e1 f1 m) e k \<and>
        (\<forall>g \<in> candidates ps (put e1 f1 m) e k. flag_revision g \<le> flag_revision f)"
    using Cons.IH [OF m1] Cons.prems(2) by simp
  ultimately show ?case
    by (auto split: option.splits) (meson order_trans subsetD)+
qed

text \<open>The order in which commits reach the projection does not matter.\<close>

lemma puts_order_irrelevant:
  assumes "wf m" and "\<forall>(e, f) \<in> set ps. wf_flag f" and "set ps = set qs"
    and inj: "inj_on flag_revision (candidates ps m e k)"
  shows "get (puts ps m) e k = get (puts qs m) e k"
proof -
  have same: "candidates qs m e k = candidates ps m e k"
    using assms(3) by (simp add: candidates_def)
  have wfq: "\<forall>(e, f) \<in> set qs. wf_flag f" using assms(2,3) by simp
  show ?thesis
    using get_puts_newest [OF assms(1,2), of e k] get_puts_newest [OF assms(1) wfq, of e k] inj
    unfolding same
    by (auto split: option.splits simp: inj_on_def) (meson order_antisym)
qed

lemma get_listing: "wf m \<Longrightarrow> get m e k = Some f \<longleftrightarrow> f \<in> set (listing m e) \<and> flag_key f = k"
  using get_wf set_listing by blast

end

section \<open>The in-memory projection meets it\<close>

lemma snapshot_get_env: "wf_snapshot m \<Longrightarrow> snapshot_get m e k = map_get (env_map m e) k"
  using wf_envD [OF wf_snapshot_env, of m e k]
  by (cases "map_get (env_map m e) k") (auto simp: snapshot_get_def)

lemma snapshot_put_env:
  "wf_flag f \<Longrightarrow> env_map (snapshot_put e f m) e' =
     (if e' = e \<and> newest (map_get (env_map m e) (flag_key f)) f = Some f
          \<and> map_get (env_map m e) (flag_key f) \<noteq> Some f
      then map_put (flag_key f) f (env_map m e) else env_map m e')"
  by (auto simp: snapshot_put_def newest_def Let_def env_map_def [of m] split: option.split)

lemma wf_snapshot_put: "wf_snapshot m \<Longrightarrow> wf_flag f \<Longrightarrow> wf_snapshot (snapshot_put e f m)"
  by (auto simp: wf_snapshot_def snapshot_put_env)

lemma snapshot_get_put:
  "wf_snapshot m \<Longrightarrow> wf_flag f \<Longrightarrow> snapshot_get (snapshot_put e f m) e' k =
     (if e' = e \<and> k = flag_key f then newest (snapshot_get m e k) f else snapshot_get m e' k)"
  by (auto simp: snapshot_get_env wf_snapshot_put snapshot_put_env newest_def split: option.splits)

lemma snapshot_list_env:
  assumes "wf_snapshot m"
  shows "snapshot_list m e = sort_key flag_key (map snd (env_map m e))"
proof -
  have "map (\<lambda>(_, f). copy_flag f) (env_map m e) = map snd (env_map m e)"
    using wf_env_mem [OF wf_snapshot_env [OF assms, of e]] by (intro map_cong) auto
  then show ?thesis unfolding snapshot_list_def by (rule arg_cong)
qed

lemma env_keys: "wf_snapshot m \<Longrightarrow> map flag_key (map snd (env_map m e)) = map fst (env_map m e)"
  using wf_env_mem [OF wf_snapshot_env [of m e]] by force

interpretation mem: flag_snapshot snapshot_replace snapshot_put snapshot_get snapshot_list wf_snapshot
proof
  fix loaded :: "(string, flag list) go_map" and m :: memory_snapshot and e k :: string
  assume wf: "wf_loaded loaded"
  then have wm: "wf_map loaded" by (simp add: wf_loaded_def)
  show "wf_snapshot (snapshot_replace loaded m)" using wf by (rule wf_snapshot_replace)
  then show "snapshot_get (snapshot_replace loaded m) e k = loaded_flag loaded e k"
    using wf_loadedD [OF wf]
    by (auto simp: snapshot_get_env env_map_replace [OF wm] loaded_flag_def map_get_index
        split: option.split)
next
  fix m :: memory_snapshot and e k :: string and f :: flag
  assume wf: "wf_snapshot m"
  have keys: "distinct (map flag_key (map snd (env_map m e)))"
    unfolding env_keys [OF wf] using wf_snapshot_env [OF wf, of e] by (simp add: wf_env_def wf_map_def)
  show "snapshot_get m e k = Some f \<Longrightarrow> flag_key f = k \<and> wf_flag f"
    using wf by (auto simp: snapshot_get_env wf_snapshot_def dest: wf_envD)
  show "f \<in> set (snapshot_list m e) \<longleftrightarrow> snapshot_get m e (flag_key f) = Some f"
    using wf by (force simp: snapshot_list_env snapshot_get_env wf_snapshot_def wf_env_def map_get_Some_iff)
  show "sorted (map flag_key (snapshot_list m e))"
    using wf by (simp add: snapshot_list_env)
  show "distinct (map flag_key (snapshot_list m e))"
    using keys unfolding snapshot_list_env [OF wf] by (metis distinct_sort mset_map mset_sort mset_eq_imp_distinct_iff)
qed (simp_all add: wf_snapshot_put snapshot_get_put)

lemmas snapshot_contract =
  mem.wf_replace mem.get_replace mem.wf_put mem.get_put mem.get_wf



end
