(* ===== verification/Flags_Store.thy ===== *)
theory Flags_Store
  imports Flags_Snapshot
begin

text \<open>
  The interface \<^verbatim>\<open>flags.Store\<close> (\<^verbatim>\<open>internal/flags/publish.go\<close>) and what its implementations
  promise. The abstract specification is a ledger: the current definition of every key and the
  log of publications, oldest first. \<open>spec_publish\<close> is the compare-and-publish step both stores
  implement; \<open>flag_store\<close> is the contract, proved for the in-memory store and for SQLite in the
  theories of those stores. An operation takes, as its first argument, the fate of the calls it
  makes to code outside the repository (nothing for the in-memory store, which database call
  fails for SQLite).
\<close>

record ledger =
  current_flag :: "string \<Rightarrow> string \<Rightarrow> flag option"
  publications :: "audit_entry list"

definition empty_ledger :: ledger where
  "empty_ledger = \<lparr>current_flag = (\<lambda>_ _. None), publications = []\<rparr>"

definition current_revision :: "ledger \<Rightarrow> string \<Rightarrow> string \<Rightarrow> int" where
  "current_revision L e k = (case current_flag L e k of None \<Rightarrow> 0 | Some f \<Rightarrow> flag_revision f)"

definition next_sequence :: "audit_entry list \<Rightarrow> int" where
  "next_sequence log = wrap64 (int (length log) + 1)"

definition published_entry :: "int \<Rightarrow> string \<Rightarrow> flag \<Rightarrow> string \<Rightarrow> audit_entry" where
  "published_entry sequence e f actor =
     \<lparr>audit_sequence = sequence, audit_environment = e, audit_key = flag_key f,
      audit_revision = flag_revision f, audit_actor = actor, audit_action = ''published'',
      audit_occurred_at = flag_updated_at f\<rparr>"

definition spec_publish ::
  "string \<Rightarrow> flag \<Rightarrow> int \<Rightarrow> string \<Rightarrow> int \<Rightarrow> ledger \<Rightarrow> ledger \<times> (flag_error + flag)" where
  "spec_publish e f expected actor now L =
     (let cur = current_revision L e (flag_key f) in
      if cur \<noteq> expected then (L, Inl (ErrConflict expected cur))
      else
        let g = stamp_flag (wrap64 (cur + 1)) now f
        in (\<lparr>current_flag = (\<lambda>e' k. if e' = e \<and> k = flag_key f then Some g else current_flag L e' k),
             publications = publications L @
               [published_entry (next_sequence (publications L)) e g actor]\<rparr>, Inr g))"

text \<open>
  Every current definition is stored under its key and validated; its revision is an \<^verbatim>\<open>int64\<close>.
\<close>

definition wf_ledger :: "ledger \<Rightarrow> bool" where
  "wf_ledger L \<longleftrightarrow>
     (\<forall>e k f. current_flag L e k = Some f \<longrightarrow>
        flag_key f = k \<and> wf_flag f \<and> valid_flag f \<and> flag_revision f \<le> max_int64)"

lemma wf_ledgerD:
  "wf_ledger L \<Longrightarrow> current_flag L e k = Some f \<Longrightarrow>
     flag_key f = k \<and> wf_flag f \<and> valid_flag f \<and> flag_revision f \<le> max_int64"
  by (auto simp: wf_ledger_def)

lemma wf_ledger_empty [simp]: "wf_ledger empty_ledger"
  by (simp add: wf_ledger_def empty_ledger_def)

lemma spec_publish_wf:
  "wf_ledger L \<Longrightarrow> wf_flag f \<Longrightarrow> valid_flag f \<Longrightarrow> wf_ledger (fst (spec_publish e f x a t L))"
  by (auto simp: spec_publish_def wf_ledger_def Let_def wrap64_bounds)

lemma spec_publish_Inr:
  "spec_publish e f x a t L = (L', Inr g) \<longleftrightarrow>
     current_revision L e (flag_key f) = x \<and> g = stamp_flag (wrap64 (x + 1)) t f \<and>
     L' = \<lparr>current_flag = (\<lambda>e' k. if e' = e \<and> k = flag_key f then Some g else current_flag L e' k),
           publications = publications L @ [published_entry (next_sequence (publications L)) e g a]\<rparr>"
  by (auto simp: spec_publish_def Let_def)

lemma spec_publish_Inl:
  "spec_publish e f x a t L = (L', Inl err) \<longleftrightarrow>
     current_revision L e (flag_key f) \<noteq> x \<and> L' = L \<and>
     err = ErrConflict x (current_revision L e (flag_key f))"
  by (auto simp: spec_publish_def Let_def)

section \<open>Revisions count publications\<close>

definition key_log :: "ledger \<Rightarrow> string \<Rightarrow> string \<Rightarrow> audit_entry list" where
  "key_log L e k = filter (\<lambda>x. audit_environment x = e \<and> audit_key x = k) (publications L)"

text \<open>
  The revisions published for a key are 1, 2, 3, ... with no gap and no repetition (as 64-bit
  integers), the current definition carries the last one, and the sequence numbers count the log.
\<close>

definition gapless :: "ledger \<Rightarrow> bool" where
  "gapless L \<longleftrightarrow>
     (\<forall>e k. map audit_revision (key_log L e k)
              = map (\<lambda>i. wrap64 (int i)) [1..<Suc (length (key_log L e k))] \<and>
            current_revision L e k = wrap64 (int (length (key_log L e k))) \<and>
            (current_flag L e k = None \<longleftrightarrow> key_log L e k = [])) \<and>
     map audit_sequence (publications L)
       = map (\<lambda>i. wrap64 (int i)) [1..<Suc (length (publications L))]"

lemma gapless_empty [simp]: "gapless empty_ledger"
  by (simp add: gapless_def empty_ledger_def key_log_def current_revision_def)

lemma gapless_publish:
  assumes "gapless L" and "spec_publish e f x a t L = (L', Inr g)"
  shows "gapless L'"
proof -
  let ?entry = "published_entry (next_sequence (publications L)) e g a"
  have cur: "current_revision L e (flag_key f) = x" and g: "g = stamp_flag (wrap64 (x + 1)) t f"
    and L': "L' = \<lparr>current_flag = (\<lambda>e' k. if e' = e \<and> k = flag_key f then Some g
        else current_flag L e' k), publications = publications L @ [?entry]\<rparr>"
    using assms(2) by (auto simp: spec_publish_Inr)
  have log: "key_log L' e' k = key_log L e' k @ (if e' = e \<and> k = flag_key f then [?entry] else [])"
    for e' k
    by (auto simp: key_log_def L' published_entry_def g)
  have x: "x = wrap64 (int (length (key_log L e (flag_key f))))"
    using assms(1) cur by (auto simp: gapless_def)
  have rev: "flag_revision g = wrap64 (int (length (key_log L e (flag_key f))) + 1)"
    by (simp add: g x)
  show ?thesis
    unfolding gapless_def
  proof (intro conjI allI)
    fix e' k
    show "map audit_revision (key_log L' e' k)
        = map (\<lambda>i. wrap64 (int i)) [1..<Suc (length (key_log L' e' k))]"
      and "current_revision L' e' k = wrap64 (int (length (key_log L' e' k)))"
      and "current_flag L' e' k = None \<longleftrightarrow> key_log L' e' k = []"
      using assms(1) rev unfolding log gapless_def
      by (auto simp: L' current_revision_def published_entry_def add.commute)
  next
    show "map audit_sequence (publications L')
        = map (\<lambda>i. wrap64 (int i)) [1..<Suc (length (publications L'))]"
      using assms(1) by (simp add: L' gapless_def published_entry_def next_sequence_def add.commute)
  qed
qed

section \<open>The contract\<close>

type_synonym 'io publication = "'io \<times> string \<times> flag \<times> int \<times> string \<times> int"

text \<open>A run of publications, each with its own fate, and the definitions a store accepts.\<close>

fun publish_all ::
  "('io \<Rightarrow> string \<Rightarrow> flag \<Rightarrow> int \<Rightarrow> string \<Rightarrow> int \<Rightarrow> 'st \<Rightarrow> 'st \<times> (flag_error + flag)) \<Rightarrow>
   'io publication list \<Rightarrow> 'st \<Rightarrow> 'st" where
  "publish_all publish [] s = s"
| "publish_all publish ((io, e, f, x, a, t) # rs) s =
     publish_all publish rs (fst (publish io e f x a t s))"

definition acceptable :: "(flag \<Rightarrow> bool) \<Rightarrow> 'io publication list \<Rightarrow> bool" where
  "acceptable storable rs \<longleftrightarrow> (\<forall>(io, e, f, x, a, t) \<in> set rs. wf_flag f \<and> valid_flag f \<and> storable f)"

type_synonym loaded_flags = "(string, flag list) go_map"

locale flag_store =
  fixes load :: "'io \<Rightarrow> 'st \<Rightarrow> flag_error + loaded_flags"
    and publish :: "'io \<Rightarrow> string \<Rightarrow> flag \<Rightarrow> int \<Rightarrow> string \<Rightarrow> int \<Rightarrow> 'st \<Rightarrow> 'st \<times> (flag_error + flag)"
    and audit :: "'io \<Rightarrow> int \<Rightarrow> 'st \<Rightarrow> (flag_error + audit_entry list) option"
    and ledger :: "'st \<Rightarrow> ledger"
    and ok :: "'st \<Rightarrow> bool"
    and storable :: "flag \<Rightarrow> bool"
  assumes ok_ledger: "ok s \<Longrightarrow> wf_ledger (ledger s)"
    and load_Inr: "ok s \<Longrightarrow> load io s = Inr l \<Longrightarrow>
      wf_loaded l \<and> (\<forall>e k. loaded_flag l e k = current_flag (ledger s) e k)"
    and publish_ok: "ok s \<Longrightarrow> wf_flag f \<Longrightarrow> valid_flag f \<Longrightarrow> storable f \<Longrightarrow> ok (fst (publish io e f x a t s))"
    and publish_spec: "ok s \<Longrightarrow> wf_flag f \<Longrightarrow> valid_flag f \<Longrightarrow> storable f \<Longrightarrow> publish io e f x a t s = (s', r) \<Longrightarrow>
      (ledger s', r) = spec_publish e f x a t (ledger s) \<or>
      (ledger s' = ledger s \<and> (\<exists>m. r = Inl (Internal m)))"
    and audit_returns: "ok s \<Longrightarrow> 0 \<le> n \<Longrightarrow> n \<le> 500 \<Longrightarrow> audit io n s \<noteq> None"
    and audit_Inr: "ok s \<Longrightarrow> audit io n s = Some (Inr es) \<Longrightarrow>
      es = take (nat n) (rev (publications (ledger s)))"
begin

lemma publish_Inr:
  "ok s \<Longrightarrow> wf_flag f \<Longrightarrow> valid_flag f \<Longrightarrow> storable f \<Longrightarrow> publish io e f x a t s = (s', Inr g) \<Longrightarrow>
     (ledger s', Inr g) = spec_publish e f x a t (ledger s)"
  using publish_spec by blast

lemma publish_Inl:
  "ok s \<Longrightarrow> wf_flag f \<Longrightarrow> valid_flag f \<Longrightarrow> storable f \<Longrightarrow> publish io e f x a t s = (s', Inl err) \<Longrightarrow>
     ledger s' = ledger s"
  using publish_spec spec_publish_Inl by metis

lemma publish_gapless:
  assumes "ok s" "wf_flag f" "valid_flag f" "storable f" "gapless (ledger s)"
  shows "gapless (ledger (fst (publish io e f x a t s)))"
proof (cases "publish io e f x a t s")
  case (Pair s' r)
  show ?thesis
  proof (cases r)
    case (Inl err)
    with Pair have "ledger s' = ledger s" by (intro publish_Inl [OF assms(1-4)]) simp
    with Pair assms(5) show ?thesis by simp
  next
    case (Inr g)
    with Pair have "spec_publish e f x a t (ledger s) = (ledger s', Inr g)"
      by (intro publish_Inr [OF assms(1-4), symmetric]) simp
    with gapless_publish [OF assms(5)] Pair show ?thesis by simp
  qed
qed

lemma publish_all_gapless:
  "ok s \<Longrightarrow> gapless (ledger s) \<Longrightarrow> acceptable storable rs \<Longrightarrow>
     ok (publish_all publish rs s) \<and> gapless (ledger (publish_all publish rs s))"
proof (induction rs arbitrary: s)
  case (Cons r rs)
  obtain io e f x a t where "r = (io, e, f, x, a, t)" by (cases r)
  with Cons show ?case by (simp add: acceptable_def publish_ok publish_gapless)
qed simp

text \<open>Of two publishers that expect the same revision, the second is refused.\<close>

lemma publish_once:
  assumes "ok s" "wf_flag f" "valid_flag f" "storable f" "wf_flag g" "valid_flag g" "storable g"
    and "flag_key g = flag_key f"
    and "publish io e f x a t s = (s', Inr h)" and "publish io' e g x b u s' = (s'', r)"
  shows "r = Inl (ErrConflict x (wrap64 (x + 1))) \<or> (\<exists>m. r = Inl (Internal m))"
proof -
  have s': "ok s'" using publish_ok [OF assms(1-4), of io e x a t] assms(9) by simp
  have "current_revision (ledger s') e (flag_key g) = wrap64 (x + 1)"
    using publish_Inr [OF assms(1-4) assms(9), symmetric] assms(8)
    by (auto simp: spec_publish_Inr current_revision_def)
  moreover have "wrap64 (x + 1) \<noteq> x" by (rule wrap64_neq_succ)
  ultimately have "snd (spec_publish e g x b u (ledger s')) = Inl (ErrConflict x (wrap64 (x + 1)))"
    by (simp add: spec_publish_def)
  then show ?thesis
    using publish_spec [OF s' assms(5-7) assms(10)] by (metis snd_conv)
qed

end

end
