(* ===== verification/Flags_Memory_Store.thy ===== *)
theory Flags_Memory_Store
  imports Flags_Store Flags_Evaluate
begin

text \<open>
  The in-process store of \<^verbatim>\<open>internal/store/memory/memory.go\<close>. Each method runs under the mutex.
  \<^verbatim>\<open>time.Now().UTC()\<close> is the argument \<open>now\<close>.
\<close>

record memory_store =
  mem_flags :: memory_snapshot
  mem_audit :: "audit_entry list"
  mem_sequence :: int

definition new_store :: memory_store where
  "new_store = \<lparr>mem_flags = [], mem_audit = [], mem_sequence = 0\<rparr>"

definition memory_load :: "unit \<Rightarrow> memory_store \<Rightarrow> flag_error + loaded_flags" where
  "memory_load io s =
     Inr (map (\<lambda>(environment, current).
            (environment, sort_key flag_key (map (\<lambda>(_, f). copy_flag f) current)))
         (filter (\<lambda>(environment, current). current \<noteq> []) (mem_flags s)))"

definition memory_publish ::
  "unit \<Rightarrow> string \<Rightarrow> flag \<Rightarrow> int \<Rightarrow> string \<Rightarrow> int \<Rightarrow> memory_store \<Rightarrow> memory_store \<times> (flag_error + flag)"
where
  "memory_publish io environment f expected actor now s =
     (let current = env_map (mem_flags s) environment;
          flags1 = (if map_get (mem_flags s) environment = None
                    then map_put environment [] (mem_flags s) else mem_flags s);
          s1 = s\<lparr>mem_flags := flags1\<rparr>;
          previous = map_get current (flag_key f);
          previous_revision = (case previous of None \<Rightarrow> 0 | Some p \<Rightarrow> flag_revision p)
      in if previous = None \<and> expected \<noteq> 0 then (s1, Inl (ErrConflict expected 0))
         else if previous \<noteq> None \<and> previous_revision \<noteq> expected
         then (s1, Inl (ErrConflict expected previous_revision))
         else
           let g = f\<lparr>flag_revision := wrap64 (previous_revision + 1), flag_updated_at := now\<rparr>;
               sequence = wrap64 (mem_sequence s + 1)
           in (\<lparr>mem_flags = map_put environment (map_put (flag_key g) (copy_flag g) current) flags1,
                mem_audit = mem_audit s @
                  [\<lparr>audit_sequence = sequence, audit_environment = environment,
                    audit_key = flag_key g, audit_revision = flag_revision g, audit_actor = actor,
                    audit_action = ''published'', audit_occurred_at = flag_updated_at g\<rparr>],
                mem_sequence = sequence\<rparr>, Inr (copy_flag g)))"

text \<open>
  \<^verbatim>\<open>make([]flags.AuditEntry, 0, limit)\<close> panics on a negative limit (\<open>None\<close>); the loop reads the
  indices from the last one down.
\<close>

definition memory_audit ::
  "unit \<Rightarrow> int \<Rightarrow> memory_store \<Rightarrow> (flag_error + audit_entry list) option" where
  "memory_audit io limit s =
     (let n = int (length (mem_audit s)); limit = (if limit > n then n else limit)
      in if limit < 0 then None
         else Some (Inr (map (\<lambda>j. mem_audit s ! (length (mem_audit s) - Suc j)) [0..<nat limit])))"

section \<open>Refinement of the ledger\<close>

definition memory_ledger :: "memory_store \<Rightarrow> ledger" where
  "memory_ledger s =
     \<lparr>current_flag = (\<lambda>e k. map_get (env_map (mem_flags s) e) k), publications = mem_audit s\<rparr>"

definition memory_ok :: "memory_store \<Rightarrow> bool" where
  "memory_ok s \<longleftrightarrow> wf_map (mem_flags s) \<and> wf_snapshot (mem_flags s) \<and> wf_ledger (memory_ledger s) \<and>
     mem_sequence s = wrap64 (int (length (mem_audit s)))"

lemma new_store_ok [simp]: "memory_ok new_store"
  by (simp add: memory_ok_def new_store_def wf_snapshot_def wf_ledger_def memory_ledger_def)

lemma new_store_ledger [simp]: "memory_ledger new_store = empty_ledger"
  by (simp add: memory_ledger_def new_store_def empty_ledger_def fun_eq_iff)

lemma env_map_touch [simp]:
  "env_map (if map_get m e = None then map_put e [] m else m) e' = env_map m e'"
  by (simp add: env_map_def)

text \<open>The two outcomes of a publication, over the revision the ledger shows.\<close>

definition touched :: "string \<Rightarrow> memory_store \<Rightarrow> memory_store" where
  "touched e s = s\<lparr>mem_flags := (if map_get (mem_flags s) e = None
     then map_put e [] (mem_flags s) else mem_flags s)\<rparr>"

definition committed :: "string \<Rightarrow> flag \<Rightarrow> string \<Rightarrow> memory_store \<Rightarrow> memory_store" where
  "committed e g a s =
     \<lparr>mem_flags = map_put e (map_put (flag_key g) g (env_map (mem_flags s) e))
        (mem_flags (touched e s)),
      mem_audit = mem_audit s @ [published_entry (wrap64 (mem_sequence s + 1)) e g a],
      mem_sequence = wrap64 (mem_sequence s + 1)\<rparr>"

lemma memory_publish_eq:
  assumes "wf_flag f"
  shows "memory_publish io e f x a t s =
    (let cur = current_revision (memory_ledger s) e (flag_key f); g = stamp_flag (wrap64 (cur + 1)) t f
     in if cur \<noteq> x then (touched e s, Inl (ErrConflict x cur)) else (committed e g a s, Inr g))"
proof (cases "map_get (env_map (mem_flags s) e) (flag_key f)")
  case None
  with assms show ?thesis
    by (simp add: memory_publish_def current_revision_def memory_ledger_def touched_def
        committed_def published_entry_def stamp_flag_def [symmetric] Let_def)
next
  case (Some p)
  with assms show ?thesis
    by (simp add: memory_publish_def current_revision_def memory_ledger_def touched_def
        committed_def published_entry_def stamp_flag_def [symmetric] Let_def)
qed

lemma touched_ledger: "memory_ledger (touched e s) = memory_ledger s"
  by (simp add: memory_ledger_def touched_def)

lemma memory_publish_spec:
  assumes "wf_flag f" and "memory_ok s"
  shows "(memory_ledger (fst (memory_publish io e f x a t s)), snd (memory_publish io e f x a t s))
    = spec_publish e f x a t (memory_ledger s)"
  using assms(2)
  by (simp add: memory_publish_eq [OF assms(1)] spec_publish_def Let_def touched_ledger)
     (auto simp: memory_ledger_def committed_def touched_def memory_ok_def next_sequence_def fun_eq_iff)

lemma touched_ok: "memory_ok s \<Longrightarrow> memory_ok (touched e s)"
  by (simp add: memory_ok_def touched_ledger) (simp add: touched_def wf_snapshot_def)

lemma committed_ok:
  assumes "memory_ok s" "wf_flag g" "wf_ledger (memory_ledger (committed e g a s))"
  shows "memory_ok (committed e g a s)"
  using touched_ok [OF assms(1), of e] assms
  by (auto simp: memory_ok_def committed_def wf_snapshot_def add.commute)

lemma memory_publish_ok:
  assumes "memory_ok s" "wf_flag f" "valid_flag f"
  shows "memory_ok (fst (memory_publish io e f x a t s))"
proof -
  have "wf_ledger (memory_ledger (fst (memory_publish io e f x a t s)))"
    using spec_publish_wf [OF _ assms(2,3), of "memory_ledger s" e x a t] assms(1)
      memory_publish_spec [OF assms(2,1), of io e x a t, symmetric]
    by (simp add: memory_ok_def)
  then show ?thesis
    using touched_ok [OF assms(1)] committed_ok [OF assms(1)] assms(2)
    by (auto simp: memory_publish_eq [OF assms(2)] Let_def split: if_splits)
qed

lemma map_nth_rev: "n \<le> length xs \<Longrightarrow> map (\<lambda>j. xs ! (length xs - Suc j)) [0..<n] = take n (rev xs)"
  by (rule nth_equalityI) (auto simp: rev_nth)

lemma memory_audit_eq:
  "0 \<le> n \<Longrightarrow> memory_audit io n s = Some (Inr (take (nat n) (rev (mem_audit s))))"
  by (auto simp: memory_audit_def Let_def map_nth_rev)

lemma map_get_memory_load:
  assumes "memory_ok s"
  shows "memory_load io s = Inr l \<Longrightarrow> map_get l e =
    (if env_map (mem_flags s) e = [] then None else Some (snapshot_list (mem_flags s) e))"
proof -
  have wf: "wf_map (mem_flags s)" using assms by (simp add: memory_ok_def)
  have gen: "map_get (map (\<lambda>(environment, current).
            (environment, sort_key flag_key (map (\<lambda>(_, f). copy_flag f) current)))
         (filter (\<lambda>(environment, current). current \<noteq> []) m)) e =
    (if env_map m e = [] then None else Some (snapshot_list m e))" if "wf_map m" for m
    using that
  proof (induction m)
    case (Cons p m)
    obtain e1 c1 where p: "p = (e1, c1)" by fastforce
    from Cons.prems have "map_get m e1 = None" by (auto simp: p wf_map_def map_get_None_iff)
    moreover have "wf_map m" using Cons.prems by (simp add: wf_map_def)
    ultimately show ?case
      using Cons.IH by (auto simp: p map_get_def env_map_def snapshot_list_def)
  qed simp
  show "memory_load io s = Inr l \<Longrightarrow> ?thesis" using gen [OF wf] by (simp add: memory_load_def)
qed


lemma sort_list_member:
  assumes "wf_snapshot m"
  shows "find_flag (snapshot_list m e) k = snapshot_get m e k"
proof -
  have "find_flag (snapshot_list m e) k = Some f \<longleftrightarrow> snapshot_get m e k = Some f" for f
    using mem.distinct_listing [OF assms, of e] mem.set_listing [OF assms] mem.get_wf [OF assms]
    by (auto simp: find_flag_Some)
  then show ?thesis by (metis not_None_eq)
qed

lemma memory_load_spec:
  assumes "memory_ok s" and "memory_load io s = Inr l"
  shows "wf_loaded l \<and> (\<forall>e k. loaded_flag l e k = current_flag (memory_ledger s) e k)"
proof -
  have wf: "wf_snapshot (mem_flags s)" using assms(1) by (simp add: memory_ok_def)
  have wm: "wf_map l"
  proof -
    have "map fst l = map fst (filter (\<lambda>(_, c). c \<noteq> []) (mem_flags s))"
      using assms(2) by (auto simp: memory_load_def split_beta)
    then show ?thesis
      using assms(1) distinct_map_filter [of fst "mem_flags s"] by (simp add: wf_map_def memory_ok_def)
  qed
  have "distinct (map flag_key fs) \<and> (\<forall>f \<in> set fs. wf_flag f)" if "(e, fs) \<in> set l" for e fs
  proof -
    have "fs = snapshot_list (mem_flags s) e"
      using that map_get_memory_load [OF assms, of e] wm by (auto simp: map_get_Some_iff [symmetric] split: if_splits)
    then show ?thesis
      using mem.distinct_listing [OF wf, of e] mem.set_listing [OF wf] mem.get_wf [OF wf] by blast
  qed
  then have "wf_loaded l" using wm by (auto simp: wf_loaded_def)
  moreover have "loaded_flag l e k = current_flag (memory_ledger s) e k" for e k
    using map_get_memory_load [OF assms, of e]
    by (auto simp: loaded_flag_def memory_ledger_def sort_list_member [OF wf] snapshot_get_env [OF wf])
  ultimately show ?thesis by blast
qed

interpretation mstore: flag_store memory_load memory_publish memory_audit memory_ledger memory_ok
  "\<lambda>_. True"
proof
  fix s s' :: memory_store and io :: unit and f :: flag and e a :: string and x t n :: int
    and l :: loaded_flags and r :: "flag_error + flag" and es :: "audit_entry list"
  assume ok: "memory_ok s"
  then show "wf_ledger (memory_ledger s)" by (simp add: memory_ok_def)
  show "memory_load io s = Inr l \<Longrightarrow>
      wf_loaded l \<and> (\<forall>e k. loaded_flag l e k = current_flag (memory_ledger s) e k)"
    by (rule memory_load_spec [OF ok])
  show "wf_flag f \<Longrightarrow> valid_flag f \<Longrightarrow> memory_ok (fst (memory_publish io e f x a t s))"
    by (rule memory_publish_ok [OF ok])
  show "wf_flag f \<Longrightarrow> valid_flag f \<Longrightarrow> memory_publish io e f x a t s = (s', r) \<Longrightarrow>
      (memory_ledger s', r) = spec_publish e f x a t (memory_ledger s) \<or>
      (memory_ledger s' = memory_ledger s \<and> (\<exists>m. r = Inl (Internal m)))"
    using memory_publish_spec [OF _ ok, of f io e x a t] by auto
  show "0 \<le> n \<Longrightarrow> n \<le> 500 \<Longrightarrow> memory_audit io n s \<noteq> None"
    by (simp add: memory_audit_eq)
  show "memory_audit io n s = Some (Inr es) \<Longrightarrow>
      es = take (nat n) (rev (publications (memory_ledger s)))"
    by (cases "0 \<le> n")
       (auto simp: memory_audit_eq memory_ledger_def, simp add: memory_audit_def Let_def split: if_splits)
qed

section \<open>What the store guarantees\<close>

text \<open>
  C7: the in-memory store implements compare-and-publish exactly. Its \<^verbatim>\<open>Publish\<close> is the ledger's
  step on what it holds: a stale expected revision is refused with both revisions in the conflict
  and changes neither the definitions nor the audit; otherwise the definition is stamped with the
  next revision and one audit row is appended.
\<close>

theorem memory_publish_refines:
  assumes "memory_ok s" and "wf_flag f"
  shows "(memory_ledger (fst (memory_publish io e f x a t s)), snd (memory_publish io e f x a t s))
    = spec_publish e f x a t (memory_ledger s)"
  by (rule memory_publish_spec [OF assms(2,1)])

theorem memory_publish_refines_witness:
  "snd (memory_publish () ''prod'' sample_flag 0 ''ops'' 7 new_store) =
     snd (spec_publish ''prod'' sample_flag 0 ''ops'' 7 empty_ledger)"
proof -
  have "wf_flag sample_flag" by (simp add: wf_flag_def wf_map_def sample_flag_def)
  from memory_publish_refines [OF new_store_ok this, of "()" "''prod''" 0 "''ops''" 7]
  show ?thesis by (simp add: prod_eq_iff)
qed

text \<open>
  after any sequence of publications the audit is complete and gapless: the revisions recorded
  for each key of each environment are 1, 2, 3, ... without gap or repetition, the stored
  definition carries the last of them, and the sequence numbers count the rows.
\<close>

theorem memory_store_gapless:
  assumes "acceptable (\<lambda>_. True) rs"
  shows "gapless (memory_ledger (publish_all memory_publish rs new_store))"
  using mstore.publish_all_gapless [of new_store rs] assms by simp

definition sample_publications :: "unit publication list" where
  "sample_publications =
     [((), ''prod'', sample_flag, 0, ''ops'', 1), ((), ''prod'', sample_flag, 0, ''ops'', 2),
      ((), ''prod'', sample_flag, 1, ''ops'', 3)]"

theorem memory_store_gapless_witness:
  "gapless (memory_ledger (publish_all memory_publish sample_publications new_store)) \<and>
   map audit_revision (mem_audit (publish_all memory_publish sample_publications new_store)) = [1, 2]"
proof
  have "acceptable (\<lambda>_. True) sample_publications"
    using sample_flag_valid
    by (simp add: acceptable_def sample_publications_def wf_flag_def wf_map_def sample_flag_def)
  then show "gapless (memory_ledger (publish_all memory_publish sample_publications new_store))"
    by (rule memory_store_gapless)
  show "map audit_revision (mem_audit (publish_all memory_publish sample_publications new_store))
      = [1, 2]"
    by code_simp
qed

text \<open>
  optimistic concurrency. When two publishers read the same revision of a key and both
  publish against it, the second one always gets the conflict that names the revision the first
  one made.
\<close>

theorem memory_publish_exclusive:
  assumes "memory_ok s" "wf_flag f" "valid_flag f" "wf_flag g" "valid_flag g" "flag_key g = flag_key f"
    and "memory_publish io e f x a t s = (s', Inr h)"
  shows "snd (memory_publish io e g x b u s') = Inl (ErrConflict x (wrap64 (x + 1)))"
proof -
  have s': "memory_ok s'" using memory_publish_ok [OF assms(1-3), of io e x a t] assms(7) by simp
  obtain s'' r where r: "memory_publish io e g x b u s' = (s'', r)" by fastforce
  have "snd (spec_publish e g x b u (memory_ledger s')) = r"
    using memory_publish_spec [OF assms(4) s', of io e x b u] r by (metis prod.sel(2))
  then have "\<nexists>m. r = Inl (Internal m)" by (auto simp: spec_publish_def Let_def split: if_splits)
  then show ?thesis
    using mstore.publish_once [OF assms(1-3) _ assms(4,5) _ assms(6,7) r] r by auto
qed

theorem memory_publish_exclusive_witness:
  "snd (memory_publish () ''prod'' sample_flag 0 ''eve'' 8
      (fst (memory_publish () ''prod'' sample_flag 0 ''ops'' 7 new_store))) = Inl (ErrConflict 0 1)"
proof -
  have wf: "wf_flag sample_flag" by (simp add: wf_flag_def wf_map_def sample_flag_def)
  have "memory_publish () ''prod'' sample_flag 0 ''ops'' 7 new_store
      = (fst (memory_publish () ''prod'' sample_flag 0 ''ops'' 7 new_store), Inr (stamp_flag 1 7 sample_flag))"
    by code_simp
  from memory_publish_exclusive [OF new_store_ok wf sample_flag_valid wf sample_flag_valid refl this]
  show ?thesis by (simp add: wrap64_def)
qed

end
