(* ===== verification/Flags_Service.thy ===== *)
theory Flags_Service
  imports Flags_Memory_Store
begin

text \<open>
  The policy service that composes a store with the projection: \<^verbatim>\<open>Service\<close> of
  \<^verbatim>\<open>internal/flags/publish.go\<close>, \<^verbatim>\<open>audit.go\<close> and \<^verbatim>\<open>evaluate.go\<close>. Its two interface fields are
  arguments of the definitions: the store's and the snapshot's operations it calls. A call of
  \<^verbatim>\<open>Publish\<close> is two atomic steps, the store's commit and the projection's \<^verbatim>\<open>Put\<close>; \<open>publish_step\<close>
  interleaves the steps of any number of concurrent calls.
\<close>

record ('st, 'sn) service =
  svc_store :: 'st
  svc_snapshot :: 'sn

definition open_service ::
  "('io \<Rightarrow> 'st \<Rightarrow> flag_error + loaded_flags) \<Rightarrow> (loaded_flags \<Rightarrow> 'sn \<Rightarrow> 'sn) \<Rightarrow>
   'io \<Rightarrow> 'st \<Rightarrow> 'sn \<Rightarrow> flag_error + ('st, 'sn) service" where
  "open_service load replace io st sn =
     (case load io st of
        Inl e \<Rightarrow> Inl e
      | Inr loaded \<Rightarrow> Inr \<lparr>svc_store = st, svc_snapshot = replace loaded sn\<rparr>)"

definition publish_check :: "string \<Rightarrow> flag \<Rightarrow> int \<Rightarrow> string \<Rightarrow> flag_error check" where
  "publish_check environment f expected actor =
     and_then (validate_environment environment)
    (and_then (validate_flag f)
    (and_then (when_err (expected < 0) (ErrInvalid NegativeExpectedRevision))
       (when_err (blank actor) (ErrInvalid ActorRequired))))"

definition service_publish ::
  "('io \<Rightarrow> string \<Rightarrow> flag \<Rightarrow> int \<Rightarrow> string \<Rightarrow> int \<Rightarrow> 'st \<Rightarrow> 'st \<times> (flag_error + flag)) \<Rightarrow>
   (string \<Rightarrow> flag \<Rightarrow> 'sn \<Rightarrow> 'sn) \<Rightarrow>
   'io \<Rightarrow> string \<Rightarrow> flag \<Rightarrow> int \<Rightarrow> string \<Rightarrow> int \<Rightarrow> ('st, 'sn) service \<Rightarrow>
   ('st, 'sn) service \<times> (flag_error + flag)" where
  "service_publish publish put io environment f expected actor now s =
     (case publish_check environment f expected actor of
        Some e \<Rightarrow> (s, Inl e)
      | None \<Rightarrow>
        (case publish io environment f expected actor now (svc_store s) of
           (st, Inl e) \<Rightarrow> (s\<lparr>svc_store := st\<rparr>, Inl e)
         | (st, Inr published) \<Rightarrow>
             (\<lparr>svc_store = st, svc_snapshot = put environment published (svc_snapshot s)\<rparr>,
              Inr published)))"

definition audit_limit :: "int \<Rightarrow> int" where
  "audit_limit limit = (if limit \<le> 0 \<or> limit > 500 then 100 else limit)"

definition service_audit ::
  "('io \<Rightarrow> int \<Rightarrow> 'st \<Rightarrow> (flag_error + audit_entry list) option) \<Rightarrow>
   'io \<Rightarrow> int \<Rightarrow> ('st, 'sn) service \<Rightarrow> (flag_error + audit_entry list) option" where
  "service_audit audit io limit s = audit io (audit_limit limit) (svc_store s)"

definition service_evaluate ::
  "('sn \<Rightarrow> string \<Rightarrow> string \<Rightarrow> flag option) \<Rightarrow> digest \<Rightarrow>
   string \<Rightarrow> string \<Rightarrow> evaluation_context \<Rightarrow> ('st, 'sn) service \<Rightarrow> flag_error + evaluation" where
  "service_evaluate get sha256 environment key ctx s =
     (case validate_environment environment of
        Some e \<Rightarrow> Inl e
      | None \<Rightarrow>
        (case get (svc_snapshot s) environment key of
           None \<Rightarrow> Inl (ErrNotFound key)
         | Some f \<Rightarrow> evaluate_definition sha256 f ctx))"

definition service_list ::
  "('sn \<Rightarrow> string \<Rightarrow> flag list) \<Rightarrow> string \<Rightarrow> ('st, 'sn) service \<Rightarrow> flag_error + flag list" where
  "service_list listing environment s =
     (case validate_environment environment of
        Some e \<Rightarrow> Inl e
      | None \<Rightarrow> Inr (listing (svc_snapshot s) environment))"

lemma publish_check_None:
  "publish_check e f x a = None \<longleftrightarrow>
     validate_environment e = None \<and> valid_flag f \<and> 0 \<le> x \<and> \<not> blank a"
  by (auto simp: publish_check_def check_simps validate_flag_None)

lemma audit_limit_range: "1 \<le> audit_limit n \<and> audit_limit n \<le> 500"
  by (simp add: audit_limit_def)

section \<open>Concurrent publications\<close>

text \<open>
  The state of the process while calls of \<^verbatim>\<open>Publish\<close> are in flight: \<open>inflight\<close> holds the
  definitions committed to the store and not yet put into the projection.
\<close>

record ('st, 'sn) system = "('st, 'sn) service" +
  inflight :: "(string \<times> flag) list"

text \<open>
  A Go map has distinct keys, so every \<^verbatim>\<open>Flag\<close> value satisfies \<open>wf_flag\<close>; \<open>storable\<close> says which
  definitions the store's encoding can represent (every one, for the in-memory store).
\<close>

inductive publish_step ::
  "('io \<Rightarrow> string \<Rightarrow> flag \<Rightarrow> int \<Rightarrow> string \<Rightarrow> int \<Rightarrow> 'st \<Rightarrow> 'st \<times> (flag_error + flag)) \<Rightarrow>
   (string \<Rightarrow> flag \<Rightarrow> 'sn \<Rightarrow> 'sn) \<Rightarrow> (flag \<Rightarrow> bool) \<Rightarrow>
   ('st, 'sn) system \<Rightarrow> ('st, 'sn) system \<Rightarrow> bool"
  for publish put storable where
  commit: "publish_check e f x a = None \<Longrightarrow> wf_flag f \<Longrightarrow> storable f \<Longrightarrow>
     publish io e f x a t (svc_store s) = (st, Inr g) \<Longrightarrow>
     publish_step publish put storable s (s\<lparr>svc_store := st, inflight := (e, g) # inflight s\<rparr>)"
| refused: "publish_check e f x a = None \<Longrightarrow> wf_flag f \<Longrightarrow> storable f \<Longrightarrow>
     publish io e f x a t (svc_store s) = (st, Inl err) \<Longrightarrow>
     publish_step publish put storable s (s\<lparr>svc_store := st\<rparr>)"
| project: "(e, g) \<in> set (inflight s) \<Longrightarrow>
     publish_step publish put storable s
       (s\<lparr>svc_snapshot := put e g (svc_snapshot s), inflight := remove1 (e, g) (inflight s)\<rparr>)"

inductive publish_reachable ::
  "('io \<Rightarrow> string \<Rightarrow> flag \<Rightarrow> int \<Rightarrow> string \<Rightarrow> int \<Rightarrow> 'st \<Rightarrow> 'st \<times> (flag_error + flag)) \<Rightarrow>
   (string \<Rightarrow> flag \<Rightarrow> 'sn \<Rightarrow> 'sn) \<Rightarrow> (flag \<Rightarrow> bool) \<Rightarrow>
   ('st, 'sn) service \<Rightarrow> ('st, 'sn) system \<Rightarrow> bool"
  for publish put storable s0 where
  start: "publish_reachable publish put storable s0
     \<lparr>svc_store = svc_store s0, svc_snapshot = svc_snapshot s0, inflight = []\<rparr>"
| step: "publish_reachable publish put storable s0 s \<Longrightarrow> publish_step publish put storable s s' \<Longrightarrow>
     publish_reachable publish put storable s0 s'"

locale flag_service =
  flag_store load publish audit ledger ok storable +
  flag_snapshot replace put get listing wf
  for load :: "'io \<Rightarrow> 'st \<Rightarrow> flag_error + loaded_flags"
    and publish :: "'io \<Rightarrow> string \<Rightarrow> flag \<Rightarrow> int \<Rightarrow> string \<Rightarrow> int \<Rightarrow> 'st \<Rightarrow> 'st \<times> (flag_error + flag)"
    and audit :: "'io \<Rightarrow> int \<Rightarrow> 'st \<Rightarrow> (flag_error + audit_entry list) option"
    and ledger :: "'st \<Rightarrow> ledger"
    and ok :: "'st \<Rightarrow> bool"
    and storable :: "flag \<Rightarrow> bool"
    and replace :: "loaded_flags \<Rightarrow> 'sn \<Rightarrow> 'sn"
    and put :: "string \<Rightarrow> flag \<Rightarrow> 'sn \<Rightarrow> 'sn"
    and get :: "'sn \<Rightarrow> string \<Rightarrow> string \<Rightarrow> flag option"
    and listing :: "'sn \<Rightarrow> string \<Rightarrow> flag list"
    and wf :: "'sn \<Rightarrow> bool"
begin

text \<open>What is projected or about to be for a key.\<close>

definition visible :: "('st, 'sn) system \<Rightarrow> string \<Rightarrow> string \<Rightarrow> flag set" where
  "visible s e k = set_option (get (svc_snapshot s) e k)
     \<union> {g. (e, g) \<in> set (inflight s) \<and> flag_key g = k}"

text \<open>
  The invariant of one key: everything visible is a valid definition no newer than the store's,
  the store's own definition is among it, and the revision identifies the definition. A key
  whose revision has passed the largest \<^verbatim>\<open>int64\<close> (after which no publication can succeed) is
  excluded by the sign of its revision.
\<close>

definition key_coherent :: "('st, 'sn) system \<Rightarrow> string \<Rightarrow> string \<Rightarrow> bool" where
  "key_coherent s e k \<longleftrightarrow>
     (case current_flag (ledger (svc_store s)) e k of
        None \<Rightarrow> visible s e k = {}
      | Some f \<Rightarrow> flag_revision f < 0 \<or>
          (f \<in> visible s e k \<and>
           (\<forall>g \<in> visible s e k. flag_revision g < flag_revision f \<or> g = f)))"

definition coherent :: "('st, 'sn) system \<Rightarrow> bool" where
  "coherent s \<longleftrightarrow> ok (svc_store s) \<and> wf (svc_snapshot s) \<and>
     (\<forall>(e, g) \<in> set (inflight s). wf_flag g) \<and>
     (\<forall>e k. (\<forall>g \<in> visible s e k. valid_flag g) \<and> key_coherent s e k)"

lemma coherent_key: "coherent s \<Longrightarrow> key_coherent s e k"
  by (simp add: coherent_def)

lemma coherent_same_ledger:
  assumes "coherent s" and "ok st" and "ledger st = ledger (svc_store s)"
  shows "coherent (s\<lparr>svc_store := st\<rparr>)"
proof -
  have vis: "visible (s\<lparr>svc_store := st\<rparr>) e k = visible s e k" for e k by (simp add: visible_def)
  have "key_coherent (s\<lparr>svc_store := st\<rparr>) e k = key_coherent s e k" for e k
    using assms(3) by (simp add: key_coherent_def vis split: option.split)
  with assms show ?thesis by (simp add: coherent_def vis)
qed

lemma commit_coherent:
  assumes s: "coherent s" and chk: "publish_check e f x a = None"
    and f: "wf_flag f" "storable f" and pub: "publish io e f x a t (svc_store s) = (st, Inr g)"
  shows "coherent (s\<lparr>svc_store := st, inflight := (e, g) # inflight s\<rparr>)" (is "coherent ?s'")
proof -
  have ok: "ok (svc_store s)" and vf: "valid_flag f" and x: "0 \<le> x"
    using s chk by (auto simp: coherent_def publish_check_None)
  have spec: "current_revision (ledger (svc_store s)) e (flag_key f) = x"
    and g: "g = stamp_flag (wrap64 (x + 1)) t f"
    and cur: "current_flag (ledger st) e' k =
      (if e' = e \<and> k = flag_key f then Some g else current_flag (ledger (svc_store s)) e' k)" for e' k
    using publish_Inr [OF ok f(1) vf f(2) pub, symmetric] by (auto simp: spec_publish_Inr)
  have vis: "visible ?s' e' k = (if e' = e \<and> k = flag_key f then insert g else id) (visible s e' k)"
    for e' k by (auto simp: visible_def g)
  have rev: "flag_revision g = wrap64 (x + 1)" by (simp add: g)
  have x_max: "x \<le> max_int64"
    using spec wf_ledgerD [OF ok_ledger [OF ok]]
    by (auto simp: current_revision_def max_int64_def split: option.splits)
  have new: "key_coherent ?s' e (flag_key f)"
  proof (cases "current_flag (ledger (svc_store s)) e (flag_key f)")
    case None
    then have "visible s e (flag_key f) = {}"
      using coherent_key [OF s, of e "flag_key f"] by (simp add: key_coherent_def)
    then show ?thesis by (simp add: key_coherent_def cur vis)
  next
    case (Some h)
    with coherent_key [OF s, of e "flag_key f"] spec x
    have "\<forall>v \<in> visible s e (flag_key f). flag_revision v \<le> x"
      by (fastforce simp: key_coherent_def current_revision_def)
    with wrap64_succ [OF x x_max] show ?thesis
      by (fastforce simp: key_coherent_def cur vis rev)
  qed
  have "key_coherent ?s' e' k" for e' k
    using new coherent_key [OF s, of e' k] by (cases "e' = e \<and> k = flag_key f")
      (auto simp: key_coherent_def cur vis split: option.splits)
  moreover have "valid_flag g" using vf by (simp add: g)
  then have "\<forall>h \<in> visible ?s' e' k. valid_flag h" for e' k
    using s unfolding vis coherent_def by auto
  ultimately show ?thesis
    using s f publish_ok [OF ok f(1) vf f(2), of io e x a t] pub by (auto simp: coherent_def g)
qed

lemma project_coherent:
  assumes s: "coherent s" and pend: "(e, g) \<in> set (inflight s)"
  shows "coherent (s\<lparr>svc_snapshot := put e g (svc_snapshot s), inflight := remove1 (e, g) (inflight s)\<rparr>)"
    (is "coherent ?s'")
proof -
  have wf: "wf (svc_snapshot s)" and wg: "wf_flag g" using s pend by (auto simp: coherent_def)
  have sub: "visible ?s' e' k \<subseteq> visible s e' k" for e' k
    using pend
    by (auto simp: visible_def get_put [OF wf wg] newest_def
        dest: subsetD [OF set_remove1_subset] split: option.splits if_splits)
  have keep: "h \<in> visible ?s' e' k"
    if h: "h \<in> visible s e' k" and top: "\<forall>v \<in> visible s e' k. flag_revision v < flag_revision h \<or> v = h"
    for h e' k
  proof (cases "e' = e \<and> k = flag_key g")
    case True
    then have gv: "g \<in> visible s e' k" using pend by (auto simp: visible_def)
    show ?thesis
    proof (cases "h = g \<or> get (svc_snapshot s) e' k = Some h")
      case True
      have "get (put e g (svc_snapshot s)) e' k = Some h"
      proof (cases "get (svc_snapshot s) e' k")
        case None
        with True \<open>e' = e \<and> k = flag_key g\<close> show ?thesis by (auto simp: get_put [OF wf wg] newest_def)
      next
        case (Some v)
        then have "v \<in> visible s e' k" by (simp add: visible_def)
        with Some True gv top \<open>e' = e \<and> k = flag_key g\<close> show ?thesis
          by (fastforce simp: get_put [OF wf wg] newest_def)
      qed
      then show ?thesis by (simp add: visible_def)
    next
      case False
      with h have "(e', h) \<in> set (remove1 (e, g) (inflight s))" "flag_key h = k"
        by (auto simp: visible_def in_set_remove1)
      then show ?thesis by (simp add: visible_def)
    qed
  next
    case False
    then have "get (put e g (svc_snapshot s)) e' k = get (svc_snapshot s) e' k"
      by (auto simp: get_put [OF wf wg])
    moreover have "(e', h) \<noteq> (e, g)" if "flag_key h = k" using False that by auto
    ultimately show ?thesis using h by (auto simp: visible_def in_set_remove1)
  qed
  have "key_coherent ?s' e' k" for e' k
  proof (cases "current_flag (ledger (svc_store s)) e' k")
    case None
    with coherent_key [OF s, of e' k] sub [of e' k] show ?thesis by (simp add: key_coherent_def)
  next
    case (Some h)
    have "key_coherent s e' k" using s by (rule coherent_key)
    with Some sub [of e' k] keep [of h e' k] show ?thesis by (auto simp: key_coherent_def)
  qed
  moreover have "\<forall>h \<in> visible ?s' e' k. valid_flag h" for e' k
    using s sub [of e' k] by (auto simp: coherent_def)
  ultimately show ?thesis
    using s wf_put [OF wf wg, of e] set_remove1_subset [of "(e, g)" "inflight s"]
    by (auto simp: coherent_def)
qed

lemma publish_step_coherent:
  "publish_step publish put storable s s' \<Longrightarrow> coherent s \<Longrightarrow> coherent s'"
proof (induction rule: publish_step.induct)
  case (refused e f x a io t s st err)
  then have "ok (svc_store s)" "valid_flag f" by (auto simp: coherent_def publish_check_None)
  with refused publish_ok [of "svc_store s" f io e x a t] publish_Inl show ?case
    by (intro coherent_same_ledger) auto
qed (auto intro: commit_coherent project_coherent)

lemma open_coherent:
  assumes "ok st" and "open_service load replace io st sn = Inr s0"
  shows "coherent \<lparr>svc_store = svc_store s0, svc_snapshot = svc_snapshot s0, inflight = []\<rparr>"
proof -
  obtain l where l: "load io st = Inr l" and s0: "s0 = \<lparr>svc_store = st, svc_snapshot = replace l sn\<rparr>"
    using assms(2) by (auto simp: open_service_def split: sum.splits)
  with load_Inr [OF assms(1) l] have "get (svc_snapshot s0) e k = current_flag (ledger st) e k" for e k
    by (simp add: get_replace)
  with s0 load_Inr [OF assms(1) l] wf_ledgerD [OF ok_ledger [OF assms(1)]] assms(1) show ?thesis
    by (auto simp: coherent_def key_coherent_def visible_def wf_replace split: option.splits)
qed

lemma reachable_coherent:
  assumes "ok st" and "open_service load replace io st sn = Inr s0"
    and "publish_reachable publish put storable s0 s"
  shows "coherent s"
  using assms(3)
proof (induction rule: publish_reachable.induct)
  case start
  show ?case by (rule open_coherent [OF assms(1,2)])
qed (rule publish_step_coherent)

lemma coherent_quiescent:
  assumes "coherent s" and "inflight s = []"
    and "case current_flag (ledger (svc_store s)) e k of None \<Rightarrow> True | Some f \<Rightarrow> 0 \<le> flag_revision f"
  shows "get (svc_snapshot s) e k = current_flag (ledger (svc_store s)) e k"
proof -
  have "visible s e k = set_option (get (svc_snapshot s) e k)" using assms(2) by (simp add: visible_def)
  with coherent_key [OF assms(1), of e k] assms(3) show ?thesis
    by (cases "get (svc_snapshot s) e k") (auto simp: key_coherent_def split: option.splits)
qed

end

interpretation memory_service: flag_service memory_load memory_publish memory_audit memory_ledger memory_ok
  "\<lambda>_. True" snapshot_replace snapshot_put snapshot_get snapshot_list wf_snapshot
  by unfold_locales

end
