(* ===== verification/Flags_Sqlite_Store.thy ===== *)
theory Flags_Sqlite_Store
  imports Flags_Store "HOL-Library.Product_Lexorder"
begin

text \<open>
  The durable store of \<^verbatim>\<open>internal/store/sqlite\<close>. The database is its two tables: lists of rows in
  insertion order, with the primary key of \<^verbatim>\<open>flags\<close> kept unique by the upsert and the counter of
  the \<^verbatim>\<open>AUTOINCREMENT\<close> column. A transaction works on a copy of the database that \<^verbatim>\<open>Commit\<close>
  installs and the deferred \<^verbatim>\<open>Rollback\<close> otherwise drops. Every call into the driver may fail: the
  argument \<open>io\<close> names the call that does. \<^verbatim>\<open>encoding/json\<close> and the time format are the parameter
  \<open>codec\<close>; \<open>storable\<close> says for which definitions it round-trips, which is what
  \<^verbatim>\<open>encoding/json\<close> documents for valid UTF-8 and what \<^verbatim>\<open>RFC3339Nano\<close> keeps of a UTC time.
\<close>

record ('b, 't) codec =
  marshal :: "flag \<Rightarrow> 'b option"
  unmarshal :: "'b \<Rightarrow> flag option"
  format_time :: "int \<Rightarrow> 't"
  parse_time :: "'t \<Rightarrow> int option"

record ('b, 't) flag_row =
  row_environment :: string
  row_key :: string
  row_definition :: 'b
  row_revision :: int
  row_updated_at :: 't

record ('b, 't) audit_row =
  arow_sequence :: int
  arow_environment :: string
  arow_key :: string
  arow_revision :: int
  arow_actor :: string
  arow_action :: string
  arow_definition :: 'b
  arow_occurred_at :: 't

record ('b, 't) flags_database =
  flags_table :: "('b, 't) flag_row list"
  audit_table :: "('b, 't) audit_row list"
  audit_autoincrement :: int

datatype db_call =
    OpenDriver | Prepare | QueryFlags | ScanFlag nat | IterateFlags
  | BeginTx | ReadRevision | WriteFlag | AppendAudit | CommitTx
  | QueryAudit | ScanAudit nat | IterateAudit

type_synonym db_io = "db_call option"

section \<open>Opening and loading\<close>

definition empty_database :: "('b, 't) flags_database" where
  "empty_database = \<lparr>flags_table = [], audit_table = [], audit_autoincrement = 0\<rparr>"

text \<open>\<^verbatim>\<open>prepare\<close>: \<^verbatim>\<open>CREATE TABLE IF NOT EXISTS\<close> on the database file (\<open>None\<close>: a new file).\<close>

definition sqlite_prepare ::
  "db_io \<Rightarrow> ('b, 't) flags_database option \<Rightarrow> flag_error + ('b, 't) flags_database" where
  "sqlite_prepare io file =
     (if io = Some Prepare then Inl (Internal ''prepare sqlite'')
      else Inr (case file of None \<Rightarrow> empty_database | Some db \<Rightarrow> db))"

definition sqlite_open ::
  "db_io \<Rightarrow> ('b, 't) flags_database option \<Rightarrow> flag_error + ('b, 't) flags_database" where
  "sqlite_open io file =
     (if io = Some OpenDriver then Inl (Internal ''open sqlite'') else sqlite_prepare io file)"

definition append_loaded :: "string \<Rightarrow> flag \<Rightarrow> loaded_flags \<Rightarrow> loaded_flags" where
  "append_loaded e f loaded =
     map_put e ((case map_get loaded e of None \<Rightarrow> [] | Some fs \<Rightarrow> fs) @ [f]) loaded"

fun load_rows ::
  "('b, 't) codec \<Rightarrow> db_io \<Rightarrow> nat \<Rightarrow> ('b, 't) flag_row list \<Rightarrow> loaded_flags \<Rightarrow> flag_error + loaded_flags"
where
  "load_rows C io i [] loaded =
     (if io = Some IterateFlags then Inl (Internal ''iterate flags'') else Inr loaded)"
| "load_rows C io i (r # rs) loaded =
     (if io = Some (ScanFlag i) then Inl (Internal ''scan flag'')
      else case decode_flag (unmarshal C) (row_definition r) of
             Inl e \<Rightarrow> Inl e
           | Inr f \<Rightarrow> load_rows C io (Suc i) rs (append_loaded (row_environment r) f loaded))"

definition sqlite_load ::
  "('b, 't) codec \<Rightarrow> db_io \<Rightarrow> ('b, 't) flags_database \<Rightarrow> flag_error + loaded_flags" where
  "sqlite_load C io db =
     (if io = Some QueryFlags then Inl (Internal ''query flags'')
      else load_rows C io 0 (sort_key (\<lambda>r. (row_environment r, row_key r)) (flags_table db)) [])"

section \<open>Publishing\<close>

definition find_row :: "('b, 't) flag_row list \<Rightarrow> string \<Rightarrow> string \<Rightarrow> ('b, 't) flag_row option" where
  "find_row rows e k = List.find (\<lambda>r. row_environment r = e \<and> row_key r = k) rows"

definition read_revision ::
  "db_io \<Rightarrow> ('b, 't) flags_database \<Rightarrow> string \<Rightarrow> string \<Rightarrow> flag_error + int \<times> bool" where
  "read_revision io tx e k =
     (if io = Some ReadRevision then Inl (Internal ''read current revision'')
      else case find_row (flags_table tx) e k of
             None \<Rightarrow> Inr (0, False)
           | Some r \<Rightarrow> Inr (row_revision r, True))"

text \<open>\<^verbatim>\<open>INSERT ... ON CONFLICT(environment, key) DO UPDATE\<close>\<close>

definition upsert_row :: "('b, 't) flag_row \<Rightarrow> ('b, 't) flag_row list \<Rightarrow> ('b, 't) flag_row list" where
  "upsert_row row rows =
     (if find_row rows (row_environment row) (row_key row) = None then rows @ [row]
      else map (\<lambda>r. if row_environment r = row_environment row \<and> row_key r = row_key row
                    then row else r) rows)"

definition write_flag ::
  "('b, 't) codec \<Rightarrow> db_io \<Rightarrow> ('b, 't) flags_database \<Rightarrow> string \<Rightarrow> flag \<Rightarrow> 'b \<Rightarrow>
   flag_error + ('b, 't) flags_database" where
  "write_flag C io tx e f definition' =
     (if io = Some WriteFlag then Inl (Internal ''write flag'')
      else Inr (tx\<lparr>flags_table := upsert_row
        \<lparr>row_environment = e, row_key = flag_key f, row_definition = definition',
          row_revision = flag_revision f, row_updated_at = format_time C (flag_updated_at f)\<rparr>
        (flags_table tx)\<rparr>))"

text \<open>An \<^verbatim>\<open>AUTOINCREMENT\<close> column that has used the largest \<^verbatim>\<open>int64\<close> refuses the insert.\<close>

definition append_audit ::
  "('b, 't) codec \<Rightarrow> db_io \<Rightarrow> ('b, 't) flags_database \<Rightarrow> string \<Rightarrow> flag \<Rightarrow> string \<Rightarrow> 'b \<Rightarrow>
   flag_error + ('b, 't) flags_database" where
  "append_audit C io tx e f actor definition' =
     (if io = Some AppendAudit \<or> audit_autoincrement tx \<ge> max_int64
      then Inl (Internal ''append audit'')
      else Inr (tx\<lparr>audit_table := audit_table tx @
          [\<lparr>arow_sequence = audit_autoincrement tx + 1, arow_environment = e,
            arow_key = flag_key f, arow_revision = flag_revision f, arow_actor = actor,
            arow_action = ''published'', arow_definition = definition',
            arow_occurred_at = format_time C (flag_updated_at f)\<rparr>],
        audit_autoincrement := audit_autoincrement tx + 1\<rparr>))"

definition sqlite_publish ::
  "('b, 't) codec \<Rightarrow> db_io \<Rightarrow> string \<Rightarrow> flag \<Rightarrow> int \<Rightarrow> string \<Rightarrow> int \<Rightarrow> ('b, 't) flags_database \<Rightarrow>
   ('b, 't) flags_database \<times> (flag_error + flag)" where
  "sqlite_publish C io environment f expected actor now db =
     (if io = Some BeginTx then (db, Inl (Internal ''begin publish''))
      else let tx = db in
      case read_revision io tx environment (flag_key f) of
        Inl e \<Rightarrow> (db, Inl e)
      | Inr (current, exists) \<Rightarrow>
        if \<not> exists \<and> expected \<noteq> 0 then (db, Inl (ErrConflict expected 0))
        else if exists \<and> current \<noteq> expected then (db, Inl (ErrConflict expected current))
        else
          let g = f\<lparr>flag_revision := wrap64 (current + 1), flag_updated_at := now\<rparr> in
          case marshal C g of
            None \<Rightarrow> (db, Inl (Internal ''encode flag''))
          | Some definition' \<Rightarrow>
            case write_flag C io tx environment g definition' of
              Inl e \<Rightarrow> (db, Inl e)
            | Inr tx1 \<Rightarrow>
              case append_audit C io tx1 environment g actor definition' of
                Inl e \<Rightarrow> (db, Inl e)
              | Inr tx2 \<Rightarrow>
                if io = Some CommitTx then (db, Inl (Internal ''commit publish''))
                else (tx2, Inr (copy_flag g)))"

section \<open>Reading the audit\<close>

definition scan_audit :: "('b, 't) codec \<Rightarrow> ('b, 't) audit_row \<Rightarrow> flag_error + audit_entry" where
  "scan_audit C r =
     (case parse_time C (arow_occurred_at r) of
        None \<Rightarrow> Inl (Internal ''parse audit time'')
      | Some t \<Rightarrow> Inr \<lparr>audit_sequence = arow_sequence r, audit_environment = arow_environment r,
          audit_key = arow_key r, audit_revision = arow_revision r, audit_actor = arow_actor r,
          audit_action = arow_action r, audit_occurred_at = t\<rparr>)"

fun scan_rows ::
  "('b, 't) codec \<Rightarrow> db_io \<Rightarrow> nat \<Rightarrow> ('b, 't) audit_row list \<Rightarrow> audit_entry list \<Rightarrow>
   flag_error + audit_entry list" where
  "scan_rows C io i [] entries =
     (if io = Some IterateAudit then Inl (Internal ''iterate audit'') else Inr entries)"
| "scan_rows C io i (r # rs) entries =
     (if io = Some (ScanAudit i) then Inl (Internal ''scan audit'')
      else case scan_audit C r of
             Inl e \<Rightarrow> Inl e
           | Inr entry \<Rightarrow> scan_rows C io (Suc i) rs (entries @ [entry]))"

text \<open>
  \<^verbatim>\<open>ORDER BY sequence DESC LIMIT ?\<close>, where a negative limit is none; then the \<^verbatim>\<open>make\<close> with a
  negative capacity panics (\<open>None\<close>).
\<close>

definition sqlite_audit ::
  "('b, 't) codec \<Rightarrow> db_io \<Rightarrow> int \<Rightarrow> ('b, 't) flags_database \<Rightarrow> (flag_error + audit_entry list) option"
where
  "sqlite_audit C io limit db =
     (if io = Some QueryAudit then Some (Inl (Internal ''query audit''))
      else if limit < 0 then None
      else Some (scan_rows C io 0
             (take (nat limit) (rev (sort_key arow_sequence (audit_table db)))) []))"

section \<open>The database as a ledger\<close>

definition row_ok :: "('b, 't) codec \<Rightarrow> ('b, 't) flag_row \<Rightarrow> bool" where
  "row_ok C r \<longleftrightarrow>
     (case unmarshal C (row_definition r) of None \<Rightarrow> False
      | Some f \<Rightarrow> flag_key f = row_key r \<and> flag_revision f = row_revision r \<and> wf_flag f \<and>
          valid_flag f \<and> flag_revision f \<le> max_int64)"

definition arow_entry :: "('b, 't) codec \<Rightarrow> ('b, 't) audit_row \<Rightarrow> audit_entry" where
  "arow_entry C r =
     \<lparr>audit_sequence = arow_sequence r, audit_environment = arow_environment r,
      audit_key = arow_key r, audit_revision = arow_revision r, audit_actor = arow_actor r,
      audit_action = arow_action r,
      audit_occurred_at = (case parse_time C (arow_occurred_at r) of None \<Rightarrow> 0 | Some t \<Rightarrow> t)\<rparr>"

definition row_id :: "('b, 't) flag_row \<Rightarrow> string \<times> string" where
  "row_id r = (row_environment r, row_key r)"

definition sqlite_ledger :: "('b, 't) codec \<Rightarrow> ('b, 't) flags_database \<Rightarrow> ledger" where
  "sqlite_ledger C db =
     \<lparr>current_flag = (\<lambda>e k. case find_row (flags_table db) e k of None \<Rightarrow> None
        | Some r \<Rightarrow> unmarshal C (row_definition r)),
      publications = map (arow_entry C) (audit_table db)\<rparr>"

definition sqlite_ok :: "('b, 't) codec \<Rightarrow> ('b, 't) flags_database \<Rightarrow> bool" where
  "sqlite_ok C db \<longleftrightarrow>
     distinct (map row_id (flags_table db)) \<and> (\<forall>r \<in> set (flags_table db). row_ok C r) \<and>
     (\<forall>r \<in> set (audit_table db). parse_time C (arow_occurred_at r) \<noteq> None) \<and>
     map arow_sequence (audit_table db) = map int [1..<Suc (length (audit_table db))] \<and>
     audit_autoincrement db = int (length (audit_table db)) \<and> audit_autoincrement db \<le> max_int64"

definition codec_storable :: "('b, 't) codec \<Rightarrow> flag \<Rightarrow> bool" where
  "codec_storable C f \<longleftrightarrow>
     (\<forall>r t d. marshal C (stamp_flag r t f) = Some d \<longrightarrow> unmarshal C d = Some (stamp_flag r t f)) \<and>
     (\<forall>t. parse_time C (format_time C t) = Some t)"

lemma empty_database_ok [simp]: "sqlite_ok C empty_database"
  by (simp add: sqlite_ok_def empty_database_def max_int64_def)

lemma empty_database_ledger [simp]: "sqlite_ledger C empty_database = empty_ledger"
  by (simp add: sqlite_ledger_def empty_database_def empty_ledger_def find_row_def fun_eq_iff)

lemma find_row_Some: "find_row rows e k = Some r \<Longrightarrow> r \<in> set rows \<and> row_environment r = e \<and> row_key r = k"
  by (auto simp: find_row_def find_Some_iff)

lemma find_row_None: "find_row rows e k = None \<longleftrightarrow> (e, k) \<notin> row_id ` set rows"
  by (auto simp: find_row_def find_None_iff row_id_def)

lemma find_row_distinct:
  assumes "distinct (map row_id rows)" and "r \<in> set rows"
  shows "find_row rows (row_environment r) (row_key r) = Some r"
proof -
  obtain q where q: "find_row rows (row_environment r) (row_key r) = Some q"
    using assms(2) by (cases "find_row rows (row_environment r) (row_key r)")
      (auto simp: find_row_None row_id_def)
  have "q = r"
    using find_row_Some [OF q] assms by (auto simp: distinct_map inj_on_def row_id_def)
  with q show ?thesis by simp
qed

lemma find_row_map:
  "(\<And>r. row_id (g r) = row_id r) \<Longrightarrow> find_row (map g rows) e k = map_option g (find_row rows e k)"
  by (induction rows) (auto simp: find_row_def row_id_def)

lemma find_row_Cons:
  "find_row (r # rows) e k = (if row_environment r = e \<and> row_key r = k then Some r else find_row rows e k)"
  by (simp add: find_row_def)

lemma find_row_Nil [simp]: "find_row [] e k = None"
  by (simp add: find_row_def)

lemma find_row_snoc:
  "find_row (rows @ [row]) e k =
     (case find_row rows e k of None \<Rightarrow> find_row [row] e k | Some r \<Rightarrow> Some r)"
  by (induction rows) (auto simp: find_row_Cons)

lemma find_row_upsert:
  "find_row (upsert_row row rows) e k =
     (if e = row_environment row \<and> k = row_key row then Some row else find_row rows e k)"
proof (cases "find_row rows (row_environment row) (row_key row) = None")
  case True
  then show ?thesis by (auto simp: upsert_row_def find_row_snoc find_row_Cons split: option.split)
next
  case False
  then obtain q where q: "find_row rows (row_environment row) (row_key row) = Some q" by blast
  let ?g = "\<lambda>r. if row_environment r = row_environment row \<and> row_key r = row_key row then row else r"
  have "find_row (map ?g rows) e k = map_option ?g (find_row rows e k)"
    by (rule find_row_map) (simp add: row_id_def)
  with q show ?thesis
    by (cases "find_row rows e k") (auto simp: upsert_row_def dest: find_row_Some)
qed

lemma upsert_ids:
  "distinct (map row_id rows) \<Longrightarrow> distinct (map row_id (upsert_row row rows))"
proof (cases "find_row rows (row_environment row) (row_key row) = None")
  case True
  then show "distinct (map row_id rows) \<Longrightarrow> ?thesis" by (auto simp: upsert_row_def find_row_None row_id_def)
next
  case False
  have "map row_id (upsert_row row rows) = map row_id rows"
    using False by (auto simp: upsert_row_def row_id_def)
  then show "distinct (map row_id rows) \<Longrightarrow> ?thesis" by simp
qed

lemma set_upsert: "set (upsert_row row rows) \<subseteq> insert row (set rows)"
  by (auto simp: upsert_row_def)

lemma sqlite_ok_row:
  "sqlite_ok C db \<Longrightarrow> find_row (flags_table db) e k = Some r \<Longrightarrow>
     \<exists>f. unmarshal C (row_definition r) = Some f \<and> flag_key f = k \<and> flag_revision f = row_revision r \<and>
       wf_flag f \<and> valid_flag f \<and> flag_revision f \<le> max_int64"
  using find_row_Some [of "flags_table db" e k r] by (force simp: sqlite_ok_def row_ok_def split: option.splits)

lemma sqlite_ledger_wf: "sqlite_ok C db \<Longrightarrow> wf_ledger (sqlite_ledger C db)"
  by (fastforce simp: wf_ledger_def sqlite_ledger_def dest: sqlite_ok_row split: option.splits)

section \<open>Publishing refines the ledger's step\<close>

definition committed_db ::
  "('b, 't) codec \<Rightarrow> string \<Rightarrow> flag \<Rightarrow> string \<Rightarrow> 'b \<Rightarrow> ('b, 't) flags_database \<Rightarrow> ('b, 't) flags_database"
where
  "committed_db C e g a d db =
     \<lparr>flags_table = upsert_row
        \<lparr>row_environment = e, row_key = flag_key g, row_definition = d,
          row_revision = flag_revision g, row_updated_at = format_time C (flag_updated_at g)\<rparr>
        (flags_table db),
      audit_table = audit_table db @
        [\<lparr>arow_sequence = audit_autoincrement db + 1, arow_environment = e, arow_key = flag_key g,
          arow_revision = flag_revision g, arow_actor = a, arow_action = ''published'',
          arow_definition = d, arow_occurred_at = format_time C (flag_updated_at g)\<rparr>],
      audit_autoincrement = audit_autoincrement db + 1\<rparr>"

lemma sqlite_revision:
  assumes "sqlite_ok C db"
  shows "current_revision (sqlite_ledger C db) e k =
    (case find_row (flags_table db) e k of None \<Rightarrow> 0 | Some r \<Rightarrow> row_revision r)"
  using sqlite_ok_row [OF assms, of e k]
  by (auto simp: current_revision_def sqlite_ledger_def split: option.split)

lemma sqlite_publish_outcome:
  assumes ok: "sqlite_ok C db" and f: "wf_flag f" "codec_storable C f"
    and pub: "sqlite_publish C io e f x a t db = (db', r)"
  defines "cur \<equiv> current_revision (sqlite_ledger C db) e (flag_key f)"
  defines "g \<equiv> stamp_flag (wrap64 (cur + 1)) t f"
  shows "(db' = db \<and> (\<exists>m. r = Inl (Internal m))) \<or>
    (db' = db \<and> cur \<noteq> x \<and> r = Inl (ErrConflict x cur)) \<or>
    (cur = x \<and> r = Inr g \<and> audit_autoincrement db < max_int64 \<and>
      (\<exists>d. unmarshal C d = Some g \<and> db' = committed_db C e g a d db))"
proof -
  have unm: "unmarshal C d = Some g" if "marshal C g = Some d" for d
    using f(2) that by (auto simp: codec_storable_def g_def)
  have g: "f\<lparr>flag_revision := wrap64 (cur + 1), flag_updated_at := t\<rparr> = g" "copy_flag g = g"
    using f(1) by (simp_all add: g_def stamp_flag_def [symmetric])
  show ?thesis
  proof (cases "find_row (flags_table db) e (flag_key f)")
    case None
    then have "cur = 0" using sqlite_revision [OF ok] by (simp add: cur_def)
    with None pub g unm show ?thesis
      by (auto simp: sqlite_publish_def Let_def read_revision_def write_flag_def append_audit_def
          committed_db_def split: if_splits option.splits)
  next
    case (Some q)
    then have "cur = row_revision q" using sqlite_revision [OF ok] by (simp add: cur_def)
    with Some pub g unm show ?thesis
      by (auto simp: sqlite_publish_def Let_def read_revision_def write_flag_def append_audit_def
          committed_db_def split: if_splits option.splits)
  qed
qed

lemma committed_ledger:
  assumes ok: "sqlite_ok C db" and d: "unmarshal C d = Some g"
    and lt: "audit_autoincrement db < max_int64"
    and time: "parse_time C (format_time C (flag_updated_at g)) = Some (flag_updated_at g)"
  shows "sqlite_ledger C (committed_db C e g a d db) =
    \<lparr>current_flag = (\<lambda>e' k. if e' = e \<and> k = flag_key g then Some g
        else current_flag (sqlite_ledger C db) e' k),
     publications = publications (sqlite_ledger C db) @
       [published_entry (next_sequence (publications (sqlite_ledger C db))) e g a]\<rparr>"
proof -
  have "next_sequence (publications (sqlite_ledger C db)) = audit_autoincrement db + 1"
    using ok lt by (simp add: next_sequence_def sqlite_ledger_def sqlite_ok_def wrap64_id)
  with d time show ?thesis
    by (auto simp: sqlite_ledger_def committed_db_def find_row_upsert published_entry_def arow_entry_def
        fun_eq_iff)
qed

lemma committed_db_ok:
  assumes ok: "sqlite_ok C db" and d: "unmarshal C d = Some g" and g: "wf_flag g" "valid_flag g"
    and rev: "flag_revision g \<le> max_int64" and lt: "audit_autoincrement db < max_int64"
    and time: "parse_time C (format_time C (flag_updated_at g)) = Some (flag_updated_at g)"
  shows "sqlite_ok C (committed_db C e g a d db)"
  unfolding sqlite_ok_def
proof (intro conjI ballI)
  fix r
  assume "r \<in> set (flags_table (committed_db C e g a d db))"
  with ok d g rev set_upsert show "row_ok C r"
    by (fastforce simp: committed_db_def row_ok_def sqlite_ok_def)
qed (use ok lt time in \<open>auto simp: committed_db_def sqlite_ok_def upsert_ids\<close>)

lemma sqlite_publish_ok:
  assumes "sqlite_ok C db" "wf_flag f" "valid_flag f" "codec_storable C f"
  shows "sqlite_ok C (fst (sqlite_publish C io e f x a t db))"
proof -
  obtain db' r where "sqlite_publish C io e f x a t db = (db', r)" by fastforce
  with sqlite_publish_outcome [OF assms(1,2,4) this] assms committed_db_ok [OF assms(1)] show ?thesis
    by (auto simp: codec_storable_def wrap64_bounds)
qed

lemma sqlite_publish_spec:
  assumes "sqlite_ok C db" "wf_flag f" "codec_storable C f"
    and "sqlite_publish C io e f x a t db = (db', r)"
  shows "(sqlite_ledger C db', r) = spec_publish e f x a t (sqlite_ledger C db) \<or>
    (sqlite_ledger C db' = sqlite_ledger C db \<and> (\<exists>m. r = Inl (Internal m)))"
  using sqlite_publish_outcome [OF assms] committed_ledger [OF assms(1)] assms(3)
  by (auto simp: spec_publish_def Let_def codec_storable_def)

section \<open>Loading and auditing read the ledger\<close>

lemma loaded_append:
  "loaded_flag (append_loaded e f l) e' k =
     (if e' = e \<and> k = flag_key f \<and> loaded_flag l e' k = None then Some f else loaded_flag l e' k)"
proof -
  have snoc: "find_flag (fs @ [f]) k =
      (if k = flag_key f \<and> find_flag fs k = None then Some f else find_flag fs k)" for fs
    by (induction fs) (auto simp: find_flag_def)
  have "find_flag [] k = None" by (simp add: find_flag_def)
  then show ?thesis
    using snoc snoc [of "[]"] by (auto simp: loaded_flag_def append_loaded_def split: option.split)
qed

lemma wf_loaded_append:
  assumes "wf_loaded l" and "wf_flag f" and "loaded_flag l e (flag_key f) = None"
  shows "wf_loaded (append_loaded e f l)"
proof -
  let ?fs = "case map_get l e of None \<Rightarrow> [] | Some fs \<Rightarrow> fs"
  have "flag_key f \<notin> flag_key ` set ?fs"
    using assms(3) by (auto simp: loaded_flag_def find_flag_def find_None_iff split: option.splits)
  moreover have "distinct (map flag_key ?fs) \<and> (\<forall>g \<in> set ?fs. wf_flag g)"
    using wf_loadedD [OF assms(1), of e] by (auto split: option.split)
  ultimately have "distinct (map flag_key (?fs @ [f])) \<and> (\<forall>g \<in> set (?fs @ [f]). wf_flag g)"
    using assms(2) by auto
  moreover have "wf_map (append_loaded e f l)"
    using assms(1) by (simp add: wf_loaded_def append_loaded_def)
  moreover have "set (append_loaded e f l) \<subseteq> insert (e, ?fs @ [f]) (set l)"
    unfolding append_loaded_def by (rule set_map_put)
  ultimately show ?thesis using assms(1) unfolding wf_loaded_def by blast
qed

lemma load_rows_Inr:
  assumes "load_rows C io i rows l = Inr l'"
    and "\<forall>r \<in> set rows. row_ok C r" and "distinct (map row_id rows)" and "wf_loaded l"
    and "\<forall>r \<in> set rows. loaded_flag l (row_environment r) (row_key r) = None"
  shows "wf_loaded l' \<and> loaded_flag l' e k =
    (case find_row rows e k of None \<Rightarrow> loaded_flag l e k | Some r \<Rightarrow> unmarshal C (row_definition r))"
  using assms
proof (induction rows arbitrary: i l)
  case Nil
  then show ?case by (auto split: if_splits)
next
  case (Cons r rows)
  from Cons.prems(2) obtain f where f: "unmarshal C (row_definition r) = Some f" "flag_key f = row_key r"
    "wf_flag f" "valid_flag f" by (auto simp: row_ok_def split: option.splits)
  let ?l = "append_loaded (row_environment r) f l"
  have rest: "load_rows C io (Suc i) rows ?l = Inr l'"
    using Cons.prems(1) f decode_flag_Inr [of "unmarshal C" "row_definition r" f] by (auto split: if_splits)
  have none: "loaded_flag l (row_environment r) (flag_key f) = None" using Cons.prems(5) f by simp
  have new: "(row_environment q, row_key q) \<noteq> (row_environment r, row_key r)" if "q \<in> set rows" for q
  proof -
    from Cons.prems(3) that have "row_id q \<noteq> row_id r" by (metis distinct.simps(2) imageI list.simps(9) set_map)
    then show ?thesis by (simp add: row_id_def)
  qed
  have "wf_loaded l' \<and> loaded_flag l' e k =
    (case find_row rows e k of None \<Rightarrow> loaded_flag ?l e k | Some r \<Rightarrow> unmarshal C (row_definition r))"
    using Cons.prems f none new
    by (intro Cons.IH [OF rest]) (auto simp: loaded_append wf_loaded_append)
  moreover have "find_row rows e k = None" if "row_environment r = e \<and> row_key r = k"
    using Cons.prems(3) that by (auto simp: find_row_None row_id_def)
  ultimately show ?case
    using f none by (auto simp: find_row_Cons loaded_append split: option.splits)
qed

lemma find_row_same_set:
  assumes "distinct (map row_id rows)" and "set rows' = set rows"
  shows "find_row rows' e k = find_row rows e k"
proof (cases "find_row rows' e k")
  case None
  then show ?thesis using assms(2) by (metis find_row_None)
next
  case (Some r)
  with find_row_Some [OF Some] assms find_row_distinct [OF assms(1), of r] show ?thesis by auto
qed

lemma sqlite_load_Inr:
  assumes ok: "sqlite_ok C db" and load: "sqlite_load C io db = Inr l"
  shows "wf_loaded l \<and> loaded_flag l e k = current_flag (sqlite_ledger C db) e k"
proof -
  let ?rows = "sort_key (\<lambda>r. (row_environment r, row_key r)) (flags_table db)"
  have "load_rows C io 0 ?rows [] = Inr l" using load by (auto simp: sqlite_load_def split: if_splits)
  moreover have dist: "distinct (map row_id (flags_table db))" using ok by (simp add: sqlite_ok_def)
  then have "distinct (map row_id ?rows)"
    by (metis distinct_map distinct_sort set_sort)
  ultimately have "wf_loaded l \<and> loaded_flag l e k = (case find_row ?rows e k of
      None \<Rightarrow> loaded_flag [] e k | Some r \<Rightarrow> unmarshal C (row_definition r))"
    using ok by (intro load_rows_Inr) (auto simp: sqlite_ok_def wf_loaded_def loaded_flag_def)
  then show ?thesis
    using find_row_same_set [OF dist, of ?rows e k]
    by (simp add: sqlite_ledger_def loaded_flag_def split: option.splits)
qed

lemma scan_rows_Inr:
  "scan_rows C io i rows es = Inr es' \<Longrightarrow> \<forall>r \<in> set rows. parse_time C (arow_occurred_at r) \<noteq> None \<Longrightarrow>
     es' = es @ map (arow_entry C) rows"
proof (induction rows arbitrary: i es)
  case (Cons r rows)
  then obtain t where "parse_time C (arow_occurred_at r) = Some t" by auto
  then have "scan_audit C r = Inr (arow_entry C r)" by (simp add: scan_audit_def arow_entry_def)
  with Cons.prems have "scan_rows C io (Suc i) rows (es @ [arow_entry C r]) = Inr es'"
    by (auto split: if_splits)
  from Cons.IH [OF this] Cons.prems(2) show ?case by simp
qed (auto split: if_splits)

lemma sorted_seq: "map f xs = map int [1..<Suc (length xs)] \<Longrightarrow> sorted (map f xs)"
  by (simp add: sorted_map del: upt_Suc)

lemma sqlite_audit_Inr:
  assumes ok: "sqlite_ok C db" and "sqlite_audit C io n db = Some (Inr es)"
  shows "es = take (nat n) (rev (publications (sqlite_ledger C db)))"
proof -
  have "sorted (map arow_sequence (audit_table db))"
    using ok by (intro sorted_seq) (simp add: sqlite_ok_def del: upt_Suc)
  then have sort: "sort_key arow_sequence (audit_table db) = audit_table db"
    by (rule sort_key_id_if_sorted)
  have "\<forall>r \<in> set (take (nat n) (rev (audit_table db))). parse_time C (arow_occurred_at r) \<noteq> None"
    using ok by (auto simp: sqlite_ok_def dest!: in_set_takeD)
  with assms(2) show ?thesis
    using scan_rows_Inr [of C io 0 "take (nat n) (rev (audit_table db))" "[]" es]
    by (auto simp: sqlite_audit_def sort sqlite_ledger_def take_map rev_map split: if_splits)
qed

lemma scan_rows_error: "scan_rows C io i rows es = Inl e \<Longrightarrow> \<exists>m. e = Internal m"
  by (induction C io i rows es rule: scan_rows.induct)
    (auto simp: scan_audit_def split: if_splits option.splits sum.splits)

lemma sqlite_audit_error: "sqlite_audit C io n db = Some (Inl e) \<Longrightarrow> \<exists>m. e = Internal m"
  by (auto simp: sqlite_audit_def split: if_splits dest: scan_rows_error)

interpretation sq: flag_store "sqlite_load C" "sqlite_publish C" "sqlite_audit C" "sqlite_ledger C"
  "sqlite_ok C" "codec_storable C" for C
proof
qed (auto simp: sqlite_ledger_wf sqlite_load_Inr sqlite_publish_ok sqlite_audit_Inr
    dest!: sqlite_publish_spec simp: sqlite_audit_def)

lemma load_rows_returns:
  "\<forall>r \<in> set rows. row_ok C r \<Longrightarrow> \<exists>l'. load_rows C None i rows l = Inr l'"
proof (induction rows arbitrary: i l)
  case (Cons r rows)
  from Cons.prems obtain f where "decode_flag (unmarshal C) (row_definition r) = Inr f"
    by (auto simp: row_ok_def decode_flag_Inr split: option.splits)
  with Cons show ?case by simp
qed simp

lemma scan_rows_returns:
  "\<forall>r \<in> set rows. parse_time C (arow_occurred_at r) \<noteq> None \<Longrightarrow> \<exists>es'. scan_rows C None i rows es = Inr es'"
  by (induction rows arbitrary: i es) (auto simp: scan_audit_def)

lemma sqlite_audit_returns:
  assumes "sqlite_ok C db" and "0 \<le> n"
  shows "sqlite_audit C None n db = Some (Inr (take (nat n) (rev (publications (sqlite_ledger C db)))))"
proof -
  have "\<forall>r \<in> set (take (nat n) (rev (sort_key arow_sequence (audit_table db)))).
      parse_time C (arow_occurred_at r) \<noteq> None"
    using assms(1) by (auto simp: sqlite_ok_def dest!: in_set_takeD)
  then obtain es where "sqlite_audit C None n db = Some (Inr es)"
    using scan_rows_returns [of _ C 0 "[]"] assms(2) by (fastforce simp: sqlite_audit_def)
  with sqlite_audit_Inr [OF assms(1) this] show ?thesis by simp
qed

text \<open>A codec that stores the values themselves.\<close>

definition plain_codec :: "(flag, int) codec" where
  "plain_codec = \<lparr>marshal = Some, unmarshal = Some, format_time = id, parse_time = Some\<rparr>"

lemma plain_codec_storable: "codec_storable plain_codec f"
  by (simp add: codec_storable_def plain_codec_def)

lemma sample_flag_wf: "wf_flag sample_flag"
  by (simp add: wf_flag_def wf_map_def sample_flag_def)

lemma sqlite_publish_cases:
  assumes "sqlite_ok C db" and "wf_flag f" and "valid_flag f" and "codec_storable C f"
    and "sqlite_publish C io e f x a t db = (db', r)"
  shows "(\<exists>g. r = Inr g \<and> sqlite_ok C db' \<and>
      spec_publish e f x a t (sqlite_ledger C db) = (sqlite_ledger C db', Inr g)) \<or>
    (db' = db \<and> (\<exists>m. r = Inl (Internal m))) \<or>
    (db' = db \<and> current_revision (sqlite_ledger C db) e (flag_key f) \<noteq> x \<and>
      r = Inl (ErrConflict x (current_revision (sqlite_ledger C db) e (flag_key f))))"
  using sqlite_publish_outcome [OF assms(1,2,4,5)] sq.publish_ok [OF assms(1-4), of io e x a t]
    sq.publish_Inr [OF assms(1-4), of io e x a t db'] assms(5)
  by (auto simp del: stamp_flag_fields)

text \<open>
  C8: a publication through SQLite is atomic whatever driver call fails. Either the transaction
  committed, the caller got the stamped definition, and the database moved by exactly the
  ledger's compare-and-publish step (row and audit entry together); or the database is
  untouched and the caller got an error, and a conflict error only when the expected revision
  was not the stored one, which it reports.
\<close>

theorem sqlite_publish_atomic:
  assumes "sqlite_ok C db" and "wf_flag f" and "valid_flag f" and "codec_storable C f"
    and "sqlite_publish C io e f x a t db = (db', r)"
  shows "(\<exists>g. r = Inr g \<and> sqlite_ok C db' \<and>
      spec_publish e f x a t (sqlite_ledger C db) = (sqlite_ledger C db', Inr g)) \<or>
    (db' = db \<and> (\<exists>m. r = Inl (Internal m))) \<or>
    (db' = db \<and> current_revision (sqlite_ledger C db) e (flag_key f) \<noteq> x \<and>
      r = Inl (ErrConflict x (current_revision (sqlite_ledger C db) e (flag_key f))))"
  using assms by (rule sqlite_publish_cases)

theorem sqlite_publish_atomic_witness:
  "fst (sqlite_publish plain_codec (Some AppendAudit) ''prod'' sample_flag 0 ''mona'' 7 empty_database)
     = empty_database"
proof -
  have out: "sqlite_publish plain_codec (Some AppendAudit) ''prod'' sample_flag 0 ''mona'' 7 empty_database
      = (empty_database, Inl (Internal ''append audit''))"
    by code_simp
  from sqlite_publish_atomic [OF empty_database_ok sample_flag_wf sample_flag_valid plain_codec_storable out]
  show ?thesis by (auto simp: out)
qed

text \<open>
  C9: nothing published is lost by a restart. After any run of publications on a new database,
  each with any driver call failing, opening the file again and loading it yields exactly the
  current definitions of the ledger, whose revisions are gapless, and the audit reads its latest
  publications, newest first.
\<close>

theorem sqlite_restart:
  assumes "acceptable (codec_storable C) rs"
  shows "\<exists>db l. sqlite_open None (Some (publish_all (sqlite_publish C) rs empty_database)) = Inr db \<and>
    sqlite_load C None db = Inr l \<and> wf_loaded l \<and> gapless (sqlite_ledger C db) \<and>
    (\<forall>e k. loaded_flag l e k =
       current_flag (sqlite_ledger C (publish_all (sqlite_publish C) rs empty_database)) e k) \<and>
    sqlite_audit C None 500 db = Some (Inr (take 500 (rev (publications (sqlite_ledger C db)))))"
proof -
  let ?db = "publish_all (sqlite_publish C) rs empty_database"
  have ok: "sqlite_ok C ?db" and gap: "gapless (sqlite_ledger C ?db)"
    using sq.publish_all_gapless [of C empty_database rs] assms by simp_all
  obtain l where l: "sqlite_load C None ?db = Inr l"
    using load_rows_returns [of _ C 0 "[]"] ok by (fastforce simp: sqlite_load_def sqlite_ok_def)
  show ?thesis
    using sq.load_Inr [OF ok l] sqlite_audit_returns [OF ok, of 500] l gap
    by (auto simp: sqlite_open_def sqlite_prepare_def)
qed

theorem sqlite_restart_witness:
  "\<exists>l. sqlite_load plain_codec None
      (publish_all (sqlite_publish plain_codec) [(None, ''prod'', sample_flag, 0, ''mona'', 7)] empty_database)
        = Inr l \<and> loaded_flag l ''prod'' ''checkout-v2'' = Some (stamp_flag 1 7 sample_flag)"
proof -
  have "acceptable (codec_storable plain_codec) [(None, ''prod'', sample_flag, 0, ''mona'', 7)]"
    by (simp add: acceptable_def sample_flag_wf sample_flag_valid plain_codec_storable)
  from sqlite_restart [OF this] obtain l where
    "sqlite_load plain_codec None
      (publish_all (sqlite_publish plain_codec) [(None, ''prod'', sample_flag, 0, ''mona'', 7)] empty_database)
        = Inr l"
    and "loaded_flag l ''prod'' ''checkout-v2'' = current_flag (sqlite_ledger plain_codec
      (publish_all (sqlite_publish plain_codec) [(None, ''prod'', sample_flag, 0, ''mona'', 7)] empty_database))
        ''prod'' ''checkout-v2''"
    by (auto simp: sqlite_open_def sqlite_prepare_def)
  moreover have "current_flag (sqlite_ledger plain_codec
      (publish_all (sqlite_publish plain_codec) [(None, ''prod'', sample_flag, 0, ''mona'', 7)] empty_database))
        ''prod'' ''checkout-v2'' = Some (stamp_flag 1 7 sample_flag)"
    by code_simp
  ultimately show ?thesis by auto
qed

end
