(* ===== verification/Flags_Appliance.thy ===== *)
theory Flags_Appliance
  imports Flags_Service Flags_Sqlite_Store
begin

text \<open>
  The composition \<^verbatim>\<open>cmd/reaper-flags\<close> serves: the policy service over the SQLite store and the
  in-memory projection. The contract of the service (the locale \<open>flag_service\<close>) is
  interpreted on it, and the properties below hold for any interleaving of concurrent calls and
  any failing database call.
\<close>

type_synonym ('b, 't) appliance = "(('b, 't) flags_database, memory_snapshot) service"
type_synonym ('b, 't) appliance_system = "(('b, 't) flags_database, memory_snapshot) system"

definition appliance_open ::
  "('b, 't) codec \<Rightarrow> db_io \<Rightarrow> ('b, 't) flags_database \<Rightarrow> flag_error + ('b, 't) appliance" where
  "appliance_open C io db = open_service (sqlite_load C) snapshot_replace io db new_memory"

definition appliance_publish ::
  "('b, 't) codec \<Rightarrow> db_io \<Rightarrow> string \<Rightarrow> flag \<Rightarrow> int \<Rightarrow> string \<Rightarrow> int \<Rightarrow> ('b, 't) appliance \<Rightarrow>
   ('b, 't) appliance \<times> (flag_error + flag)" where
  "appliance_publish C = service_publish (sqlite_publish C) snapshot_put"

definition appliance_audit ::
  "('b, 't) codec \<Rightarrow> db_io \<Rightarrow> int \<Rightarrow> ('b, 't) appliance \<Rightarrow> (flag_error + audit_entry list) option" where
  "appliance_audit C = service_audit (sqlite_audit C)"

definition appliance_evaluate ::
  "digest \<Rightarrow> string \<Rightarrow> string \<Rightarrow> evaluation_context \<Rightarrow> ('b, 't) appliance \<Rightarrow> flag_error + evaluation" where
  "appliance_evaluate = service_evaluate snapshot_get"

definition appliance_list :: "string \<Rightarrow> ('b, 't) appliance \<Rightarrow> flag_error + flag list" where
  "appliance_list = service_list snapshot_list"

definition appliance_reachable ::
  "('b, 't) codec \<Rightarrow> ('b, 't) appliance \<Rightarrow> ('b, 't) appliance_system \<Rightarrow> bool" where
  "appliance_reachable C = publish_reachable (sqlite_publish C) snapshot_put (codec_storable C)"

interpretation appliance: flag_service "sqlite_load C" "sqlite_publish C" "sqlite_audit C"
  "sqlite_ledger C" "sqlite_ok C" "codec_storable C"
  snapshot_replace snapshot_put snapshot_get snapshot_list wf_snapshot for C
  by unfold_locales

lemma appliance_coherent:
  "sqlite_ok C db \<Longrightarrow> appliance_open C io db = Inr s0 \<Longrightarrow> appliance_reachable C s0 s \<Longrightarrow>
     appliance.coherent C s"
  using appliance.reachable_coherent by (auto simp: appliance_open_def appliance_reachable_def)

lemma open_empty: "appliance_open C None empty_database = Inr \<lparr>svc_store = empty_database, svc_snapshot = []\<rparr>"
  by (simp add: appliance_open_def open_service_def sqlite_load_def empty_database_def snapshot_replace_def)

text \<open>A run of the system: one publication committed, then projected.\<close>

definition sample_start :: "(flag, int) appliance" where
  "sample_start = \<lparr>svc_store = empty_database, svc_snapshot = []\<rparr>"

definition sample_committed :: "(flag, int) appliance_system" where
  "sample_committed =
     \<lparr>svc_store = fst (sqlite_publish plain_codec None ''prod'' sample_flag 0 ''mona'' 7 empty_database),
      svc_snapshot = [], inflight = [(''prod'', stamp_flag 1 7 sample_flag)]\<rparr>"

definition sample_projected :: "(flag, int) appliance_system" where
  "sample_projected = sample_committed\<lparr>svc_snapshot := snapshot_put ''prod'' (stamp_flag 1 7 sample_flag) [],
     inflight := []\<rparr>"

lemma prod_valid: "valid_key ''prod''" and mona_actor: "\<not> blank ''mona''"
proof -
  have "valid_key ''mona''" by code_simp
  then show "\<not> blank ''mona''" by (rule valid_key_not_blank)
qed code_simp

lemma sample_committed_reachable: "appliance_reachable plain_codec sample_start sample_committed"
proof -
  let ?s = "\<lparr>svc_store = empty_database, svc_snapshot = [], inflight = []\<rparr> :: (flag, int) appliance_system"
  have chk: "publish_check ''prod'' sample_flag 0 ''mona'' = None"
    by (simp add: publish_check_None validate_environment_None prod_valid mona_actor sample_flag_valid)
  have pub: "sqlite_publish plain_codec None ''prod'' sample_flag 0 ''mona'' 7 empty_database
    = (fst (sqlite_publish plain_codec None ''prod'' sample_flag 0 ''mona'' 7 empty_database),
       Inr (stamp_flag 1 7 sample_flag))" by code_simp
  have "sample_committed = ?s\<lparr>svc_store :=
      fst (sqlite_publish plain_codec None ''prod'' sample_flag 0 ''mona'' 7 empty_database),
      inflight := [(''prod'', stamp_flag 1 7 sample_flag)]\<rparr>"
    by (simp add: sample_committed_def)
  with publish_step.commit [where storable = "codec_storable plain_codec",
        OF chk sample_flag_wf plain_codec_storable, where publish = "sqlite_publish plain_codec"
        and put = snapshot_put and io = None and t = 7 and s = ?s,
        simplified, OF pub]
  have "publish_step (sqlite_publish plain_codec) snapshot_put (codec_storable plain_codec) ?s sample_committed"
    by simp
  moreover have "publish_reachable (sqlite_publish plain_codec) snapshot_put (codec_storable plain_codec)
      sample_start ?s"
    using publish_reachable.start [where ?s0.0 = sample_start] by (simp add: sample_start_def)
  ultimately show ?thesis
    unfolding appliance_reachable_def by (rule publish_reachable.step [rotated])
qed

lemma sample_projected_reachable: "appliance_reachable plain_codec sample_start sample_projected"
proof -
  have "(''prod'', stamp_flag 1 7 sample_flag) \<in> set (inflight sample_committed)"
    by (simp add: sample_committed_def)
  from publish_step.project [OF this, of "sqlite_publish plain_codec" snapshot_put "codec_storable plain_codec"]
  have "publish_step (sqlite_publish plain_codec) snapshot_put (codec_storable plain_codec)
      sample_committed sample_projected"
    by (simp add: sample_projected_def sample_committed_def)
  then show ?thesis
    using publish_reachable.step sample_committed_reachable unfolding appliance_reachable_def by blast
qed

lemma open_sample: "appliance_open plain_codec None empty_database = Inr sample_start"
  by (simp add: open_empty sample_start_def)

text \<open>
  C10: the projection is exactly the durable state whenever no publication is in flight, in every
  state reachable from a start on any well-formed database, under any interleaving of concurrent
  publications (their commits and their projections), refusals and failing database calls, for
  every key whose revision counter has not left the \<^verbatim>\<open>int64\<close> range.
\<close>

theorem appliance_quiescent:
  assumes "sqlite_ok C db" and "appliance_open C io db = Inr s0" and "appliance_reachable C s0 s"
    and "inflight s = []" and "0 \<le> current_revision (sqlite_ledger C (svc_store s)) e k"
  shows "snapshot_get (svc_snapshot s) e k = current_flag (sqlite_ledger C (svc_store s)) e k"
  using appliance.coherent_quiescent [OF appliance_coherent [OF assms(1-3)] assms(4), of e k] assms(5)
  by (auto simp: current_revision_def split: option.splits)

theorem appliance_quiescent_witness:
  "snapshot_get (svc_snapshot sample_projected) ''prod'' ''checkout-v2'' = Some (stamp_flag 1 7 sample_flag)"
proof -
  have cur: "current_flag (sqlite_ledger plain_codec (svc_store sample_projected)) ''prod'' ''checkout-v2''
      = Some (stamp_flag 1 7 sample_flag)" by code_simp
  from appliance_quiescent [OF empty_database_ok open_sample
      sample_projected_reachable, of "''prod''" "''checkout-v2''"] cur
  show ?thesis by (simp add: sample_projected_def current_revision_def)
qed

text \<open>
  C11: evaluation is safe while publications are in flight. In every reachable state an evaluation
  either fails with \<^verbatim>\<open>ErrInvalid\<close> or with \<^verbatim>\<open>ErrNotFound\<close> for the key, or returns a value of the
  kind of a valid definition of that key which is no newer than the durable one.
\<close>

theorem appliance_evaluation_safe:
  assumes "sqlite_ok C db" and "appliance_open C io db = Inr s0" and "appliance_reachable C s0 s"
  shows "case service_evaluate snapshot_get sha256 e k ctx
      \<lparr>svc_store = svc_store s, svc_snapshot = svc_snapshot s\<rparr> of
    Inl err \<Rightarrow> (\<exists>d. err = ErrInvalid d) \<or> err = ErrNotFound k
  | Inr r \<Rightarrow> \<exists>f v h. valid_flag f \<and> flag_key f = k \<and> eval_key r = k \<and> eval_revision r = flag_revision f \<and>
      eval_value r = Some v \<and> has_kind (flag_kind f) v \<and>
      current_flag (sqlite_ledger C (svc_store s)) e k = Some h \<and>
      (flag_revision h < 0 \<or> flag_revision f \<le> flag_revision h)"
proof -
  have coh: "appliance.coherent C s" by (rule appliance_coherent [OF assms])
  have inv: "\<exists>d. err = ErrInvalid d" if "validate_environment e = Some err" for err
    using validate_environment_invalid [of e] that by (simp add: invalid_error_def)
  show ?thesis
  proof (cases "validate_environment e = None \<and> snapshot_get (svc_snapshot s) e k \<noteq> None")
    case False
    then show ?thesis using inv
      by (cases "validate_environment e") (auto simp: service_evaluate_def)
  next
    case True
    then obtain f where f: "snapshot_get (svc_snapshot s) e k = Some f" by blast
    then have vis: "f \<in> appliance.visible s e k" by (simp add: appliance.visible_def)
    then have valid: "valid_flag f" using coh unfolding appliance.coherent_def by blast
    have "wf_snapshot (svc_snapshot s)" using coh by (simp add: appliance.coherent_def)
    with f have key: "flag_key f = k" using mem.get_wf by blast
    obtain h where h: "current_flag (sqlite_ledger C (svc_store s)) e k = Some h"
      "flag_revision h < 0 \<or> flag_revision f \<le> flag_revision h"
      using appliance.coherent_key [OF coh, of e k] vis
      by (auto simp: appliance.key_coherent_def split: option.splits)
    show ?thesis
    proof (cases "evaluate sha256 f ctx")
      case (Inl err)
      with True f show ?thesis by (auto simp: service_evaluate_def evaluate_definition_def dest: evaluate_error [THEN iffD1])
    next
      case (Inr r)
      have "r = resolve f (eval_variant r) (eval_reason r)" "eval_variant r \<in> variant_names f"
        using evaluate_variant [OF valid Inr] by auto
      then obtain v where "eval_value r = Some v" "has_kind (flag_kind f) v" "eval_key r = k"
        "eval_revision r = flag_revision f"
        using variant_defined [OF valid, of "eval_variant r"] key
        by (metis resolve_def evaluation.select_convs(1,2,5))
      with True f h valid key Inr show ?thesis
        by (auto simp: service_evaluate_def evaluate_definition_def)
    qed
  qed
qed

theorem appliance_evaluation_safe_witness:
  "\<exists>r. service_evaluate snapshot_get sample_digest ''prod'' ''checkout-v2'' sample_context
     \<lparr>svc_store = svc_store sample_projected, svc_snapshot = svc_snapshot sample_projected\<rparr> = Inr r \<and>
   eval_revision r = 1"
proof -
  have val: "service_evaluate snapshot_get sample_digest ''prod'' ''checkout-v2'' sample_context
     \<lparr>svc_store = svc_store sample_projected, svc_snapshot = svc_snapshot sample_projected\<rparr>
     = Inr (resolve (stamp_flag 1 7 sample_flag) ''on'' ''SPLIT'')"
  proof -
    have "snapshot_get (svc_snapshot sample_projected) ''prod'' ''checkout-v2'' = Some (stamp_flag 1 7 sample_flag)"
      and "evaluate sample_digest (stamp_flag 1 7 sample_flag) sample_context
        = Inr (resolve (stamp_flag 1 7 sample_flag) ''on'' ''SPLIT'')"
      by code_simp+
    moreover have "validate_environment ''prod'' = None" by (simp add: validate_environment_None prod_valid)
    ultimately show ?thesis by (simp add: service_evaluate_def evaluate_definition_def)
  qed
  from appliance_evaluation_safe [OF empty_database_ok open_sample
      sample_projected_reachable, where ?sha256.0 = sample_digest
      and e = "''prod''" and k = "''checkout-v2''" and ctx = sample_context]
  show ?thesis unfolding val by (auto simp: resolve_def)
qed

text \<open>
  reading the audit never panics and never returns more than was asked for: whatever limit a
  request carries (zero, negative, huge), the store is asked for between 1 and 500 entries, and a
  successful answer is the latest publications of the ledger, newest first.
\<close>

theorem appliance_audit_bounded:
  assumes "sqlite_ok C (svc_store s)"
  shows "\<exists>r. appliance_audit C io limit s = Some r \<and>
    (case r of Inl e \<Rightarrow> \<exists>m. e = Internal m
     | Inr es \<Rightarrow> length es \<le> 500 \<and>
         es = take (nat (audit_limit limit)) (rev (publications (sqlite_ledger C (svc_store s)))))"
proof -
  have range: "0 \<le> audit_limit limit" "audit_limit limit \<le> 500" using audit_limit_range [of limit] by linarith+
  obtain r where r: "sqlite_audit C io (audit_limit limit) (svc_store s) = Some r"
    using sq.audit_returns [OF assms range] by blast
  have "\<exists>m. e = Internal m" if "r = Inl e" for e
    using r that sqlite_audit_error by blast
  moreover have "es = take (nat (audit_limit limit)) (rev (publications (sqlite_ledger C (svc_store s))))"
    if "r = Inr es" for es
    using sq.audit_Inr [OF assms] r that by blast
  moreover from this have "length es \<le> 500" if "r = Inr es" for es
    using that range by (auto simp: min_def)
  ultimately show ?thesis
    using r by (auto simp: appliance_audit_def service_audit_def split: sum.split)
qed

theorem appliance_audit_bounded_witness:
  "\<exists>es. appliance_audit plain_codec None (-5) \<lparr>svc_store = svc_store sample_projected, svc_snapshot = []\<rparr>
     = Some (Inr es) \<and> length es \<le> 500 \<and> map audit_revision es = [1]"
proof -
  have ok: "sqlite_ok plain_codec (svc_store sample_projected)"
    using sqlite_publish_ok [OF empty_database_ok sample_flag_wf sample_flag_valid plain_codec_storable]
    by (simp add: sample_projected_def sample_committed_def)
  have "appliance_audit plain_codec None (-5) \<lparr>svc_store = svc_store sample_projected, svc_snapshot = []\<rparr>
    = Some (Inr [\<lparr>audit_sequence = 1, audit_environment = ''prod'', audit_key = ''checkout-v2'',
        audit_revision = 1, audit_actor = ''mona'', audit_action = ''published'', audit_occurred_at = 7\<rparr>])"
    by code_simp
  then obtain es0 where val: "appliance_audit plain_codec None (-5)
      \<lparr>svc_store = svc_store sample_projected, svc_snapshot = []\<rparr> = Some (Inr es0)"
    "map audit_revision es0 = [1]" by simp
  let ?s = "\<lparr>svc_store = svc_store sample_projected, svc_snapshot = []\<rparr>"
  have "sqlite_ok plain_codec (svc_store ?s)" using ok by simp
  note bounded = appliance_audit_bounded [OF this, of None "-5"]
  show ?thesis
  proof (rule exE [OF bounded])
    fix r
    assume "appliance_audit plain_codec None (-5) ?s = Some r \<and>
      (case r of Inl e \<Rightarrow> \<exists>m. e = Internal m
       | Inr es \<Rightarrow> length es \<le> 500 \<and>
           es = take (nat (audit_limit (-5))) (rev (publications (sqlite_ledger plain_codec (svc_store ?s)))))"
    with val show ?thesis by (auto simp del: length_take)
  qed
qed

end
