(* ===== verification/Go_Http.thy ===== *)
theory Go_Http
  imports Go_Prelude
begin

text \<open>
  What the HTTP surfaces share: the comparison of credentials, bodies that hold one JSON value, and
  the router of the standard library. \<^verbatim>\<open>http.ServeMux\<close> is a table of methods and patterns, where
  \<^verbatim>\<open>{name}\<close> stands for one non-empty segment, \<^verbatim>\<open>GET\<close> also serves \<^verbatim>\<open>HEAD\<close>, and a path that only other
  methods serve is answered 405. A decoder of \<^verbatim>\<open>encoding/json\<close> is an argument: it yields the first
  value of a body and what is left of it.
\<close>

section \<open>Credentials\<close>

definition secure_equal :: "string \<Rightarrow> string \<Rightarrow> bool" where
  "secure_equal left right =
     (if length left \<noteq> length right then False else constant_time_diff left right = 0)"

lemma secure_equal_iff [simp]: "secure_equal l r \<longleftrightarrow> l = r"
  by (auto simp: secure_equal_def constant_time_diff_zero)

section \<open>Bodies\<close>

definition json_space :: "char \<Rightarrow> bool" where
  "json_space c \<longleftrightarrow> byte c \<in> {9, 10, 13, 32}"

text \<open>
  One JSON value within the limit, then only white space: a second value, a syntax error and a
  body beyond the limit all fail the second \<^verbatim>\<open>Decode\<close>, which has to see \<^verbatim>\<open>io.EOF\<close>.
\<close>

definition strict_json :: "nat \<Rightarrow> (string \<Rightarrow> ('a \<times> string) option) \<Rightarrow> string \<Rightarrow> 'a option" where
  "strict_json limit read body =
     (if length body > limit then None
      else case read body of
             None \<Rightarrow> None
           | Some (v, rest) \<Rightarrow> if list_all json_space rest then Some v else None)"

section \<open>Routing\<close>

datatype segment_pattern = Lit string | Wild

fun match_segments :: "segment_pattern list \<Rightarrow> string list \<Rightarrow> string list option" where
  "match_segments [] [] = Some []"
| "match_segments (Lit l # ps) (x # xs) = (if x = l then match_segments ps xs else None)"
| "match_segments (Wild # ps) (x # xs) =
     (if x = [] then None else map_option ((#) x) (match_segments ps xs))"
| "match_segments _ _ = None"

datatype 'h routed = Routed 'h "string list" | MethodNotAllowed | NoRoute

definition serves :: "string \<Rightarrow> string \<Rightarrow> bool" where
  "serves pattern_method requested \<longleftrightarrow>
     pattern_method = requested \<or> (pattern_method = ''GET'' \<and> requested = ''HEAD'')"

fun route_in ::
  "(string \<times> segment_pattern list \<times> 'h) list \<Rightarrow> bool \<Rightarrow> string \<Rightarrow> string list \<Rightarrow> 'h routed" where
  "route_in [] path_known requested xs = (if path_known then MethodNotAllowed else NoRoute)"
| "route_in ((m, ps, h) # rs) path_known requested xs =
     (case match_segments ps xs of
        None \<Rightarrow> route_in rs path_known requested xs
      | Some vals \<Rightarrow> if serves m requested then Routed h vals else route_in rs True requested xs)"

lemma match_segments_Nil [simp]: "match_segments [] xs = Some vals \<longleftrightarrow> xs = [] \<and> vals = []"
  by (cases xs) auto

lemma match_segments_Lit [simp]:
  "match_segments (Lit l # ps) xs = Some vals \<longleftrightarrow> (\<exists>ys. xs = l # ys \<and> match_segments ps ys = Some vals)"
  by (cases xs) auto

lemma match_segments_Wild [simp]:
  "match_segments (Wild # ps) xs = Some vals \<longleftrightarrow>
     (\<exists>x ys vs. x \<noteq> [] \<and> xs = x # ys \<and> vals = x # vs \<and> match_segments ps ys = Some vs)"
  by (cases xs) auto

lemma route_in_mem:
  "route_in rs b m xs = Routed h vals \<Longrightarrow>
     \<exists>pm ps. (pm, ps, h) \<in> set rs \<and> serves pm m \<and> match_segments ps xs = Some vals"
  by (induction rs b m xs rule: route_in.induct) (auto split: option.splits if_splits)

end
