(* ===== verification/Flags_Api.thy ===== *)
theory Flags_Api
  imports Flags_Appliance Go_Http
begin

text \<open>
  The HTTP surface of the appliance (\<^verbatim>\<open>internal/api\<close>) and its start (\<^verbatim>\<open>cmd/reaper-flags\<close>). A
  request is what the handlers read of it; its path is the cleaned path split at \<^verbatim>\<open>/\<close>. The
  router is \<^verbatim>\<open>http.ServeMux\<close>: a table of methods and patterns, where \<^verbatim>\<open>{name}\<close> stands for one
  non-empty segment, \<^verbatim>\<open>GET\<close> also serves \<^verbatim>\<open>HEAD\<close>, and a path that only other methods serve is
  answered 405. The decoders of \<^verbatim>\<open>encoding/json\<close> are a parameter: each yields the first value of
  a body and what is left of it.
\<close>

record http_request =
  req_method :: string
  req_segments :: "string list"
  req_authorization :: string
  req_if_none_match :: string
  req_limit :: string
  req_body :: string

datatype error_text =
    TextUnauthorized | TextDecode | TextKeysDiffer | TextLimit | TextReadAudit | TextInternal
  | TextTargetingRequired | TextTargetingString | TextFlag flag_error

record ofrep_failure =
  failure_key :: string
  failure_code :: string
  failure_details :: error_text

datatype response_body =
    BodyHealth
  | BodyError error_text
  | BodyFlag flag
  | BodyFlags "flag list"
  | BodyAudit "audit_entry list"
  | BodyEvaluation evaluation
  | BodyFailure ofrep_failure
  | BodyDetails error_text
  | BodyBulk "(ofrep_failure + evaluation) list" string
  | BodyEmpty

record http_response =
  resp_status :: int
  resp_etag :: "string option"
  resp_body :: response_body

record api_server =
  admin_token :: string
  admin_actor :: string
  evaluation_token :: string

record api_json =
  read_publish :: "string \<Rightarrow> ((int \<times> flag) \<times> string) option"
  read_evaluation :: "string \<Rightarrow> (evaluation_context \<times> string) option"
  marshal_context :: "evaluation_context \<Rightarrow> string option"

section \<open>Construction\<close>

datatype server_error =
    AdminTokenRequired | AdminActorRequired | EvaluationTokenRequired | TokensMustDiffer

definition new_server :: "string \<Rightarrow> string \<Rightarrow> string \<Rightarrow> server_error + api_server" where
  "new_server at aa et =
     (if blank at then Inl AdminTokenRequired
      else if blank aa then Inl AdminActorRequired
      else if blank et then Inl EvaluationTokenRequired
      else if secure_equal at et then Inl TokensMustDiffer
      else Inr \<lparr>admin_token = at, admin_actor = aa, evaluation_token = et\<rparr>)"

section \<open>Responses\<close>

definition write_json :: "int \<Rightarrow> response_body \<Rightarrow> http_response" where
  "write_json status body =
     \<lparr>resp_status = status, resp_etag = None,
      resp_body = (if status = 204 \<or> status = 304 then BodyEmpty else body)\<rparr>"

definition health :: http_response where
  "health = write_json 200 BodyHealth"

definition write_flag_error :: "flag_error \<Rightarrow> http_response" where
  "write_flag_error e =
     (case e of
        ErrInvalid _ \<Rightarrow> write_json 400 (BodyError (TextFlag e))
      | ErrConflict _ _ \<Rightarrow> write_json 409 (BodyError (TextFlag e))
      | ErrNotFound _ \<Rightarrow> write_json 404 (BodyError (TextFlag e))
      | Internal _ \<Rightarrow> write_json 500 (BodyError TextInternal))"

definition new_failure :: "string \<Rightarrow> string \<Rightarrow> error_text \<Rightarrow> ofrep_failure" where
  "new_failure key code details =
     \<lparr>failure_key = key, failure_code = code, failure_details = details\<rparr>"

definition write_evaluation_error :: "string \<Rightarrow> flag_error \<Rightarrow> http_response" where
  "write_evaluation_error key e =
     (case e of
        ErrNotFound _ \<Rightarrow> write_json 404 (BodyFailure (new_failure key ''FLAG_NOT_FOUND'' (TextFlag e)))
      | ErrInvalid _ \<Rightarrow> write_json 400 (BodyFailure (new_failure key ''INVALID_CONTEXT'' (TextFlag e)))
      | _ \<Rightarrow> write_json 500 (BodyDetails TextInternal))"

definition unauthorized :: http_response where
  "unauthorized = write_json 401 (BodyError TextUnauthorized)"

definition bearer_accepts :: "string \<Rightarrow> http_request \<Rightarrow> bool" where
  "bearer_accepts token req =
     (let header = req_authorization req in
      if \<not> has_prefix header ''Bearer '' then False
      else secure_equal (trim_prefix header ''Bearer '') token)"

definition authorize ::
  "string \<Rightarrow> http_request \<Rightarrow> ('s \<Rightarrow> ('s \<times> http_response) option) \<Rightarrow> 's \<Rightarrow> ('s \<times> http_response) option" where
  "authorize token req next s = (if bearer_accepts token req then next s else Some (s, unauthorized))"

lemma bearer_accepts_iff: "bearer_accepts token req \<longleftrightarrow> req_authorization req = ''Bearer '' @ token"
proof
  assume acc: "bearer_accepts token req"
  then have "has_prefix (req_authorization req) ''Bearer ''"
    by (auto simp: bearer_accepts_def Let_def split: if_splits)
  then obtain t where "req_authorization req = ''Bearer '' @ t" "trim_prefix (req_authorization req) ''Bearer '' = t"
    by (rule has_prefixE)
  with acc show "req_authorization req = ''Bearer '' @ token"
    by (auto simp: bearer_accepts_def Let_def split: if_splits)
next
  have "has_prefix (''Bearer '' @ token) ''Bearer ''" by (simp add: has_prefix_def)
  moreover have "trim_prefix (''Bearer '' @ token) ''Bearer '' = token" by (rule trim_prefix_append)
  moreover assume "req_authorization req = ''Bearer '' @ token"
  ultimately show "bearer_accepts token req" by (simp add: bearer_accepts_def)
qed

section \<open>Decoding bodies\<close>

definition max_request_bytes :: nat where
  "max_request_bytes = 1048576"

definition decode_json :: "(string \<Rightarrow> ('a \<times> string) option) \<Rightarrow> string \<Rightarrow> 'a option" where
  "decode_json read body = strict_json max_request_bytes read body"

section \<open>Management handlers\<close>

definition api_publish ::
  "('b, 't) codec \<Rightarrow> api_json \<Rightarrow> api_server \<Rightarrow> db_io \<Rightarrow> int \<Rightarrow> http_request \<Rightarrow> string \<Rightarrow> string \<Rightarrow>
   ('b, 't) appliance \<Rightarrow> ('b, 't) appliance \<times> http_response" where
  "api_publish C J srv io now req environment key s =
     (case decode_json (read_publish J) (req_body req) of
        None \<Rightarrow> (s, write_json 400 (BodyError TextDecode))
      | Some (expected, f) \<Rightarrow>
        if flag_key f \<noteq> [] \<and> flag_key f \<noteq> key then (s, write_json 400 (BodyError TextKeysDiffer))
        else
          (case appliance_publish C io environment (f\<lparr>flag_key := key\<rparr>) expected (admin_actor srv) now s of
             (s', Inl e) \<Rightarrow> (s', write_flag_error e)
           | (s', Inr published) \<Rightarrow> (s', write_json 200 (BodyFlag published))))"

definition api_list :: "string \<Rightarrow> ('b, 't) appliance \<Rightarrow> http_response" where
  "api_list environment s =
     (case appliance_list environment s of
        Inl e \<Rightarrow> write_flag_error e
      | Inr listed \<Rightarrow> write_json 200 (BodyFlags listed))"

definition api_audit ::
  "('b, 't) codec \<Rightarrow> db_io \<Rightarrow> http_request \<Rightarrow> ('b, 't) appliance \<Rightarrow> http_response option" where
  "api_audit C io req s =
     (let raw = req_limit req in
      case (if raw \<noteq> [] then atoi raw else Some 100) of
        None \<Rightarrow> Some (write_json 400 (BodyError TextLimit))
      | Some limit \<Rightarrow>
        (case appliance_audit C io limit s of
           None \<Rightarrow> None
         | Some (Inl _) \<Rightarrow> Some (write_json 500 (BodyError TextReadAudit))
         | Some (Inr entries) \<Rightarrow> Some (write_json 200 (BodyAudit entries))))"

section \<open>Evaluation handlers\<close>

definition read_evaluation_request ::
  "api_json \<Rightarrow> http_request \<Rightarrow> string \<Rightarrow> http_response + evaluation_context" where
  "read_evaluation_request J req key =
     (case decode_json (read_evaluation J) (req_body req) of
        None \<Rightarrow> Inl (write_json 400 (BodyFailure (new_failure key ''INVALID_CONTEXT'' TextDecode)))
      | Some ctx \<Rightarrow>
        (case map_get ctx ''targetingKey'' of
           None \<Rightarrow> Inl (write_json 400
             (BodyFailure (new_failure key ''TARGETING_KEY_MISSING'' TextTargetingRequired)))
         | Some targeting_key \<Rightarrow>
           (case targeting_key of
              JString value \<Rightarrow>
                if value = [] then Inl (write_json 400
                  (BodyFailure (new_failure key ''INVALID_CONTEXT'' TextTargetingString)))
                else Inr ctx
            | _ \<Rightarrow> Inl (write_json 400
                (BodyFailure (new_failure key ''INVALID_CONTEXT'' TextTargetingString))))))"

definition api_evaluate ::
  "api_json \<Rightarrow> digest \<Rightarrow> http_request \<Rightarrow> string \<Rightarrow> string \<Rightarrow> ('b, 't) appliance \<Rightarrow> http_response" where
  "api_evaluate J sha256 req environment key s =
     (case read_evaluation_request J req key of
        Inl resp \<Rightarrow> resp
      | Inr ctx \<Rightarrow>
        (case appliance_evaluate sha256 environment key ctx s of
           Inl e \<Rightarrow> write_evaluation_error key e
         | Inr evaluated \<Rightarrow> write_json 200 (BodyEvaluation evaluated)))"

text \<open>\<^verbatim>\<open>fmt.Fprintf(hash, "%s:%d\x00", flag.Key, flag.Revision)\<close>, then the encoded context.\<close>

definition etag_entry :: "flag \<Rightarrow> string" where
  "etag_entry f = flag_key f @ '':'' @ itoa (flag_revision f) @ [CHR 0x00]"

definition etag_input :: "api_json \<Rightarrow> flag list \<Rightarrow> evaluation_context \<Rightarrow> string option" where
  "etag_input J listed ctx =
     (case marshal_context J ctx of
        None \<Rightarrow> None
      | Some encoded \<Rightarrow> Some (concat (map etag_entry listed) @ encoded))"

definition evaluation_etag ::
  "api_json \<Rightarrow> digest \<Rightarrow> flag list \<Rightarrow> evaluation_context \<Rightarrow> string option" where
  "evaluation_etag J sha256 listed ctx =
     (case etag_input J listed ctx of
        None \<Rightarrow> None
      | Some input \<Rightarrow> Some ([CHR 0x22] @ hex_encode (sha256 input) @ [CHR 0x22]))"

definition evaluate_each ::
  "digest \<Rightarrow> evaluation_context \<Rightarrow> flag list \<Rightarrow> (ofrep_failure + evaluation) list" where
  "evaluate_each sha256 ctx listed =
     map (\<lambda>f. case evaluate_definition sha256 f ctx of
                Inl e \<Rightarrow> Inl (new_failure (flag_key f) ''GENERAL'' (TextFlag e))
              | Inr r \<Rightarrow> Inr r) listed"

definition trim_quotes :: "string \<Rightarrow> string" where
  "trim_quotes s =
     rev (dropWhile (\<lambda>c. c = CHR 0x22) (rev (dropWhile (\<lambda>c. c = CHR 0x22) s)))"

definition api_evaluate_all ::
  "api_json \<Rightarrow> digest \<Rightarrow> http_request \<Rightarrow> string \<Rightarrow> ('b, 't) appliance \<Rightarrow> http_response" where
  "api_evaluate_all J sha256 req environment s =
     (case read_evaluation_request J req [] of
        Inl resp \<Rightarrow> resp
      | Inr ctx \<Rightarrow>
        (case appliance_list environment s of
           Inl e \<Rightarrow> write_evaluation_error [] e
         | Inr listed \<Rightarrow>
           (case evaluation_etag J sha256 listed ctx of
              None \<Rightarrow> write_json 500 (BodyDetails TextInternal)
            | Some etag \<Rightarrow>
              if req_if_none_match req = etag then (write_json 304 BodyEmpty)\<lparr>resp_etag := Some etag\<rparr>
              else (write_json 200 (BodyBulk (evaluate_each sha256 ctx listed) (trim_quotes etag)))
                \<lparr>resp_etag := Some etag\<rparr>)))"

section \<open>Routing\<close>

datatype handler = Health | Publish | ListFlags | Audit | EvaluateFlag | EvaluateAll

definition flag_routes :: "(string \<times> segment_pattern list \<times> handler) list" where
  "flag_routes =
     [(''GET'', [Lit ''healthz''], Health),
      (''PUT'', [Lit ''v1'', Lit ''environments'', Wild, Lit ''flags'', Wild], Publish),
      (''GET'', [Lit ''v1'', Lit ''environments'', Wild, Lit ''flags''], ListFlags),
      (''GET'', [Lit ''v1'', Lit ''audit''], Audit),
      (''POST'', [Lit ''environments'', Wild, Lit ''ofrep'', Lit ''v1'', Lit ''evaluate'', Lit ''flags'', Wild],
        EvaluateFlag),
      (''POST'', [Lit ''environments'', Wild, Lit ''ofrep'', Lit ''v1'', Lit ''evaluate'', Lit ''flags''],
        EvaluateAll)]"

definition handle ::
  "('b, 't) codec \<Rightarrow> api_json \<Rightarrow> digest \<Rightarrow> api_server \<Rightarrow> db_io \<Rightarrow> int \<Rightarrow> http_request \<Rightarrow>
   ('b, 't) appliance \<Rightarrow> (('b, 't) appliance \<times> http_response) option" where
  "handle C J sha256 srv io now req s =
     (case route_in flag_routes False (req_method req) (req_segments req) of
        NoRoute \<Rightarrow> Some (s, write_json 404 BodyEmpty)
      | MethodNotAllowed \<Rightarrow> Some (s, write_json 405 BodyEmpty)
      | Routed h vals \<Rightarrow>
        (case h of
           Health \<Rightarrow> Some (s, health)
         | Publish \<Rightarrow> authorize (admin_token srv) req
             (\<lambda>s. Some (api_publish C J srv io now req (vals ! 0) (vals ! 1) s)) s
         | ListFlags \<Rightarrow> authorize (admin_token srv) req (\<lambda>s. Some (s, api_list (vals ! 0) s)) s
         | Audit \<Rightarrow> authorize (admin_token srv) req (\<lambda>s. map_option (Pair s) (api_audit C io req s)) s
         | EvaluateFlag \<Rightarrow> authorize (evaluation_token srv) req
             (\<lambda>s. Some (s, api_evaluate J sha256 req (vals ! 0) (vals ! 1) s)) s
         | EvaluateAll \<Rightarrow> authorize (evaluation_token srv) req
             (\<lambda>s. Some (s, api_evaluate_all J sha256 req (vals ! 0) s)) s))"

section \<open>Starting the process\<close>

datatype start_error = EnvironmentMissing | DirectoryFailed | StartFlag flag_error | StartServer server_error

text \<open>
  \<^verbatim>\<open>run\<close>, up to the first request: the address and the server. The files of the machine are the
  argument \<open>file\<close>, from a path to the database on it.
\<close>

definition start_flags ::
  "('b, 't) codec \<Rightarrow> (string \<Rightarrow> string) \<Rightarrow> (string \<Rightarrow> bool) \<Rightarrow> db_io \<Rightarrow>
   (string \<Rightarrow> ('b, 't) flags_database option) \<Rightarrow>
   start_error + (string \<times> api_server \<times> ('b, 't) appliance)" where
  "start_flags C getenv mkdir io file =
     (let at = getenv ''REAPER_ADMIN_TOKEN''; aa = getenv ''REAPER_ADMIN_ACTOR'';
          et = getenv ''REAPER_EVALUATION_TOKEN'' in
      if at = [] \<or> aa = [] \<or> et = [] then Inl EnvironmentMissing
      else let path = env_or getenv ''REAPER_DB'' ''.reaper/flags.db'' in
      if \<not> mkdir path then Inl DirectoryFailed
      else case sqlite_open io (file path) of
        Inl e \<Rightarrow> Inl (StartFlag e)
      | Inr db \<Rightarrow>
        (case appliance_open C io db of
           Inl e \<Rightarrow> Inl (StartFlag e)
         | Inr s \<Rightarrow>
           (case new_server at aa et of
              Inl e \<Rightarrow> Inl (StartServer e)
            | Inr srv \<Rightarrow> Inr (env_or getenv ''REAPER_ADDR'' '':8080'', srv, s))))"

text \<open>
  How \<^verbatim>\<open>run\<close> ends once it serves: by a signal, with what the server's shutdown returns, or with the
  error of the listener, of which \<^verbatim>\<open>http.ErrServerClosed\<close> is none.
\<close>

definition end_flags :: "('e \<Rightarrow> bool) \<Rightarrow> 'e option + 'e \<Rightarrow> 'e option" where
  "end_flags server_closed ending =
     (case ending of Inl stopped \<Rightarrow> stopped | Inr e \<Rightarrow> if server_closed e then None else Some e)"

lemma new_server_Inr:
  "new_server at aa et = Inr srv \<longleftrightarrow>
     \<not> blank at \<and> \<not> blank aa \<and> \<not> blank et \<and> at \<noteq> et \<and>
     srv = \<lparr>admin_token = at, admin_actor = aa, evaluation_token = et\<rparr>"
  by (auto simp: new_server_def)

section \<open>Which request reaches which handler\<close>

lemma route_publish:
  "route_in flag_routes False m xs = Routed Publish vals \<Longrightarrow>
     m = ''PUT'' \<and> (\<exists>e k. e \<noteq> [] \<and> k \<noteq> [] \<and> vals = [e, k] \<and>
       xs = [''v1'', ''environments'', e, ''flags'', k])"
  by (drule route_in_mem) (auto simp: flag_routes_def serves_def)

lemma authorize_Some:
  "authorize token req next s = Some (s', resp) \<longleftrightarrow>
     (if req_authorization req = ''Bearer '' @ token then next s = Some (s', resp)
      else s' = s \<and> resp = unauthorized)"
  by (auto simp: authorize_def bearer_accepts_iff)

definition management_handler :: "handler \<Rightarrow> bool" where
  "management_handler h \<longleftrightarrow> h \<in> {Publish, ListFlags, Audit}"

definition evaluation_handler :: "handler \<Rightarrow> bool" where
  "evaluation_handler h \<longleftrightarrow> h \<in> {EvaluateFlag, EvaluateAll}"

text \<open>
  C12: the two credentials are separate authorities. For a server that \<^verbatim>\<open>New\<close> accepted, a request
  that changes anything is a \<^verbatim>\<open>PUT\<close> of one flag carrying the admin token, which is not the
  evaluation token; a management route answers 401 and leaves the state alone for every other
  \<^verbatim>\<open>Authorization\<close> header, and an evaluation route does for everything but the evaluation token.
\<close>

theorem admin_boundary:
  assumes "new_server at aa et = Inr srv" and "handle C J sha256 srv io now req s = Some (s', resp)"
  shows "(s' \<noteq> s \<longrightarrow> req_method req = ''PUT'' \<and> req_authorization req = ''Bearer '' @ at \<and>
      req_authorization req \<noteq> ''Bearer '' @ et) \<and>
    (\<forall>h vals. route_in flag_routes False (req_method req) (req_segments req) = Routed h vals \<longrightarrow>
      (management_handler h \<and> req_authorization req \<noteq> ''Bearer '' @ at \<or>
       evaluation_handler h \<and> req_authorization req \<noteq> ''Bearer '' @ et) \<longrightarrow>
      s' = s \<and> resp = unauthorized)"
proof -
  have srv: "admin_token srv = at" "evaluation_token srv = et" "at \<noteq> et"
    using assms(1) by (auto simp: new_server_Inr)
  show ?thesis
  proof (cases "route_in flag_routes False (req_method req) (req_segments req)")
    case (Routed h vals)
    with route_publish [of "req_method req" "req_segments req" vals] srv assms(2) show ?thesis
      by (cases h) (auto simp: handle_def authorize_Some management_handler_def evaluation_handler_def
          split: if_splits)
  qed (use assms(2) in \<open>auto simp: handle_def\<close>)
qed

definition sample_json :: api_json where
  "sample_json = \<lparr>read_publish = (\<lambda>s. if s = [] then None else Some ((0, sample_flag), [])),
     read_evaluation = (\<lambda>s. if s = [] then None else Some (sample_context, [])),
     marshal_context = (\<lambda>_. Some ''{}'')\<rparr>"

definition sample_server :: api_server where
  "sample_server = \<lparr>admin_token = ''admin'', admin_actor = ''mona'', evaluation_token = ''eval''\<rparr>"

definition sample_put :: "string \<Rightarrow> http_request" where
  "sample_put token = \<lparr>req_method = ''PUT'',
     req_segments = [''v1'', ''environments'', ''prod'', ''flags'', ''checkout-v2''],
     req_authorization = ''Bearer '' @ token, req_if_none_match = [], req_limit = [], req_body = ''x''\<rparr>"

lemma sample_server_new: "new_server ''admin'' ''mona'' ''eval'' = Inr sample_server"
proof -
  have "valid_key ''admin''" "valid_key ''mona''" "valid_key ''eval''" by code_simp+
  then show ?thesis by (simp add: new_server_Inr valid_key_not_blank sample_server_def)
qed

lemma sample_put_route: "route_in flag_routes False ''PUT''
    [''v1'', ''environments'', ''prod'', ''flags'', ''checkout-v2''] = Routed Publish [''prod'', ''checkout-v2'']"
  by code_simp

theorem admin_boundary_witness:
  "handle plain_codec sample_json sample_digest sample_server None 7 (sample_put ''eval'') sample_start
     = Some (sample_start, unauthorized)"
proof -
  obtain s' resp where h: "handle plain_codec sample_json sample_digest sample_server None 7
      (sample_put ''eval'') sample_start = Some (s', resp)"
    by (simp add: handle_def sample_put_def sample_put_route authorize_def)
       (metis surj_pair)
  from admin_boundary [OF sample_server_new h] sample_put_route show ?thesis
    unfolding h by (auto simp: sample_put_def management_handler_def)
qed

section \<open>What the status of a publication says\<close>

lemma publish_check_invalid: "publish_check e f x a = Some err \<Longrightarrow> \<exists>d. err = ErrInvalid d"
proof -
  have "invalid_error (publish_check e f x a)" unfolding publish_check_def by auto
  then show "publish_check e f x a = Some err \<Longrightarrow> \<exists>d. err = ErrInvalid d" by (simp add: invalid_error_def)
qed

text \<open>
  C13: the status of a publication is the truth about it. For a decoded request in a well-formed
  appliance, 200 carries the definition the ledger step committed, which then is the durable one;
  409 means the expected revision was not the stored one; every other answer is 400 or 500; and
  nothing durable or projected has changed unless the answer is 200, whatever database call fails.
\<close>

theorem api_publish_status:
  assumes "sqlite_ok C (svc_store s)" and "decode_json (read_publish J) (req_body req) = Some (x, f)"
    and "wf_flag f" and "codec_storable C (f\<lparr>flag_key := k\<rparr>)"
    and "api_publish C J srv io now req e k s = (s', resp)"
  shows "(resp_status resp = 200 \<and> (\<exists>g. resp_body resp = BodyFlag g \<and>
        spec_publish e (f\<lparr>flag_key := k\<rparr>) x (admin_actor srv) now (sqlite_ledger C (svc_store s))
          = (sqlite_ledger C (svc_store s'), Inr g) \<and>
        svc_snapshot s' = snapshot_put e g (svc_snapshot s))) \<or>
    (s' = s \<and> resp_status resp = 409 \<and> current_revision (sqlite_ledger C (svc_store s)) e k \<noteq> x) \<or>
    (s' = s \<and> resp_status resp \<in> {400, 500})"
proof (cases "flag_key f \<noteq> [] \<and> flag_key f \<noteq> k")
  case True
  with assms(2,5) show ?thesis by (auto simp: api_publish_def write_json_def)
next
  case False
  let ?f = "f\<lparr>flag_key := k\<rparr>"
  obtain s1 r where svc: "appliance_publish C io e ?f x (admin_actor srv) now s = (s1, r)" by fastforce
  with False assms(2,5) have out: "s' = s1"
    "resp = (case r of Inl err \<Rightarrow> write_flag_error err | Inr g \<Rightarrow> write_json 200 (BodyFlag g))"
    by (auto simp: api_publish_def split: sum.splits)
  show ?thesis
  proof (cases "publish_check e ?f x (admin_actor srv)")
    case (Some err)
    with svc have "s1 = s" "r = Inl err"
      by (auto simp: appliance_publish_def service_publish_def)
    with out publish_check_invalid Some show ?thesis
      by (fastforce simp: write_flag_error_def write_json_def)
  next
    case None
    then have f: "wf_flag ?f" "valid_flag ?f" using assms(3) by (auto simp: wf_flag_def publish_check_None)
    obtain db' q where pub: "sqlite_publish C io e ?f x (admin_actor srv) now (svc_store s) = (db', q)"
      by fastforce
    with None svc have s1: "r = q" "s1 = (case q of Inl _ \<Rightarrow> s\<lparr>svc_store := db'\<rparr>
        | Inr g \<Rightarrow> \<lparr>svc_store = db', svc_snapshot = snapshot_put e g (svc_snapshot s)\<rparr>)"
      by (auto simp: appliance_publish_def service_publish_def split: sum.splits)
    from sqlite_publish_cases [OF assms(1) f(1) f(2) assms(4) pub] show ?thesis
      unfolding out s1 by (auto simp: write_json_def write_flag_error_def)
  qed
qed

theorem api_publish_status_witness:
  "resp_status (snd (api_publish plain_codec sample_json sample_server None 7 (sample_put ''admin'')
     ''prod'' ''checkout-v2'' sample_start)) \<noteq> 409"
proof -
  obtain s' resp where out: "api_publish plain_codec sample_json sample_server None 7 (sample_put ''admin'')
     ''prod'' ''checkout-v2'' sample_start = (s', resp)" by fastforce
  have ok: "sqlite_ok plain_codec (svc_store sample_start)" by (simp add: sample_start_def)
  have dec: "decode_json (read_publish sample_json) (req_body (sample_put ''admin'')) = Some (0, sample_flag)"
    by (simp add: decode_json_def strict_json_def sample_json_def sample_put_def max_request_bytes_def)
  have "current_revision (sqlite_ledger plain_codec (svc_store sample_start)) ''prod'' ''checkout-v2'' = 0"
    by code_simp
  with api_publish_status [OF ok dec sample_flag_wf plain_codec_storable out] show ?thesis
    by (auto simp: out)
qed

section \<open>Bulk evaluation\<close>

lemma read_evaluation_Inr:
  "read_evaluation_request J req key = Inr ctx \<longleftrightarrow>
     decode_json (read_evaluation J) (req_body req) = Some ctx \<and>
     (\<exists>v. v \<noteq> [] \<and> string_attribute ctx ''targetingKey'' = Some v)"
  by (auto simp: read_evaluation_request_def string_attribute_def split: option.splits json.splits)

lemma appliance_list_Inr:
  "appliance_list e s = Inr fs \<longleftrightarrow> validate_environment e = None \<and> fs = snapshot_list (svc_snapshot s) e"
  by (auto simp: appliance_list_def service_list_def split: option.splits)

lemma api_evaluate_all_bulk:
  "resp_body (api_evaluate_all J sha256 req e s) = BodyBulk rs v \<Longrightarrow>
     \<exists>ctx. read_evaluation_request J req [] = Inr ctx \<and> validate_environment e = None \<and>
       rs = evaluate_each sha256 ctx (snapshot_list (svc_snapshot s) e)"
  by (auto simp: api_evaluate_all_def appliance_list_Inr read_evaluation_request_def write_json_def
      write_evaluation_error_def Let_def
      split: sum.splits option.splits flag_error.splits if_splits json.splits)

text \<open>
  C14: bulk evaluation agrees with single evaluation. When a bulk request is answered with
  results, there is exactly one per projected flag of the environment, in key order without
  duplicates, none of them is a failure, and each is what evaluating that key alone with the same
  request answers.
\<close>

theorem bulk_agrees_with_single:
  assumes "wf_snapshot (svc_snapshot s)"
    and "resp_body (api_evaluate_all J sha256 req e s) = BodyBulk rs v"
  shows "\<exists>fs. sorted (map flag_key fs) \<and> distinct (map flag_key fs) \<and>
    set fs = {f. snapshot_get (svc_snapshot s) e (flag_key f) = Some f} \<and> length rs = length fs \<and>
    (\<forall>i. i < length fs \<longrightarrow> (\<exists>r. rs ! i = Inr r \<and> eval_key r = flag_key (fs ! i) \<and>
       resp_body (api_evaluate J sha256 req e (flag_key (fs ! i)) s) = BodyEvaluation r))"
proof -
  let ?fs = "snapshot_list (svc_snapshot s) e"
  obtain ctx v where ctx: "read_evaluation_request J req [] = Inr ctx" and env: "validate_environment e = None"
    and rs: "rs = evaluate_each sha256 ctx ?fs" and v: "string_attribute ctx ''targetingKey'' = Some v" "v \<noteq> []"
    using api_evaluate_all_bulk [OF assms(2)] by (auto simp: read_evaluation_Inr)
  have one: "\<exists>r. evaluate_definition sha256 f ctx = Inr r \<and> eval_key r = flag_key f \<and>
      resp_body (api_evaluate J sha256 req e (flag_key f) s) = BodyEvaluation r" if f: "f \<in> set ?fs" for f
  proof -
    obtain r where r: "evaluate sha256 f ctx = Inr r"
      using v evaluate_error [of sha256 f ctx] by (cases "evaluate sha256 f ctx") auto
    have "eval_key r = flag_key f"
      using r by (auto simp: evaluate_def resolve_def split: option.splits if_splits)
    moreover have "read_evaluation_request J req (flag_key f) = Inr ctx"
      using ctx by (simp add: read_evaluation_Inr)
    moreover have "snapshot_get (svc_snapshot s) e (flag_key f) = Some f"
      using f mem.set_listing [OF assms(1)] by blast
    ultimately show ?thesis
      using r env by (simp add: api_evaluate_def appliance_evaluate_def service_evaluate_def
          evaluate_definition_def write_json_def)
  qed
  have "\<exists>r. rs ! i = Inr r \<and> eval_key r = flag_key (?fs ! i) \<and>
      resp_body (api_evaluate J sha256 req e (flag_key (?fs ! i)) s) = BodyEvaluation r" if "i < length ?fs" for i
    using one [of "?fs ! i"] that by (auto simp: rs evaluate_each_def)
  moreover have "length rs = length ?fs" by (simp add: rs evaluate_each_def)
  moreover have "set ?fs = {f. snapshot_get (svc_snapshot s) e (flag_key f) = Some f}"
    using mem.set_listing [OF assms(1)] by blast
  ultimately show ?thesis
    using mem.sorted_listing [OF assms(1), of e] mem.distinct_listing [OF assms(1), of e] by blast
qed

definition sample_loaded :: "(flag, int) appliance" where
  "sample_loaded = \<lparr>svc_store = empty_database, svc_snapshot = [(''prod'', [(''checkout-v2'', sample_flag)])]\<rparr>"

lemma sample_loaded_wf: "wf_snapshot (svc_snapshot sample_loaded)"
proof -
  have "svc_snapshot sample_loaded = snapshot_put ''prod'' sample_flag []" by code_simp
  with wf_snapshot_put [OF wf_snapshot_new sample_flag_wf] show ?thesis by (simp add: new_memory_def)
qed

theorem bulk_agrees_with_single_witness:
  "\<exists>v. resp_body (api_evaluate_all sample_json sample_digest (sample_put ''eval'') ''prod'' sample_loaded)
      = BodyBulk [Inr (resolve sample_flag ''on'' ''SPLIT'')] v \<and>
    resp_body (api_evaluate sample_json sample_digest (sample_put ''eval'') ''prod'' ''checkout-v2'' sample_loaded)
      = BodyEvaluation (resolve sample_flag ''on'' ''SPLIT'')"
proof -
  have read: "read_evaluation_request sample_json (sample_put ''eval'') [] = Inr sample_context"
    by (simp add: read_evaluation_Inr decode_json_def strict_json_def sample_json_def sample_put_def max_request_bytes_def
        sample_context_def string_attribute_def map_get_def)
  have env: "validate_environment ''prod'' = None" by (simp add: validate_environment_None prod_valid)
  have fs: "snapshot_list (svc_snapshot sample_loaded) ''prod'' = [sample_flag]" by code_simp
  have each: "evaluate_each sample_digest sample_context [sample_flag]
      = [Inr (resolve sample_flag ''on'' ''SPLIT'')]"
    by (simp add: evaluate_each_def evaluate_definition_def sample_split)
  let ?resp = "api_evaluate_all sample_json sample_digest (sample_put ''eval'') ''prod'' sample_loaded"
  have lst: "appliance_list ''prod'' sample_loaded = Inr [sample_flag]"
    using env fs by (simp add: appliance_list_Inr)
  obtain tag where tag: "evaluation_etag sample_json sample_digest [sample_flag] sample_context = Some (CHR 0x22 # tag)"
    by (simp add: evaluation_etag_def etag_input_def sample_json_def)
  have "req_if_none_match (sample_put ''eval'') = []" by (simp add: sample_put_def)
  then obtain v where bulk: "resp_body ?resp = BodyBulk [Inr (resolve sample_flag ''on'' ''SPLIT'')] v"
    by (simp add: api_evaluate_all_def read lst tag each write_json_def)
  from bulk_agrees_with_single [OF sample_loaded_wf bulk] obtain fs where
    "set fs = {f. snapshot_get (svc_snapshot sample_loaded) ''prod'' (flag_key f) = Some f}"
    "length [Inr (resolve sample_flag ''on'' ''SPLIT'') :: ofrep_failure + evaluation] = length fs"
    and all: "\<forall>i. i < length fs \<longrightarrow> (\<exists>r. [Inr (resolve sample_flag ''on'' ''SPLIT'') :: ofrep_failure + evaluation] ! i
       = Inr r \<and> eval_key r = flag_key (fs ! i) \<and>
       resp_body (api_evaluate sample_json sample_digest (sample_put ''eval'') ''prod''
         (flag_key (fs ! i)) sample_loaded) = BodyEvaluation r)"
    by (elim exE conjE) rule
  moreover from this have each0: "resp_body (api_evaluate sample_json sample_digest (sample_put ''eval'') ''prod''
       (flag_key (fs ! 0)) sample_loaded) = BodyEvaluation (resolve sample_flag ''on'' ''SPLIT'')"
    by (auto dest: spec [of _ 0])
  moreover have "snapshot_get (svc_snapshot sample_loaded) ''prod'' (flag_key sample_flag) = Some sample_flag"
    by code_simp
  ultimately have "length fs = 1" "sample_flag \<in> set fs" by simp_all
  then have "fs ! 0 = sample_flag" by (cases fs) auto
  with each0 bulk show ?thesis by (auto simp: sample_flag_def)
qed

section \<open>Entity tags\<close>

lemma concat_entries_inject:
  assumes "\<forall>k \<in> set xs \<union> set ys. CHR 0x00 \<notin> set k" and "CHR 0x00 \<notin> set a" and "CHR 0x00 \<notin> set b"
    and "concat (map (\<lambda>k. k @ [CHR 0x00]) xs) @ a = concat (map (\<lambda>k. k @ [CHR 0x00]) ys) @ b"
  shows "xs = ys \<and> a = b"
  using assms
proof (induction xs arbitrary: ys)
  case Nil
  then have "ys = []" by (cases ys) (auto dest: arg_cong [where f = set])
  with Nil show ?case by simp
next
  case (Cons x xs)
  then obtain y ys' where ys: "ys = y # ys'" by (cases ys) (auto dest: arg_cong [where f = set])
  have cut: "takeWhile (\<lambda>c. c \<noteq> CHR 0x00) (k @ CHR 0x00 # t) = k" if "CHR 0x00 \<notin> set k" for k t
    using that by (induction k) auto
  from Cons.prems(4) have eq: "x @ CHR 0x00 # (concat (map (\<lambda>k. k @ [CHR 0x00]) xs) @ a)
      = y @ CHR 0x00 # (concat (map (\<lambda>k. k @ [CHR 0x00]) ys') @ b)"
    by (simp add: ys)
  have "x = y"
    using arg_cong [OF eq, of "takeWhile (\<lambda>c. c \<noteq> CHR 0x00)"] Cons.prems(1) by (simp add: cut ys)
  with eq Cons.prems Cons.IH [of ys'] show ?case by (simp add: ys)
qed

lemma etag_entry_inject:
  assumes "valid_key (flag_key f)" and "valid_key (flag_key g)"
    and "flag_key f @ '':'' @ itoa (flag_revision f) = flag_key g @ '':'' @ itoa (flag_revision g)"
  shows "flag_key f = flag_key g \<and> flag_revision f = flag_revision g"
proof -
  have cut: "takeWhile (\<lambda>c. c \<noteq> CHR '':'') (k @ CHR '':'' # t) = k" if "valid_key k" for k t
  proof -
    have "CHR '':'' \<notin> set k" using that by (auto simp: valid_key_def key_byte_def)
    then show ?thesis by (induction k) auto
  qed
  have "flag_key f = flag_key g"
    using arg_cong [OF assms(3), of "takeWhile (\<lambda>c. c \<noteq> CHR '':'')"] assms(1,2) by (simp add: cut)
  with assms(3) show ?thesis by (simp add: itoa_inject)
qed

lemma etag_entry_no_nul:
  "valid_key (flag_key f) \<Longrightarrow> CHR 0x00 \<notin> set (flag_key f @ '':'' @ itoa (flag_revision f))"
  by (auto simp: valid_key_def key_byte_def is_digit_def byte_def dest!: itoa_bytes)

lemma etag_input_inject:
  assumes "\<forall>f \<in> set fs \<union> set gs. valid_key (flag_key f)"
    and "\<forall>ctx d. marshal_context J ctx = Some d \<longrightarrow> CHR 0x00 \<notin> set d"
    and "etag_input J fs c1 = Some i" and "etag_input J gs c2 = Some i"
  shows "map (\<lambda>f. (flag_key f, flag_revision f)) fs = map (\<lambda>f. (flag_key f, flag_revision f)) gs \<and>
    marshal_context J c1 = marshal_context J c2"
proof -
  let ?k = "\<lambda>f. flag_key f @ '':'' @ itoa (flag_revision f)"
  obtain a b where m: "marshal_context J c1 = Some a" "marshal_context J c2 = Some b"
    and eq: "concat (map etag_entry fs) @ a = concat (map etag_entry gs) @ b"
    using assms(3,4) by (auto simp: etag_input_def split: option.splits)
  have "etag_entry = (\<lambda>k. k @ [CHR 0x00]) \<circ> ?k" by (simp add: etag_entry_def fun_eq_iff)
  then have "map etag_entry xs = map (\<lambda>k. k @ [CHR 0x00]) (map ?k xs)" for xs
    unfolding map_map by (rule arg_cong)
  with eq have "concat (map (\<lambda>k. k @ [CHR 0x00]) (map ?k fs)) @ a
      = concat (map (\<lambda>k. k @ [CHR 0x00]) (map ?k gs)) @ b"
    by (simp only:)
  moreover have "\<forall>k \<in> set (map ?k fs) \<union> set (map ?k gs). CHR 0x00 \<notin> set k"
    unfolding set_map using assms(1) etag_entry_no_nul by blast
  ultimately have same: "map ?k fs = map ?k gs" "a = b"
    using concat_entries_inject [of "map ?k fs" "map ?k gs" a b] assms(2) m
    by blast+
  from same(1) assms(1)
  have "map (\<lambda>f. (flag_key f, flag_revision f)) fs = map (\<lambda>f. (flag_key f, flag_revision f)) gs"
  proof (induction fs gs rule: list_induct2')
    case (4 f fs g gs)
    with etag_entry_inject [of f g] show ?case by simp
  qed simp_all
  with same(2) m show ?thesis by simp
qed

lemma evaluation_etag_Some:
  "evaluation_etag J sha256 fs ctx = Some t \<longleftrightarrow>
     (\<exists>i. etag_input J fs ctx = Some i \<and> [CHR 0x22] @ hex_encode (sha256 i) @ [CHR 0x22] = t)"
  by (simp add: evaluation_etag_def split: option.split)


definition sample_conditional :: http_request where
  "sample_conditional = (sample_put ''eval'')\<lparr>req_if_none_match :=
     the (evaluation_etag sample_json sample_digest [sample_flag] sample_context)\<rparr>"


end
