(* ===== verification/Factory_Catalog.thy ===== *)
theory Factory_Catalog
  imports Go_Prelude
begin

text \<open>
  The factory's data and its rules: the packs the factory composes (\<^verbatim>\<open>catalog.go\<close>), the recipe
  (\<^verbatim>\<open>recipe.go\<close>) and \<^verbatim>\<open>Validate\<close> (\<^verbatim>\<open>validate.go\<close>), all below \<^verbatim>\<open>internal/factory\<close>. The main result is
  that the published catalog and the validator are one policy: a user interface that offers what
  the catalog says is never refused for a selection, and nothing else is accepted.
\<close>

section \<open>Packs\<close>

record choice =
  choice_value :: string
  choice_label :: string
  choice_description :: string

text \<open>\<^verbatim>\<open>Maximum\<close> 0 is no ceiling.\<close>

record replica_policy =
  replica_default :: int
  replica_maximum :: int

record pack =
  pack_choice :: choice
  pack_version :: string

record database_pack =
  database_base :: pack
  database_shared :: bool

record deployment_pack =
  deployment_base :: pack
  requires_shared :: bool
  deployment_databases :: "string list"
  deployment_replicas :: replica_policy

record delivery_artifacts =
  artifact_directory :: bool
  archive_suffix :: string

text \<open>The publishing functions a delivery pack can carry.\<close>

datatype publisher = PublishDirectory | PublishZip | PublishDirectoryAndZip

record delivery_pack =
  delivery_base :: pack
  delivery_artifacts_of :: delivery_artifacts
  delivery_publish :: publisher

definition new_pack :: "string \<Rightarrow> string \<Rightarrow> string \<Rightarrow> string \<Rightarrow> pack" where
  "new_pack value label description version =
     \<lparr>pack_choice = \<lparr>choice_value = value, choice_label = label, choice_description = description\<rparr>,
      pack_version = version\<rparr>"

definition language_packs :: "pack list" where
  "language_packs =
     [new_pack ''go'' ''Go'' ''Small compiled service with explicit internal packages'' ''v5'',
      new_pack ''typescript'' ''TypeScript'' ''Node.js service with strict TypeScript'' ''v6'',
      new_pack ''python'' ''Python'' ''Python service with explicit policy boundaries'' ''v5'']"

definition database_packs :: "database_pack list" where
  "database_packs =
     [\<lparr>database_base = new_pack ''sqlite'' ''SQLite'' ''Single-instance embedded authority'' ''v3'',
       database_shared = False\<rparr>,
      \<lparr>database_base = new_pack ''postgres'' ''PostgreSQL'' ''External production authority'' ''v3'',
       database_shared = True\<rparr>,
      \<lparr>database_base = new_pack ''mongodb'' ''MongoDB''
         ''External document authority with replica-set transactions'' ''v1'',
       database_shared = True\<rparr>,
      \<lparr>database_base = new_pack ''couchbase'' ''Couchbase''
         ''External document authority with CAS revisions'' ''v1'',
       database_shared = True\<rparr>]"

definition deployment_packs :: "deployment_pack list" where
  "deployment_packs =
     [\<lparr>deployment_base = new_pack ''docker'' ''Docker Compose'' ''Local or single-host containers'' ''v4'',
       requires_shared = False,
       deployment_databases = [''sqlite'', ''postgres'', ''mongodb'', ''couchbase''],
       deployment_replicas = \<lparr>replica_default = 1, replica_maximum = 1\<rparr>\<rparr>,
      \<lparr>deployment_base = new_pack ''aws-ecs'' ''AWS ECS/Fargate''
         ''Managed AWS container service with Terraform'' ''v4'',
       requires_shared = True,
       deployment_databases = [''postgres'', ''mongodb'', ''couchbase''],
       deployment_replicas = \<lparr>replica_default = 2, replica_maximum = 0\<rparr>\<rparr>,
      \<lparr>deployment_base = new_pack ''aws-ec2'' ''AWS EC2''
         ''Single virtual machine with Terraform and cloud-init'' ''v4'',
       requires_shared = False,
       deployment_databases = [''sqlite'', ''postgres'', ''mongodb'', ''couchbase''],
       deployment_replicas = \<lparr>replica_default = 1, replica_maximum = 1\<rparr>\<rparr>,
      \<lparr>deployment_base = new_pack ''gcp-cloud-run'' ''GCP Cloud Run''
         ''Managed GCP container service with Terraform'' ''v4'',
       requires_shared = True,
       deployment_databases = [''postgres'', ''mongodb'', ''couchbase''],
       deployment_replicas = \<lparr>replica_default = 2, replica_maximum = 0\<rparr>\<rparr>,
      \<lparr>deployment_base = new_pack ''kubernetes'' ''Kubernetes''
         ''Portable manifests with Kustomize'' ''v3'',
       requires_shared = True,
       deployment_databases = [''postgres'', ''mongodb'', ''couchbase''],
       deployment_replicas = \<lparr>replica_default = 2, replica_maximum = 0\<rparr>\<rparr>]"

definition delivery_packs :: "delivery_pack list" where
  "delivery_packs =
     [\<lparr>delivery_base = new_pack ''directory'' ''Directory''
         ''Generate an editable repository directory'' ''v1'',
       delivery_artifacts_of = \<lparr>artifact_directory = True, archive_suffix = ''''\<rparr>,
       delivery_publish = PublishDirectory\<rparr>,
      \<lparr>delivery_base = new_pack ''zip'' ''ZIP'' ''Generate a portable ZIP archive'' ''v1'',
       delivery_artifacts_of = \<lparr>artifact_directory = False, archive_suffix = ''.zip''\<rparr>,
       delivery_publish = PublishZip\<rparr>,
      \<lparr>delivery_base = new_pack ''both'' ''Both'' ''Generate the directory and ZIP archive'' ''v1'',
       delivery_artifacts_of = \<lparr>artifact_directory = True, archive_suffix = ''.zip''\<rparr>,
       delivery_publish = PublishDirectoryAndZip\<rparr>]"

section \<open>Looking a pack up\<close>

text \<open>A missing pack is the zero value and \<^verbatim>\<open>false\<close>; callers that drop the flag get the zero value.\<close>

abbreviation pack_value :: "pack \<Rightarrow> string" where
  "pack_value p \<equiv> choice_value (pack_choice p)"

definition find_language :: "string \<Rightarrow> pack option" where
  "find_language v = List.find (\<lambda>p. pack_value p = v) language_packs"

definition find_database :: "string \<Rightarrow> database_pack option" where
  "find_database v = List.find (\<lambda>p. pack_value (database_base p) = v) database_packs"

definition find_deployment :: "string \<Rightarrow> deployment_pack option" where
  "find_deployment v = List.find (\<lambda>p. pack_value (deployment_base p) = v) deployment_packs"

definition find_delivery :: "string \<Rightarrow> delivery_pack option" where
  "find_delivery v = List.find (\<lambda>p. pack_value (delivery_base p) = v) delivery_packs"

definition zero_pack :: pack where
  "zero_pack = new_pack [] [] [] []"

definition database_or_zero :: "string \<Rightarrow> database_pack" where
  "database_or_zero v = (case find_database v of Some p \<Rightarrow> p
     | None \<Rightarrow> \<lparr>database_base = zero_pack, database_shared = False\<rparr>)"

definition deployment_or_zero :: "string \<Rightarrow> deployment_pack" where
  "deployment_or_zero v = (case find_deployment v of Some p \<Rightarrow> p
     | None \<Rightarrow> \<lparr>deployment_base = zero_pack, requires_shared = False, deployment_databases = [],
               deployment_replicas = \<lparr>replica_default = 0, replica_maximum = 0\<rparr>\<rparr>)"

definition supports_database :: "deployment_pack \<Rightarrow> string \<Rightarrow> bool" where
  "supports_database d v \<longleftrightarrow> list_ex (\<lambda>s. s = v) (deployment_databases d)"

section \<open>The catalog\<close>

definition catalog_schema :: string where
  "catalog_schema = ''reaper.dev/catalog/v1''"

record compatibility =
  deployments_by_database :: "(string, string list) go_map"
  replicas_by_deployment :: "(string, replica_policy) go_map"

record catalog =
  catalog_schema_of :: string
  catalog_languages :: "choice list"
  catalog_databases :: "choice list"
  catalog_deployments :: "choice list"
  catalog_deliveries :: "choice list"
  catalog_compatibility :: compatibility

text \<open>\<^verbatim>\<open>CompatibleDeployments\<close>; a nil slice ranges like an empty one.\<close>

definition compatible_deployments :: "string \<Rightarrow> choice list" where
  "compatible_deployments v =
     (if find_database v = None then []
      else map (pack_choice \<circ> deployment_base)
             (filter (\<lambda>d. supports_database d v) deployment_packs))"

definition default_replicas :: "string \<Rightarrow> int" where
  "default_replicas v = (case find_deployment v of None \<Rightarrow> 1
     | Some d \<Rightarrow> replica_default (deployment_replicas d))"

definition choices_of :: "pack list \<Rightarrow> choice list" where
  "choices_of packs = map pack_choice packs"

definition database_choices :: "choice list" where
  "database_choices = map (pack_choice \<circ> database_base) database_packs"

definition deployment_choices :: "choice list" where
  "deployment_choices = map (pack_choice \<circ> deployment_base) deployment_packs"

definition delivery_choices :: "choice list" where
  "delivery_choices = map (pack_choice \<circ> delivery_base) delivery_packs"

definition choice_values :: "choice list \<Rightarrow> string list" where
  "choice_values cs = map choice_value cs"

definition build_compatibility :: compatibility where
  "build_compatibility =
     \<lparr>deployments_by_database =
        foldl (\<lambda>m d. let v = pack_value (database_base d)
                     in map_put v (choice_values (compatible_deployments v)) m) [] database_packs,
      replicas_by_deployment =
        foldl (\<lambda>m d. map_put (pack_value (deployment_base d)) (deployment_replicas d) m)
          [] deployment_packs\<rparr>"

definition product_catalog :: catalog where
  "product_catalog =
     \<lparr>catalog_schema_of = catalog_schema, catalog_languages = choices_of language_packs,
      catalog_databases = database_choices, catalog_deployments = deployment_choices,
      catalog_deliveries = delivery_choices, catalog_compatibility = build_compatibility\<rparr>"

section \<open>The recipe\<close>

definition recipe_schema_version :: string where
  "recipe_schema_version = ''reaper.dev/v0alpha2''"

text \<open>The nested one-field structs of \<^verbatim>\<open>Recipe\<close> are flattened: \<^verbatim>\<open>Service.Language\<close> and so on.\<close>

record recipe =
  recipe_schema :: string
  recipe_name :: string
  recipe_capability :: string
  recipe_language :: string
  recipe_database :: string
  recipe_target :: string
  recipe_replicas :: int
  recipe_delivery :: string
  recipe_tenant :: string
  recipe_attributes :: "string list"

definition default_recipe :: recipe where
  "default_recipe =
     \<lparr>recipe_schema = recipe_schema_version, recipe_name = ''reaper-flags'',
      recipe_capability = ''feature-flags'', recipe_language = ''go'', recipe_database = ''sqlite'',
      recipe_target = ''docker'', recipe_replicas = 1, recipe_delivery = ''both'',
      recipe_tenant = ''organization'',
      recipe_attributes = [''targetingKey'', ''organization.id'']\<rparr>"

section \<open>Validation\<close>

datatype factory_error =
    FSchema | FName | FCapability
  | FLanguage string | FDatabase string | FTarget string | FDelivery string
  | FEcsName | FCloudRunName
  | FReplicas | FNotShared string string | FUnsupported string string
  | FOneAuthority string | FOneReplica string | FAtMost string int
  | FTenant | FNoAttributes | FBlankAttribute | FDuplicateAttribute string | FNoTargetingKey
  | FInternal string | FExists "string list" | FJoined factory_error factory_error

text \<open>
  \<^verbatim>\<open>^[a-z][a-z0-9-]{0,61}[a-z0-9]$\<close>: a first byte, at most 61 bytes, a last byte. All classes are
  ASCII, so the runes the engine reads are the bytes.
\<close>

definition lower_letter :: "char \<Rightarrow> bool" where
  "lower_letter c \<longleftrightarrow> 97 \<le> byte c \<and> byte c \<le> 122"

definition name_byte :: "char \<Rightarrow> bool" where
  "name_byte c \<longleftrightarrow> lower_letter c \<or> is_digit c"

definition project_name :: "string \<Rightarrow> bool" where
  "project_name s =
     (case s of [] \<Rightarrow> False | c # t \<Rightarrow>
        lower_letter c \<and> t \<noteq> [] \<and> length (butlast t) \<le> 61
          \<and> list_all (\<lambda>d. name_byte d \<or> d = CHR ''-'') (butlast t) \<and> name_byte (last t))"

definition validate_identity :: "recipe \<Rightarrow> factory_error check" where
  "validate_identity r =
     and_then (when_err (recipe_schema r \<noteq> recipe_schema_version) FSchema)
    (and_then (when_err (\<not> project_name (recipe_name r)) FName)
              (when_err (recipe_capability r \<noteq> ''feature-flags'') FCapability))"

definition validate_selections :: "recipe \<Rightarrow> factory_error check" where
  "validate_selections r =
     and_then (when_err (find_language (recipe_language r) = None) (FLanguage (recipe_language r)))
    (and_then (when_err (find_database (recipe_database r) = None) (FDatabase (recipe_database r)))
    (and_then (when_err (find_deployment (recipe_target r) = None) (FTarget (recipe_target r)))
              (when_err (find_delivery (recipe_delivery r) = None) (FDelivery (recipe_delivery r)))))"

definition validate_deployment_name :: "recipe \<Rightarrow> factory_error check" where
  "validate_deployment_name r =
     (let n = recipe_name r in
      and_then (when_err (recipe_target r = ''aws-ecs''
                          \<and> (length n > 32 \<or> has_prefix n ''internal-'')) FEcsName)
               (when_err (recipe_target r = ''gcp-cloud-run'' \<and> (length n < 6 \<or> length n > 30))
                  FCloudRunName))"

definition validate_deployment :: "recipe \<Rightarrow> factory_error check" where
  "validate_deployment r =
     and_then (validate_deployment_name r)
    (and_then (when_err (recipe_replicas r < 1) FReplicas)
    (let database = database_or_zero (recipe_database r);
         deployment = deployment_or_zero (recipe_target r);
         top = replica_maximum (deployment_replicas deployment) in
     if \<not> supports_database deployment (recipe_database r)
     then if requires_shared deployment \<and> \<not> database_shared database
          then Some (FNotShared (recipe_target r) (recipe_database r))
          else Some (FUnsupported (recipe_target r) (recipe_database r))
     else if \<not> database_shared database \<and> recipe_replicas r \<noteq> 1
     then Some (FOneAuthority (recipe_database r))
     else if top = 1 \<and> recipe_replicas r \<noteq> 1 then Some (FOneReplica (recipe_target r))
     else if top > 1 \<and> recipe_replicas r > top then Some (FAtMost (recipe_target r) top)
     else None))"

text \<open>The loop of \<^verbatim>\<open>validateAttributes\<close>: the set of the attributes seen so far is a list.\<close>

fun check_attributes :: "string list \<Rightarrow> string list \<Rightarrow> factory_error + string list" where
  "check_attributes seen [] = Inr seen"
| "check_attributes seen (a # attributes) =
     (if blank a then Inl FBlankAttribute
      else if a \<in> set seen then Inl (FDuplicateAttribute a)
      else check_attributes (a # seen) attributes)"

definition validate_attributes :: "string list \<Rightarrow> factory_error check" where
  "validate_attributes attributes =
     (if attributes = [] then Some FNoAttributes
      else case check_attributes [] attributes of
        Inl e \<Rightarrow> Some e
      | Inr seen \<Rightarrow> when_err (''targetingKey'' \<notin> set seen) FNoTargetingKey)"

definition validate_recipe :: "recipe \<Rightarrow> factory_error check" where
  "validate_recipe r =
     and_then (validate_identity r)
    (and_then (validate_selections r)
    (and_then (validate_deployment r)
    (and_then (when_err (blank (recipe_tenant r)) FTenant)
              (validate_attributes (recipe_attributes r)))))"

section \<open>The catalog is the policy\<close>

lemmas pack_tables = language_packs_def database_packs_def deployment_packs_def delivery_packs_def
  new_pack_def

lemma find_language_None:
  "find_language v = None \<longleftrightarrow> v \<notin> set (choice_values (catalog_languages product_catalog))"
  by (auto simp: find_language_def find_None_iff product_catalog_def choice_values_def choices_of_def)

lemma find_database_None:
  "find_database v = None \<longleftrightarrow> v \<notin> set (choice_values (catalog_databases product_catalog))"
  by (auto simp: find_database_def find_None_iff product_catalog_def choice_values_def
      database_choices_def)

lemma find_deployment_None:
  "find_deployment v = None \<longleftrightarrow> v \<notin> set (choice_values (catalog_deployments product_catalog))"
  by (auto simp: find_deployment_def find_None_iff product_catalog_def choice_values_def
      deployment_choices_def)

lemma find_delivery_None:
  "find_delivery v = None \<longleftrightarrow> v \<notin> set (choice_values (catalog_deliveries product_catalog))"
  by (auto simp: find_delivery_def find_None_iff product_catalog_def choice_values_def
      delivery_choices_def)

lemmas find_None = find_language_None find_database_None find_deployment_None find_delivery_None

text \<open>Two packs of a kind never share a value, so looking a pack up finds it.\<close>

lemma find_unique:
  assumes "distinct (map f xs)" and "x \<in> set xs"
  shows "List.find (\<lambda>y. f y = f x) xs = Some x"
  using assms by (induction xs) (auto simp: image_iff)

lemma deployment_values_distinct: "distinct (map (pack_value \<circ> deployment_base) deployment_packs)"
  by (simp add: pack_tables)

lemma find_deployment_pack: "d \<in> set deployment_packs \<Longrightarrow>
    find_deployment (pack_value (deployment_base d)) = Some d"
  using find_unique [OF deployment_values_distinct, of d] by (simp add: find_deployment_def)

lemma catalog_compatibility_values:
  "deployments_by_database (catalog_compatibility product_catalog) =
     [(''sqlite'', [''docker'', ''aws-ec2'']),
      (''postgres'', [''docker'', ''aws-ecs'', ''aws-ec2'', ''gcp-cloud-run'', ''kubernetes'']),
      (''mongodb'', [''docker'', ''aws-ecs'', ''aws-ec2'', ''gcp-cloud-run'', ''kubernetes'']),
      (''couchbase'', [''docker'', ''aws-ecs'', ''aws-ec2'', ''gcp-cloud-run'', ''kubernetes''])]"
  "map snd (replicas_by_deployment (catalog_compatibility product_catalog))
     = map deployment_replicas deployment_packs"
  "map fst (replicas_by_deployment (catalog_compatibility product_catalog))
     = map (pack_value \<circ> deployment_base) deployment_packs"
  by code_simp+

lemma deployments_by_database_get:
  "map_get (deployments_by_database (catalog_compatibility product_catalog)) v =
     (if v = ''sqlite'' then Some [''docker'', ''aws-ec2'']
      else if v \<in> {''postgres'', ''mongodb'', ''couchbase''}
      then Some [''docker'', ''aws-ecs'', ''aws-ec2'', ''gcp-cloud-run'', ''kubernetes'']
      else None)"
  unfolding catalog_compatibility_values map_get_def by auto

lemma replicas_by_deployment_get:
  "map_get (replicas_by_deployment (catalog_compatibility product_catalog)) v =
     map_option deployment_replicas (find_deployment v)"
proof -
  have "replicas_by_deployment (catalog_compatibility product_catalog) =
      map (\<lambda>d. (pack_value (deployment_base d), deployment_replicas d)) deployment_packs"
    using zip_map_fst_snd [of "replicas_by_deployment (catalog_compatibility product_catalog)"]
    unfolding catalog_compatibility_values by (simp add: zip_map_map zip_same_conv_map comp_def)
  moreover have "map_of (map (\<lambda>d. (f d, g d)) ds) v = map_option g (List.find (\<lambda>d. f d = v) ds)"
    for f and g :: "deployment_pack \<Rightarrow> replica_policy" and ds
    by (induction ds) auto
  ultimately show ?thesis by (simp add: map_get_def find_deployment_def)
qed

lemma find_Some_member: "List.find P xs = Some x \<Longrightarrow> x \<in> set xs \<and> P x"
  by (auto simp: find_Some_iff)

lemma find_database_facts:
  assumes "find_database v = Some d"
  shows "v \<in> {''sqlite'', ''postgres'', ''mongodb'', ''couchbase''} \<and> database_shared d = (v \<noteq> ''sqlite'')"
proof -
  from assms have "d \<in> set database_packs" and "v = pack_value (database_base d)"
    by (auto simp: find_database_def dest: find_Some_member)
  then show ?thesis by (simp add: pack_tables) (elim disjE, simp_all)
qed

lemma find_deployment_facts:
  assumes "find_deployment v = Some d"
  shows "v \<in> {''docker'', ''aws-ec2''} \<and> \<not> requires_shared d \<and> replica_maximum (deployment_replicas d) = 1
         \<and> deployment_databases d = [''sqlite'', ''postgres'', ''mongodb'', ''couchbase'']
       \<or> v \<in> {''aws-ecs'', ''gcp-cloud-run'', ''kubernetes''} \<and> requires_shared d
         \<and> replica_maximum (deployment_replicas d) = 0
         \<and> deployment_databases d = [''postgres'', ''mongodb'', ''couchbase'']"
proof -
  from assms have "d \<in> set deployment_packs" and "v = pack_value (deployment_base d)"
    by (auto simp: find_deployment_def dest: find_Some_member)
  then show ?thesis by (simp add: pack_tables) (elim disjE, simp_all)
qed

definition offers :: "string \<Rightarrow> string \<Rightarrow> bool" where
  "offers v t = (case map_get (deployments_by_database (catalog_compatibility product_catalog)) v of
     None \<Rightarrow> False | Some targets \<Rightarrow> t \<in> set targets)"

lemma offers_supports:
  assumes db: "find_database v = Some db" and d: "find_deployment t = Some d"
  shows "offers v t \<longleftrightarrow> supports_database d v"
proof -
  note v = find_database_facts [OF db] and t = find_deployment_facts [OF d]
  show ?thesis
  proof (cases "v = ''sqlite''")
    case True
    then have "offers v t \<longleftrightarrow> t \<in> {''docker'', ''aws-ec2''}"
      by (simp add: offers_def deployments_by_database_get)
    from t show ?thesis
    proof (elim disjE conjE)
      assume "t \<in> {''docker'', ''aws-ec2''}"
        and "deployment_databases d = [''sqlite'', ''postgres'', ''mongodb'', ''couchbase'']"
      with \<open>offers v t \<longleftrightarrow> _\<close> True show ?thesis by (simp only: supports_database_def) simp
    next
      assume "t \<in> {''aws-ecs'', ''gcp-cloud-run'', ''kubernetes''}"
        and "deployment_databases d = [''postgres'', ''mongodb'', ''couchbase'']"
      moreover from this(1) have "t \<notin> {''docker'', ''aws-ec2''}" by (elim insertE) simp_all
      ultimately show ?thesis using \<open>offers v t \<longleftrightarrow> _\<close> True by (simp only: supports_database_def) simp
    qed
  next
    case False
    with v have v3: "v \<in> {''postgres'', ''mongodb'', ''couchbase''}" by blast
    with False have "offers v t \<longleftrightarrow> t \<in> set [''docker'', ''aws-ecs'', ''aws-ec2'', ''gcp-cloud-run'', ''kubernetes'']"
      unfolding offers_def deployments_by_database_get by (simp only: if_False if_True option.case)
    moreover have "t \<in> set [''docker'', ''aws-ecs'', ''aws-ec2'', ''gcp-cloud-run'', ''kubernetes'']"
      using t by (elim disjE conjE) auto
    moreover have "v \<in> set (deployment_databases d)"
      using t v3 by (elim disjE conjE) auto
    ultimately show ?thesis by (simp add: supports_database_def list_ex_iff)
  qed
qed

lemma supports_ceiling:
  assumes db: "find_database v = Some db" and d: "find_deployment t = Some d" and "supports_database d v"
  shows "replica_maximum (deployment_replicas d) \<in> {0, 1}"
    and "\<not> database_shared db \<Longrightarrow> replica_maximum (deployment_replicas d) = 1"
  using find_database_facts [OF db] find_deployment_facts [OF d] assms(3)
  by (auto simp: supports_database_def)

text \<open>What a user interface does with the catalog: it offers these values and no others.\<close>

definition catalog_admits :: "catalog \<Rightarrow> recipe \<Rightarrow> bool" where
  "catalog_admits c r \<longleftrightarrow>
     recipe_language r \<in> set (choice_values (catalog_languages c))
     \<and> recipe_database r \<in> set (choice_values (catalog_databases c))
     \<and> recipe_delivery r \<in> set (choice_values (catalog_deliveries c))
     \<and> (case map_get (deployments_by_database (catalog_compatibility c)) (recipe_database r) of
          None \<Rightarrow> False | Some targets \<Rightarrow> recipe_target r \<in> set targets)
     \<and> (case map_get (replicas_by_deployment (catalog_compatibility c)) (recipe_target r) of
          None \<Rightarrow> False
        | Some p \<Rightarrow> 1 \<le> recipe_replicas r
            \<and> (replica_maximum p = 0 \<or> recipe_replicas r \<le> replica_maximum p))"

lemma selections_None:
  "validate_selections r = None \<longleftrightarrow>
     find_language (recipe_language r) \<noteq> None \<and> find_database (recipe_database r) \<noteq> None
     \<and> find_deployment (recipe_target r) \<noteq> None \<and> find_delivery (recipe_delivery r) \<noteq> None"
  by (auto simp: validate_selections_def check_simps)

lemma deployment_None:
  assumes "find_database (recipe_database r) = Some db" and "find_deployment (recipe_target r) = Some d"
  shows "validate_deployment r = None \<longleftrightarrow>
     validate_deployment_name r = None \<and> 1 \<le> recipe_replicas r
     \<and> offers (recipe_database r) (recipe_target r)
     \<and> (replica_maximum (deployment_replicas d) = 0
        \<or> recipe_replicas r \<le> replica_maximum (deployment_replicas d))"
proof -
  have zero: "database_or_zero (recipe_database r) = db" "deployment_or_zero (recipe_target r) = d"
    using assms by (simp_all add: database_or_zero_def deployment_or_zero_def)
  show ?thesis
  proof (cases "supports_database d (recipe_database r)")
    case True
    note supports_ceiling [OF assms True]
    with True offers_supports [OF assms] show ?thesis
      unfolding validate_deployment_def zero by (auto simp: check_simps Let_def)
  next
    case False
    with offers_supports [OF assms] show ?thesis
      unfolding validate_deployment_def zero by (simp add: check_simps Let_def)
  qed
qed

lemma check_attributes_None:
  "(case check_attributes seen attributes of Inl e \<Rightarrow> False | Inr seen' \<Rightarrow> ''targetingKey'' \<in> set seen') \<longleftrightarrow>
     list_all (\<lambda>a. \<not> blank a) attributes \<and> distinct attributes \<and> set seen \<inter> set attributes = {}
     \<and> ''targetingKey'' \<in> set seen \<union> set attributes"
  by (induction attributes arbitrary: seen) auto

definition attributes_fine :: "string list \<Rightarrow> bool" where
  "attributes_fine attributes \<longleftrightarrow>
     ''targetingKey'' \<in> set attributes \<and> distinct attributes \<and> list_all (\<lambda>a. \<not> blank a) attributes"

lemma validate_attributes_None [check_simps]:
  "validate_attributes attributes = None \<longleftrightarrow> attributes_fine attributes"
proof -
  have "validate_attributes attributes = None \<longleftrightarrow> attributes \<noteq> [] \<and>
      (case check_attributes [] attributes of Inl e \<Rightarrow> False | Inr seen \<Rightarrow> ''targetingKey'' \<in> set seen)"
    by (auto simp: validate_attributes_def check_simps split: sum.split)
  then show ?thesis unfolding check_attributes_None by (auto simp: attributes_fine_def)
qed

text \<open>The names two providers refuse although they are project names.\<close>

definition name_fits :: "string \<Rightarrow> string \<Rightarrow> bool" where
  "name_fits target name \<longleftrightarrow>
     (if target = ''aws-ecs'' then length name \<le> 32 \<and> \<not> has_prefix name ''internal-''
      else if target = ''gcp-cloud-run'' then length name \<in> {6..30} else True)"

lemma validate_deployment_name_None [check_simps]:
  "validate_deployment_name r = None \<longleftrightarrow> name_fits (recipe_target r) (recipe_name r)"
  by (simp add: validate_deployment_name_def name_fits_def Let_def check_simps; linarith)

lemma admits_iff:
  "catalog_admits product_catalog r \<longleftrightarrow>
     (\<exists>db d. find_language (recipe_language r) \<noteq> None \<and> find_database (recipe_database r) = Some db
       \<and> find_deployment (recipe_target r) = Some d \<and> find_delivery (recipe_delivery r) \<noteq> None
       \<and> offers (recipe_database r) (recipe_target r) \<and> 1 \<le> recipe_replicas r
       \<and> (replica_maximum (deployment_replicas d) = 0
          \<or> recipe_replicas r \<le> replica_maximum (deployment_replicas d)))"
proof -
  have "find_language (recipe_language r) \<noteq> None \<longleftrightarrow>
      recipe_language r \<in> set (choice_values (catalog_languages product_catalog))"
    and "find_delivery (recipe_delivery r) \<noteq> None \<longleftrightarrow>
      recipe_delivery r \<in> set (choice_values (catalog_deliveries product_catalog))"
    and "(\<exists>db. find_database (recipe_database r) = Some db) \<longleftrightarrow>
      recipe_database r \<in> set (choice_values (catalog_databases product_catalog))"
    using find_language_None find_delivery_None find_database_None by (auto simp flip: not_None_eq)
  then show ?thesis
    unfolding catalog_admits_def replicas_by_deployment_get offers_def [symmetric]
    by (cases "find_deployment (recipe_target r)") auto
qed

lemma selected_iff:
  "validate_selections r = None \<and> validate_deployment r = None \<longleftrightarrow>
     name_fits (recipe_target r) (recipe_name r) \<and> catalog_admits product_catalog r"
  unfolding admits_iff selections_None by (auto simp: deployment_None check_simps)

text \<open>
  C34: the published catalog is the validator's policy. \<^verbatim>\<open>Validate\<close> accepts a recipe exactly when
  its schema, capability and name are in order, the provider of the deployment accepts that name,
  the language, the database authority, the delivery format, the deployment target and the replica
  count are ones \<^verbatim>\<open>ProductCatalog\<close> offers for this combination, the tenant is not blank, and the
  targeting attributes are distinct, not blank and include \<^verbatim>\<open>targetingKey\<close>. So a user interface that
  follows the catalog is never refused for a selection, and no selection outside it gets through,
  although the validator never reads the catalog's compatibility tables.
\<close>

theorem catalog_is_policy:
  "validate_recipe r = None \<longleftrightarrow>
     recipe_schema r = recipe_schema_version \<and> project_name (recipe_name r)
     \<and> recipe_capability r = ''feature-flags'' \<and> name_fits (recipe_target r) (recipe_name r)
     \<and> catalog_admits product_catalog r
     \<and> \<not> blank (recipe_tenant r) \<and> attributes_fine (recipe_attributes r)"
  using selected_iff [of r] by (auto simp: validate_recipe_def validate_identity_def check_simps)

lemma default_domain:
  "\<not> blank (recipe_tenant default_recipe)" "attributes_fine (recipe_attributes default_recipe)"
  by (simp_all add: default_recipe_def attributes_fine_def not_blank_ascii byte_def is_space_def)

text \<open>The defaults the catalog proposes are themselves accepted.\<close>

lemma default_replicas_fit:
  assumes "find_deployment t = Some d"
  shows "1 \<le> default_replicas t \<and> (replica_maximum (deployment_replicas d) = 0
           \<or> default_replicas t \<le> replica_maximum (deployment_replicas d))"
proof -
  from assms have "d \<in> set deployment_packs" by (auto simp: find_deployment_def dest: find_Some_member)
  then have "1 \<le> replica_default (deployment_replicas d) \<and>
      (replica_maximum (deployment_replicas d) = 0
        \<or> replica_default (deployment_replicas d) \<le> replica_maximum (deployment_replicas d))"
    by (simp add: pack_tables) (elim disjE, simp_all)
  with assms show ?thesis by (simp add: default_replicas_def)
qed

lemma offers_iff_compatible:
  "offers v t \<longleftrightarrow> t \<in> set (choice_values (compatible_deployments v))"
proof (cases "find_database v")
  case None
  then have "v \<notin> (pack_value \<circ> database_base) ` set database_packs"
    by (auto simp: find_database_def find_None_iff)
  then have "v \<notin> {''sqlite'', ''postgres'', ''mongodb'', ''couchbase''}" by (simp add: pack_tables)
  with None show ?thesis by (simp add: offers_def deployments_by_database_get compatible_deployments_def choice_values_def)
next
  case (Some db)
  show ?thesis
  proof
    assume "offers v t"
    have "find_deployment t \<noteq> None"
      using \<open>offers v t\<close> find_database_facts [OF Some]
      unfolding offers_def deployments_by_database_get find_deployment_None
      by (auto simp: product_catalog_def choice_values_def deployment_choices_def pack_tables split: if_splits)
    then obtain d where d: "find_deployment t = Some d" by auto
    then have "d \<in> set deployment_packs" and "t = pack_value (deployment_base d)"
      by (auto simp: find_deployment_def dest: find_Some_member)
    moreover have "supports_database d v" using offers_supports [OF Some d] \<open>offers v t\<close> by simp
    ultimately show "t \<in> set (choice_values (compatible_deployments v))"
      using Some by (auto simp: compatible_deployments_def choice_values_def)
  next
    assume "t \<in> set (choice_values (compatible_deployments v))"
    then obtain d where "d \<in> set deployment_packs" "supports_database d v"
        "t = pack_value (deployment_base d)"
      using Some by (auto simp: compatible_deployments_def choice_values_def)
    then show "offers v t" using offers_supports [OF Some] find_deployment_pack by simp
  qed
qed

end
