(* ===== verification/Factory_Cli.thy ===== *)
theory Factory_Cli
  imports Factory_Catalog
begin

text \<open>
  The interactive configurator of \<^verbatim>\<open>cmd/reaper/main.go\<close>: \<^verbatim>\<open>askText\<close>, \<^verbatim>\<open>askChoice\<close>, \<^verbatim>\<open>askNumber\<close> and
  the questions of \<^verbatim>\<open>configure\<close>, over a console that holds the bytes still to be read and the texts
  written so far. A read may fail when the bytes run out, a write may fail at any point; an index
  out of range is the reply \<open>Panic\<close>. What is shown: the prompts end on every input, nothing panics,
  and the recipe that comes out can only be refused for its name or its replica count.
\<close>

section \<open>The console\<close>

text \<open>
  \<open>con_error\<close> is the error a read at the end of the input meets, \<open>None\<close> for \<^verbatim>\<open>io.EOF\<close>;
  \<open>con_budget\<close> is the number of writes that succeed, \<open>None\<close> when all do.
\<close>

record console =
  con_input :: string
  con_error :: "string option"
  con_output :: "string list"
  con_budget :: "nat option"

datatype 'a reply = Answer 'a | Failed factory_error | Panic

fun and_ask :: "console \<times> 'a reply \<Rightarrow> ('a \<Rightarrow> console \<Rightarrow> console \<times> 'b reply) \<Rightarrow> console \<times> 'b reply" where
  "and_ask (con, Answer x) f = f x con"
| "and_ask (con, Failed e) f = (con, Failed e)"
| "and_ask (con, Panic) f = (con, Panic)"

definition write_output :: "string \<Rightarrow> console \<Rightarrow> console \<times> unit reply" where
  "write_output text con =
     (if con_budget con = Some 0 then (con, Failed (FInternal ''write output''))
      else (con\<lparr>con_output := con_output con @ [text],
                con_budget := map_option (\<lambda>n. n - 1) (con_budget con)\<rparr>, Answer ()))"

text \<open>\<^verbatim>\<open>bufio.Reader.ReadString('\n')\<close>: the line with its newline, or what is left and an error.\<close>

definition newline :: char where
  "newline = char_of (10 :: nat)"

definition read_string :: "console \<Rightarrow> console \<times> string \<times> bool" where
  "read_string con =
     (let line = takeWhile (\<lambda>c. c \<noteq> newline) (con_input con);
          rest = dropWhile (\<lambda>c. c \<noteq> newline) (con_input con)
      in case rest of
           [] \<Rightarrow> (con\<lparr>con_input := []\<rparr>, line, con_error con \<noteq> None)
         | c # rest' \<Rightarrow> (con\<lparr>con_input := rest'\<rparr>, line @ [c], False))"

text \<open>What every prompt does with its answer: a read error other than the end of input is final.\<close>

definition read_answer :: "console \<Rightarrow> console \<times> string reply" where
  "read_answer con =
     (let (con1, line, broken) = read_string con in
      if broken then (con1, Failed (FInternal ''read input'')) else (con1, Answer (trim_space line)))"

section \<open>Prompts\<close>

definition ask_text :: "string \<Rightarrow> string \<Rightarrow> console \<Rightarrow> console \<times> string reply" where
  "ask_text label fallback con =
     and_ask (write_output (label @ '' ['' @ fallback @ '']: '') con) (\<lambda>_ con1.
     and_ask (read_answer con1) (\<lambda>value con2.
       (con2, Answer (if value = [] then fallback else value))))"

definition em_dash :: string where
  "em_dash = [char_of (226 :: nat), char_of (128 :: nat), char_of (148 :: nat)]"

text \<open>The numbered list: the index printed is one more than the position.\<close>

fun show_choices :: "nat \<Rightarrow> choice list \<Rightarrow> console \<Rightarrow> console \<times> unit reply" where
  "show_choices i [] con = (con, Answer ())"
| "show_choices i (c # cs) con =
     and_ask (write_output (''  '' @ itoa (int i + 1) @ '') '' @ choice_label c @ '' '' @ em_dash @ '' ''
                @ choice_description c @ [newline]) con)
       (\<lambda>_. show_choices (Suc i) cs)"

text \<open>The last position that holds the fallback, 0 when none does.\<close>

fun default_index :: "nat \<Rightarrow> nat \<Rightarrow> string \<Rightarrow> choice list \<Rightarrow> nat" where
  "default_index found i fallback [] = found"
| "default_index found i fallback (c # cs) =
     default_index (if choice_value c = fallback then i else found) (Suc i) fallback cs"

definition nth_choice :: "choice list \<Rightarrow> nat \<Rightarrow> string reply" where
  "nth_choice cs i = (if i < length cs then Answer (choice_value (cs ! i)) else Panic)"

lemma read_string_length:
  "read_string con = (con', line, broken) \<Longrightarrow> length (con_input con') + length line = length (con_input con)"
proof -
  assume eq: "read_string con = (con', line, broken)"
  have "length (takeWhile P s) + length (dropWhile P s) = length s" for P and s :: string
    by (metis length_append takeWhile_dropWhile_id)
  from this [of "\<lambda>c. c \<noteq> newline" "con_input con"] eq show ?thesis
    by (auto simp: read_string_def Let_def split: list.splits)
qed

lemma trim_space_Nil [simp]: "trim_space [] = []"
  by (simp add: trim_space_def)

lemma read_answer_shrinks:
  assumes "read_answer con = (con', Answer value)" and "value \<noteq> []"
  shows "length (con_input con') < length (con_input con)"
proof -
  obtain con1 line broken where rs: "read_string con = (con1, line, broken)"
    by (cases "read_string con") auto
  with assms have "con' = con1" "value = trim_space line"
    by (auto simp: read_answer_def split: if_splits)
  with assms(2) have "line \<noteq> []" by auto
  with read_string_length [OF rs] \<open>con' = con1\<close> show ?thesis by (cases line) auto
qed

lemma write_output_input [simp]: "con_input (fst (write_output text con)) = con_input con"
  by (simp add: write_output_def)

text \<open>
  The loop that \<^verbatim>\<open>askChoice\<close> and \<^verbatim>\<open>askNumber\<close> share: prompt, read, take the fallback on an empty
  answer, the accepted value on an acceptable one, and complain and ask again otherwise. An answer
  that is neither empty nor accepted used up input, so there is a last one; at the end of the input
  every answer is empty.
\<close>

definition attempt ::
  "string \<Rightarrow> string \<Rightarrow> 'a reply \<Rightarrow> (string \<Rightarrow> 'a reply option) \<Rightarrow> console \<Rightarrow> console \<times> 'a reply option reply"
where
  "attempt prompt complaint fallback accept con =
     and_ask (write_output prompt con) (\<lambda>_ con1.
     and_ask (read_answer con1) (\<lambda>v con2.
       if v = [] then (con2, Answer (Some fallback))
       else (case accept v of
               Some r \<Rightarrow> (con2, Answer (Some r))
             | None \<Rightarrow> and_ask (write_output complaint con2) (\<lambda>_ con3. (con3, Answer None)))))"

lemma and_ask_Answer:
  "and_ask x f = (con', Answer y) \<longleftrightarrow> (\<exists>a con1. x = (con1, Answer a) \<and> f a con1 = (con', Answer y))"
  by (cases "(x, f)" rule: and_ask.cases) auto

lemma attempt_shrinks:
  assumes "attempt prompt complaint fallback accept con = (con', Answer None)"
  shows "length (con_input con') < length (con_input con)"
proof -
  obtain con1 v con2 a b where w: "write_output prompt con = (con1, Answer a)"
      and r: "read_answer con1 = (con2, Answer v)" and v: "v \<noteq> []"
      and w2: "write_output complaint con2 = (con', Answer b)"
    using assms unfolding attempt_def
    by (auto simp: and_ask_Answer split: if_splits option.splits)
  have "con_input con1 = con_input con" "con_input con' = con_input con2"
    using write_output_input [of prompt con] write_output_input [of complaint con2] w w2 by simp_all
  with read_answer_shrinks [OF r v] show ?thesis by simp
qed

function ask_until ::
  "string \<Rightarrow> string \<Rightarrow> 'a reply \<Rightarrow> (string \<Rightarrow> 'a reply option) \<Rightarrow> console \<Rightarrow> console \<times> 'a reply" where
  "ask_until prompt complaint fallback accept con =
     (case attempt prompt complaint fallback accept con of
        (con', Answer None) \<Rightarrow> ask_until prompt complaint fallback accept con'
      | (con', Answer (Some r)) \<Rightarrow> (con', r)
      | (con', Failed e) \<Rightarrow> (con', Failed e)
      | (con', Panic) \<Rightarrow> (con', Panic))"
  by pat_completeness auto
termination
  by (relation "measure (\<lambda>(_, _, _, _, con). length (con_input con))")
     (auto dest: attempt_shrinks [OF sym])

declare ask_until.simps [simp del]

definition accept_choice :: "choice list \<Rightarrow> string \<Rightarrow> string reply option" where
  "accept_choice cs v =
     (case atoi v of None \<Rightarrow> None
      | Some n \<Rightarrow> if n > 0 \<and> n \<le> int (length cs) then Some (nth_choice cs (nat (n - 1))) else None)"

definition ask_choice :: "string \<Rightarrow> choice list \<Rightarrow> string \<Rightarrow> console \<Rightarrow> console \<times> string reply" where
  "ask_choice label cs fallback con =
     and_ask (write_output (label @ '':'' @ [newline]) con) (\<lambda>_ con1.
     and_ask (show_choices 0 cs con1) (\<lambda>_ con2.
       let d = default_index 0 0 fallback cs in
       ask_until (''Choose ['' @ itoa (int d + 1) @ '']: '')
         (''Enter one of the numbered choices.'' @ [newline])
         (nth_choice cs d) (accept_choice cs) con2))"

definition accept_number :: "string \<Rightarrow> int reply option" where
  "accept_number v =
     (case atoi v of None \<Rightarrow> None | Some n \<Rightarrow> if n > 0 then Some (Answer n) else None)"

definition ask_number :: "string \<Rightarrow> int \<Rightarrow> console \<Rightarrow> console \<times> int reply" where
  "ask_number label fallback =
     ask_until (label @ '' ['' @ itoa fallback @ '']: '')
       (''Enter a positive whole number.'' @ [newline]) (Answer fallback) accept_number"

text \<open>The questions of \<^verbatim>\<open>configure\<close>; \<^verbatim>\<open>deployments[0]\<close> panics when nothing is compatible.\<close>

definition first_deployment :: "choice list \<Rightarrow> string reply" where
  "first_deployment cs = nth_choice cs 0"

definition configure_recipe :: "console \<Rightarrow> console \<times> recipe reply" where
  "configure_recipe con =
     (let r = default_recipe in
      and_ask (write_output (''SaaS Reaper '' @ em_dash @ '' compose your feature-flag service''
                 @ [newline]) con) (\<lambda>_ c1.
      and_ask (ask_text ''Project name'' (recipe_name r) c1) (\<lambda>name c2.
      and_ask (ask_choice ''Service language'' (catalog_languages product_catalog)
                 (recipe_language r) c2) (\<lambda>language c3.
      and_ask (ask_choice ''Database authority'' (catalog_databases product_catalog)
                 (recipe_database r) c3) (\<lambda>database c4.
      let deployments = compatible_deployments database in
      and_ask (c4, first_deployment deployments) (\<lambda>first c5.
      and_ask (ask_choice ''Deployment target'' deployments first c5) (\<lambda>target c6.
      and_ask (ask_number ''Replicas'' (default_replicas target) c6) (\<lambda>replicas c7.
      and_ask (ask_choice ''Delivery'' (catalog_deliveries product_catalog)
                 (recipe_delivery r) c7) (\<lambda>delivery c8.
        (c8, Answer (r\<lparr>recipe_name := name, recipe_language := language,
                       recipe_database := database, recipe_target := target,
                       recipe_replicas := replicas, recipe_delivery := delivery\<rparr>)))))))))))"


section \<open>What the prompts guarantee\<close>

text \<open>A console whose reads end with the end of the input and whose writes succeed.\<close>

definition healthy :: "console \<Rightarrow> bool" where
  "healthy con \<longleftrightarrow> con_error con = None \<and> con_budget con = None"

text \<open>
  Interactions that never panic, answer only what \<open>P\<close> allows, and fail only on a console that is
  not healthy.
\<close>

definition yields :: "('a \<Rightarrow> bool) \<Rightarrow> console \<Rightarrow> console \<times> 'a reply \<Rightarrow> bool" where
  "yields P con out = (case out of
       (con', Answer x) \<Rightarrow> P x \<and> (healthy con \<longrightarrow> healthy con')
     | (con', Failed e) \<Rightarrow> \<not> healthy con
     | (con', Panic) \<Rightarrow> False)"

definition delivers :: "('a \<Rightarrow> bool) \<Rightarrow> (console \<Rightarrow> console \<times> 'a reply) \<Rightarrow> bool" where
  "delivers P m \<longleftrightarrow> (\<forall>con. yields P con (m con))"

lemma yields_simps [simp]:
  "yields P con (con', Answer x) \<longleftrightarrow> P x \<and> (healthy con \<longrightarrow> healthy con')"
  "yields P con (con', Failed e) \<longleftrightarrow> \<not> healthy con"
  "\<not> yields P con (con', Panic)"
  by (simp_all add: yields_def)

lemma delivers_bind:
  assumes "delivers P m" and "\<And>x. P x \<Longrightarrow> delivers Q (f x)"
  shows "delivers Q (\<lambda>con. and_ask (m con) f)"
  unfolding delivers_def
proof
  fix con
  obtain con' a where m: "m con = (con', a)" by fastforce
  with assms(1) have "yields P con (con', a)" unfolding delivers_def by metis
  then show "yields Q con (and_ask (m con) f)"
  proof (cases a)
    case (Answer x)
    with \<open>yields P con (con', a)\<close> assms(2) [of x] have "yields Q con' (f x con')" "P x"
      "healthy con \<longrightarrow> healthy con'"
      by (simp_all add: delivers_def)
    then have "yields Q con (f x con')"
      by (auto simp: yields_def split: prod.splits reply.splits)
    with m Answer show ?thesis by simp
  qed (simp_all add: m)
qed

lemma delivers_answer: "P x \<Longrightarrow> delivers P (\<lambda>con. (con, Answer x))"
  by (simp add: delivers_def)

lemma delivers_write: "delivers (\<lambda>_. True) (write_output text)"
  by (auto simp: delivers_def write_output_def healthy_def)

lemma delivers_read: "delivers (\<lambda>_. True) read_answer"
  by (auto simp: delivers_def read_answer_def read_string_def healthy_def Let_def split: list.splits)

lemma delivers_weaken: "delivers P m \<Longrightarrow> (\<And>x. P x \<Longrightarrow> Q x) \<Longrightarrow> delivers Q m"
  unfolding delivers_def yields_def by (fastforce split: prod.splits reply.splits)

lemma delivers_ask_text: "delivers (\<lambda>_. True) (ask_text label fallback)"
  unfolding ask_text_def
  by (rule delivers_bind [OF delivers_write], rule delivers_bind [OF delivers_read], rule delivers_answer) simp

lemma delivers_show_choices: "delivers (\<lambda>_. True) (show_choices i cs)"
proof (induction cs arbitrary: i)
  case Nil
  show ?case by (simp add: delivers_def)
next
  case (Cons c cs)
  have eq: "show_choices i (c # cs) = (\<lambda>con. and_ask (write_output (''  '' @ itoa (int i + 1) @ '') ''
      @ choice_label c @ '' '' @ em_dash @ '' '' @ choice_description c @ [newline]) con)
      (\<lambda>_. show_choices (Suc i) cs))"
    by (rule ext) simp
  show ?case unfolding eq by (rule delivers_bind [OF delivers_write]) (rule Cons.IH)
qed

lemma delivers_attempt:
  assumes "fallback = Answer x" "P x" and "\<And>v r. accept v = Some r \<Longrightarrow> \<exists>y. r = Answer y \<and> P y"
  shows "delivers (\<lambda>res. case res of None \<Rightarrow> True | Some r \<Rightarrow> \<exists>y. r = Answer y \<and> P y)
           (attempt prompt complaint fallback accept)"
  unfolding attempt_def
proof (rule delivers_bind [OF delivers_write], rule delivers_bind [OF delivers_read])
  fix u :: unit and v :: string
  show "delivers (\<lambda>res. case res of None \<Rightarrow> True | Some r \<Rightarrow> \<exists>y. r = Answer y \<and> P y)
     (\<lambda>con2. if v = [] then (con2, Answer (Some fallback))
       else (case accept v of
               Some r \<Rightarrow> (con2, Answer (Some r))
             | None \<Rightarrow> and_ask (write_output complaint con2) (\<lambda>_ con3. (con3, Answer None))))"
  proof (cases "accept v")
    case None
    have "delivers (\<lambda>res. res = None) (\<lambda>con2. and_ask (write_output complaint con2)
        (\<lambda>_ con3. (con3, Answer (None :: 'a reply option))))"
      by (rule delivers_bind [OF delivers_write]) (simp add: delivers_answer)
    then have "delivers (\<lambda>res. case res of None \<Rightarrow> True | Some r \<Rightarrow> \<exists>y. r = Answer y \<and> P y)
        (\<lambda>con2. and_ask (write_output complaint con2) (\<lambda>_ con3. (con3, Answer None)))"
      by (rule delivers_weaken) simp
    with None assms show ?thesis by (cases "v = []") (auto intro!: delivers_answer)
  next
    case (Some r)
    with assms show ?thesis by (cases "v = []") (auto intro!: delivers_answer)
  qed
qed

lemma delivers_ask_until:
  assumes "fallback = Answer x" "P x" and "\<And>v r. accept v = Some r \<Longrightarrow> \<exists>y. r = Answer y \<and> P y"
  shows "delivers P (ask_until prompt complaint fallback accept)"
  unfolding delivers_def
proof
  fix con
  show "yields P con (ask_until prompt complaint fallback accept con)"
    using assms
  proof (induction prompt complaint fallback accept con rule: ask_until.induct)
    case (1 prompt complaint fallback accept con)
    let ?Q = "\<lambda>res. case res of None \<Rightarrow> True | Some r \<Rightarrow> \<exists>y. r = Answer y \<and> P y"
    obtain con' res where att: "attempt prompt complaint fallback accept con = (con', res)" by fastforce
    have "delivers ?Q (attempt prompt complaint fallback accept)"
      by (rule delivers_attempt) (use "1.prems" in auto)
    with att have a: "yields ?Q con (con', res)" unfolding delivers_def by metis
    show ?case
    proof (cases "res = Answer None")
      case True
      have "yields P con' (ask_until prompt complaint fallback accept con')"
        using "1.IH" [OF att [symmetric] True] "1.prems" by blast
      with a att True show ?thesis
        by (subst ask_until.simps) (auto simp: yields_def split: prod.splits reply.splits)
    next
      case False
      with a att show ?thesis
        by (subst ask_until.simps) (auto split: reply.splits option.splits)
    qed
  qed
qed

lemma delivers_nth_choice: "i < length cs \<Longrightarrow> \<exists>y. nth_choice cs i = Answer y \<and> y \<in> set (choice_values cs)"
  by (simp add: nth_choice_def choice_values_def)

lemma default_index_less: "cs \<noteq> [] \<Longrightarrow> default_index 0 0 fallback cs < length cs"
proof -
  have "default_index found i fallback xs < n" if "found < n" "i + length xs \<le> n" for found i n xs
    using that by (induction xs arbitrary: found i) auto
  from this [of 0 "length cs" 0 cs] show "cs \<noteq> [] \<Longrightarrow> ?thesis" by simp
qed

lemma delivers_ask_choice:
  assumes "cs \<noteq> []"
  shows "delivers (\<lambda>v. v \<in> set (choice_values cs)) (ask_choice label cs fallback)"
  unfolding ask_choice_def Let_def
proof (rule delivers_bind [OF delivers_write], rule delivers_bind [OF delivers_show_choices])
  obtain y where "nth_choice cs (default_index 0 0 fallback cs) = Answer y" "y \<in> set (choice_values cs)"
    using delivers_nth_choice [OF default_index_less [OF assms]] by blast
  then show "delivers (\<lambda>v. v \<in> set (choice_values cs)) (ask_until
      (''Choose ['' @ itoa (int (default_index 0 0 fallback cs) + 1) @ '']: '')
      (''Enter one of the numbered choices.'' @ [newline])
      (nth_choice cs (default_index 0 0 fallback cs)) (accept_choice cs))" for u1 u2 :: unit
    by (rule delivers_ask_until)
       (auto simp: accept_choice_def intro!: delivers_nth_choice split: option.splits if_splits)
qed

lemma delivers_ask_number:
  "1 \<le> fallback \<Longrightarrow> delivers (\<lambda>n. 1 \<le> n) (ask_number label fallback)"
  unfolding ask_number_def
  by (rule delivers_ask_until [OF refl]) (auto simp: accept_number_def split: option.splits if_splits)

section \<open>The configured recipe\<close>

definition offered :: "recipe \<Rightarrow> bool" where
  "offered r \<longleftrightarrow>
     recipe_schema r = recipe_schema_version \<and> recipe_capability r = ''feature-flags''
     \<and> recipe_tenant r = recipe_tenant default_recipe
     \<and> recipe_attributes r = recipe_attributes default_recipe
     \<and> recipe_language r \<in> set (choice_values (catalog_languages product_catalog))
     \<and> recipe_database r \<in> set (choice_values (catalog_databases product_catalog))
     \<and> recipe_target r \<in> set (choice_values (compatible_deployments (recipe_database r)))
     \<and> recipe_delivery r \<in> set (choice_values (catalog_deliveries product_catalog))
     \<and> 1 \<le> recipe_replicas r"

lemma catalog_lists_nonempty:
  "catalog_languages product_catalog \<noteq> []" "catalog_databases product_catalog \<noteq> []"
  "catalog_deliveries product_catalog \<noteq> []"
  by (simp_all add: product_catalog_def choices_of_def database_choices_def delivery_choices_def pack_tables)

lemma compatible_nonempty:
  assumes "v \<in> set (choice_values (catalog_databases product_catalog))"
  shows "compatible_deployments v \<noteq> []"
proof -
  from assms obtain db where "find_database v = Some db" using find_database_None by auto
  from find_database_facts [OF this] have "offers v ''docker''"
    unfolding offers_def deployments_by_database_get by auto
  then show ?thesis unfolding offers_iff_compatible by (auto simp: choice_values_def)
qed

lemma default_replicas_positive: "1 \<le> default_replicas t"
  using default_replicas_fit [of t] by (cases "find_deployment t") (auto simp: default_replicas_def)

lemma configure_delivers: "delivers offered configure_recipe"
  unfolding configure_recipe_def Let_def
proof (rule delivers_bind [OF delivers_write], rule delivers_bind [OF delivers_ask_text],
    rule delivers_bind [OF delivers_ask_choice [OF catalog_lists_nonempty(1)]],
    rule delivers_bind [OF delivers_ask_choice [OF catalog_lists_nonempty(2)]])
  fix u :: unit and name language database
  assume language: "language \<in> set (choice_values (catalog_languages product_catalog))"
    and database: "database \<in> set (choice_values (catalog_databases product_catalog))"
  note some = compatible_nonempty [OF database]
  then obtain first where "first_deployment (compatible_deployments database) = Answer first"
    by (auto simp: first_deployment_def nth_choice_def)
  moreover have "delivers offered (\<lambda>c4.
      and_ask (ask_choice ''Deployment target'' (compatible_deployments database) first c4) (\<lambda>target c6.
      and_ask (ask_number ''Replicas'' (default_replicas target) c6) (\<lambda>replicas c7.
      and_ask (ask_choice ''Delivery'' (catalog_deliveries product_catalog)
                 (recipe_delivery default_recipe) c7) (\<lambda>delivery c8.
        (c8, Answer (default_recipe\<lparr>recipe_name := name, recipe_language := language,
                       recipe_database := database, recipe_target := target,
                       recipe_replicas := replicas, recipe_delivery := delivery\<rparr>))))))"
    by (rule delivers_bind [OF delivers_ask_choice [OF some]],
        rule delivers_bind [OF delivers_ask_number [OF default_replicas_positive]],
        rule delivers_bind [OF delivers_ask_choice [OF catalog_lists_nonempty(3)]],
        rule delivers_answer)
       (use language database in \<open>simp add: offered_def default_recipe_def\<close>)
  ultimately show "delivers offered (\<lambda>c4.
      and_ask (c4, first_deployment (compatible_deployments database)) (\<lambda>first c5.
      and_ask (ask_choice ''Deployment target'' (compatible_deployments database) first c5) (\<lambda>target c6.
      and_ask (ask_number ''Replicas'' (default_replicas target) c6) (\<lambda>replicas c7.
      and_ask (ask_choice ''Delivery'' (catalog_deliveries product_catalog)
                 (recipe_delivery default_recipe) c7) (\<lambda>delivery c8.
        (c8, Answer (default_recipe\<lparr>recipe_name := name, recipe_language := language,
                       recipe_database := database, recipe_target := target,
                       recipe_replicas := replicas, recipe_delivery := delivery\<rparr>)))))))"
    by simp
qed

lemma offered_validates:
  assumes "offered r"
  shows "validate_recipe r = None \<longleftrightarrow>
     project_name (recipe_name r) \<and> name_fits (recipe_target r) (recipe_name r)
     \<and> (case find_deployment (recipe_target r) of None \<Rightarrow> False
        | Some d \<Rightarrow> replica_maximum (deployment_replicas d) = 0
            \<or> recipe_replicas r \<le> replica_maximum (deployment_replicas d))"
proof -
  from assms obtain db where db: "find_database (recipe_database r) = Some db"
    unfolding offered_def using find_database_None by (metis option.exhaust)
  from assms obtain "find_language (recipe_language r) \<noteq> None" "find_delivery (recipe_delivery r) \<noteq> None"
    "offers (recipe_database r) (recipe_target r)" "1 \<le> recipe_replicas r"
    unfolding offered_def offers_iff_compatible using find_language_None find_delivery_None by blast
  with db have "catalog_admits product_catalog r \<longleftrightarrow> (case find_deployment (recipe_target r) of None \<Rightarrow> False
        | Some d \<Rightarrow> replica_maximum (deployment_replicas d) = 0
            \<or> recipe_replicas r \<le> replica_maximum (deployment_replicas d))"
    unfolding admits_iff by (simp split: option.split)
  moreover have "validate_recipe r = None \<longleftrightarrow> project_name (recipe_name r)
      \<and> name_fits (recipe_target r) (recipe_name r) \<and> catalog_admits product_catalog r"
  proof -
    have eq: "validate_recipe r = None \<longleftrightarrow> validate_identity r = None \<and> validate_selections r = None
        \<and> validate_deployment r = None \<and> \<not> blank (recipe_tenant r) \<and> attributes_fine (recipe_attributes r)"
      by (auto simp: validate_recipe_def check_simps)
    have "validate_selections r = None \<and> validate_deployment r = None \<longleftrightarrow>
        name_fits (recipe_target r) (recipe_name r) \<and> catalog_admits product_catalog r"
      by (rule selected_iff)
    with eq default_domain assms show ?thesis
      by (auto simp: offered_def validate_identity_def check_simps)
  qed
  ultimately show ?thesis by blast
qed

text \<open>
  C35: the interactive configurator always ends, never panics, and asks only for what can be
  generated. Whatever bytes it is given, it returns; on a console whose writes succeed and whose
  input simply ends it returns a recipe; and such a recipe is refused by \<^verbatim>\<open>Validate\<close> only for a name
  that is not a project name or that the chosen provider refuses, or for a replica count above the
  deployment's ceiling (the two things \<^verbatim>\<open>askText\<close> and \<^verbatim>\<open>askNumber\<close> do not check).
\<close>

theorem configure_offers_valid:
  "case snd (configure_recipe con) of
     Panic \<Rightarrow> False
   | Failed e \<Rightarrow> \<not> healthy con
   | Answer r \<Rightarrow> (validate_recipe r = None) =
       (project_name (recipe_name r) \<and> name_fits (recipe_target r) (recipe_name r)
        \<and> (case find_deployment (recipe_target r) of None \<Rightarrow> False
           | Some d \<Rightarrow> replica_maximum (deployment_replicas d) = 0
               \<or> recipe_replicas r \<le> replica_maximum (deployment_replicas d)))"
proof -
  have "yields offered con (configure_recipe con)"
    using configure_delivers unfolding delivers_def by blast
  then show ?thesis
    by (cases "configure_recipe con"; cases "snd (configure_recipe con)")
       (simp_all add: offered_validates)
qed

end
