(* ===== verification/Factory_Files.thy ===== *)
theory Factory_Files
  imports Factory_Catalog
begin

text \<open>
  The files the factory works on. A path is the list of its components below the root, a disk maps
  paths to nodes, and every operating-system call the factory makes is a function that returns the
  new disk and whether it failed; which calls fail besides those that must is an argument. The
  parents of a path are taken as resolved, so a symbolic link is met only as the last component.
  The lemmas say which paths each call can change.
\<close>

section \<open>Paths\<close>

type_synonym path = "string list"

definition slash :: char where
  "slash = CHR ''/''"

text \<open>\<^verbatim>\<open>filepath.Join\<close> and \<^verbatim>\<open>filepath.Clean\<close> on an absolute path: one component at a time.\<close>

definition walk_component :: "path \<Rightarrow> string \<Rightarrow> path" where
  "walk_component p c = (if c = [] \<or> c = ''.'' then p else if c = ''..'' then butlast p else p @ [c])"

definition join_components :: "path \<Rightarrow> string list \<Rightarrow> path" where
  "join_components p cs = foldl walk_component p cs"

definition join_path :: "path \<Rightarrow> string \<Rightarrow> path" where
  "join_path p s = join_components p (split_on slash s)"

definition parent :: "path \<Rightarrow> path" where
  "parent p = butlast p"

text \<open>Appending a suffix to a path appends it to the last component.\<close>

definition with_suffix :: "path \<Rightarrow> string \<Rightarrow> path" where
  "with_suffix p s = (if p = [] then [s] else butlast p @ [last p @ s])"

text \<open>The path's own spelling below a root, with slashes: \<^verbatim>\<open>filepath.ToSlash\<close>.\<close>

fun slashed :: "path \<Rightarrow> string" where
  "slashed [] = []"
| "slashed [c] = c"
| "slashed (c # d # cs) = c @ slash # slashed (d # cs)"

definition plain_component :: "string \<Rightarrow> bool" where
  "plain_component c \<longleftrightarrow> c \<noteq> [] \<and> c \<noteq> ''.'' \<and> c \<noteq> ''..''"

lemma join_components_plain:
  "list_all plain_component cs \<Longrightarrow> join_components p cs = p @ cs"
  by (induction cs arbitrary: p) (auto simp: join_components_def walk_component_def plain_component_def)

lemma with_suffix_parent [simp]: "parent (with_suffix p s) = parent p"
  by (simp add: with_suffix_def parent_def)

lemma with_suffix_inject: "p \<noteq> [] \<Longrightarrow> q \<noteq> [] \<Longrightarrow> with_suffix p s = with_suffix q s \<longleftrightarrow> p = q"
  by (auto simp: with_suffix_def dest: append_butlast_last_id [symmetric])

lemma with_suffix_neq: "s \<noteq> [] \<Longrightarrow> p \<noteq> [] \<Longrightarrow> with_suffix p s \<noteq> p"
  by (metis append_self_conv last_snoc with_suffix_def)

section \<open>Disks\<close>

text \<open>A ZIP file is kept as its entries, name and content, in the order they were written.\<close>

datatype node = Directory | File string | Archive "(string \<times> string) list" | Link "string list"

type_synonym disk = "(path, node) go_map"

definition node_at :: "disk \<Rightarrow> path \<Rightarrow> node option" where
  "node_at fs p = (if p = [] then Some Directory else map_get fs p)"

datatype file_call =
    CallAbs | CallStat path | CallMkdir path | CallMkdirTemp path | CallLstat path | CallCreate path
  | CallWrite path | CallClose path | CallReadDir path | CallSymlink path | CallWriteFile path
  | CallCreateTemp path | CallZipCreate path | CallOpen path | CallCopy path | CallZipClose path
  | CallLink path | CallRename path | CallRemove path | CallRemoveAll path | CallReadFile path

type_synonym failures = "file_call \<Rightarrow> bool"

text \<open>A component of the path that is not a directory fails every call with \<^verbatim>\<open>ENOTDIR\<close>.\<close>

definition obstructed :: "disk \<Rightarrow> path \<Rightarrow> bool" where
  "obstructed fs p \<longleftrightarrow> list_ex (\<lambda>q. node_at fs q \<noteq> None \<and> node_at fs q \<noteq> Some Directory) (prefixes (butlast p))"

definition follow :: "disk \<Rightarrow> path \<Rightarrow> node option" where
  "follow fs p = (case node_at fs p of
     Some (Link target) \<Rightarrow> node_at fs (join_components (parent p) target)
   | other \<Rightarrow> other)"

text \<open>\<^verbatim>\<open>os.Stat\<close>: whether the path exists, or an error other than that it does not.\<close>

definition stat :: "failures \<Rightarrow> disk \<Rightarrow> path \<Rightarrow> factory_error + bool" where
  "stat io fs p =
     (if io (CallStat p) \<or> obstructed fs p then Inl (FInternal ''inspect output'')
      else Inr (follow fs p \<noteq> None))"

text \<open>\<^verbatim>\<open>os.MkdirAll\<close>: every missing ancestor is made, from the root down.\<close>

fun mkdir_each :: "failures \<Rightarrow> path list \<Rightarrow> disk \<Rightarrow> disk \<times> factory_error check" where
  "mkdir_each io [] fs = (fs, None)"
| "mkdir_each io (p # ps) fs =
     (case node_at fs p of
        Some Directory \<Rightarrow> mkdir_each io ps fs
      | Some _ \<Rightarrow> (fs, Some (FInternal ''create directory''))
      | None \<Rightarrow> if io (CallMkdir p) then (fs, Some (FInternal ''create directory''))
               else mkdir_each io ps (map_put p Directory fs))"

definition mkdir_all :: "failures \<Rightarrow> path \<Rightarrow> disk \<Rightarrow> disk \<times> factory_error check" where
  "mkdir_all io p fs = mkdir_each io (prefixes p) fs"

text \<open>\<^verbatim>\<open>os.MkdirTemp\<close> with the name it drew last; \<^verbatim>\<open>os.CreateTemp\<close> likewise.\<close>

definition mkdir_temp :: "failures \<Rightarrow> path \<Rightarrow> string \<Rightarrow> disk \<Rightarrow> disk \<times> (factory_error + path)" where
  "mkdir_temp io dir name fs =
     (let p = dir @ [name] in
      if io (CallMkdirTemp p) \<or> obstructed fs p \<or> node_at fs dir \<noteq> Some Directory \<or> node_at fs p \<noteq> None
      then (fs, Inl (FInternal ''create staging directory''))
      else (map_put p Directory fs, Inr p))"

definition create_temp :: "failures \<Rightarrow> path \<Rightarrow> string \<Rightarrow> disk \<Rightarrow> disk \<times> (factory_error + path)" where
  "create_temp io dir name fs =
     (let p = dir @ [name] in
      if io (CallCreateTemp p) \<or> node_at fs dir \<noteq> Some Directory \<or> node_at fs p \<noteq> None
      then (fs, Inl (FInternal ''create archive''))
      else (map_put p (File []) fs, Inr p))"

text \<open>\<^verbatim>\<open>os.Symlink\<close> and \<^verbatim>\<open>os.Link\<close> never replace what is there.\<close>

definition symlink :: "failures \<Rightarrow> string list \<Rightarrow> path \<Rightarrow> disk \<Rightarrow> disk \<times> factory_error check" where
  "symlink io target p fs =
     (if io (CallSymlink p) \<or> node_at fs p \<noteq> None then (fs, Some (FInternal ''link skill projection''))
      else (map_put p (Link target) fs, None))"

definition hard_link :: "failures \<Rightarrow> path \<Rightarrow> path \<Rightarrow> disk \<Rightarrow> disk \<times> factory_error check" where
  "hard_link io source p fs =
     (if io (CallLink p) \<or> node_at fs p \<noteq> None \<or> node_at fs source = None
      then (fs, Some (FInternal ''publish archive without overwrite''))
      else (map_put p (the (node_at fs source)) fs, None))"

text \<open>
  \<^verbatim>\<open>os.Rename\<close> of a directory: Go refuses a destination that is a directory, even an empty one, and
  the system refuses to put a directory in the place of anything else.
\<close>

definition rename_directory :: "failures \<Rightarrow> path \<Rightarrow> path \<Rightarrow> disk \<Rightarrow> disk \<times> factory_error check" where
  "rename_directory io source p fs =
     (if io (CallRename p) \<or> node_at fs p \<noteq> None \<or> prefix source p
      then (fs, Some (FInternal ''publish directory''))
      else (map (\<lambda>(q, n). (if prefix source q then p @ drop (length source) q else q, n)) fs, None))"

definition remove_file :: "failures \<Rightarrow> path \<Rightarrow> disk \<Rightarrow> disk \<times> factory_error check" where
  "remove_file io p fs =
     (if io (CallRemove p) then (fs, Some (FInternal ''remove'')) else (map_delete p fs, None))"

definition remove_all :: "failures \<Rightarrow> path \<Rightarrow> disk \<Rightarrow> disk" where
  "remove_all io p fs = (if io (CallRemoveAll p) then fs else filter (\<lambda>(q, n). \<not> prefix p q) fs)"

text \<open>\<^verbatim>\<open>os.Create\<close> on a path that holds nothing, or a file, which it truncates.\<close>

definition create_file :: "failures \<Rightarrow> path \<Rightarrow> disk \<Rightarrow> disk \<times> factory_error check" where
  "create_file io p fs =
     (if io (CallCreate p) \<or> node_at fs p = Some Directory then (fs, Some (FInternal ''create output''))
      else (map_put p (File []) fs, None))"

text \<open>\<^verbatim>\<open>os.ReadDir\<close>: the names below a directory, in order.\<close>

definition read_dir :: "failures \<Rightarrow> path \<Rightarrow> disk \<Rightarrow> factory_error + (string \<times> node) list" where
  "read_dir io p fs =
     (if io (CallReadDir p) \<or> node_at fs p \<noteq> Some Directory then Inl (FInternal ''read directory'')
      else Inr (sort_key fst (map (\<lambda>(q, n). (last q, n)) (filter (\<lambda>(q, n). q \<noteq> [] \<and> butlast q = p) fs))))"

text \<open>The content \<^verbatim>\<open>os.Open\<close> and a read to the end yield.\<close>

definition read_content :: "disk \<Rightarrow> path \<Rightarrow> string option" where
  "read_content fs p = (case follow fs p of Some (File s) \<Rightarrow> Some s | _ \<Rightarrow> None)"

text \<open>What \<^verbatim>\<open>filepath.WalkDir\<close> visits that is not a directory, in lexical order.\<close>

definition walk_files :: "disk \<Rightarrow> path \<Rightarrow> path list" where
  "walk_files fs p = sort (map fst (filter (\<lambda>(q, n). prefix p q \<and> n \<noteq> Directory) fs))"

end
