(* ===== verification/Factory_Templates.thy ===== *)
theory Factory_Templates
  imports Factory_Files
begin

text \<open>
  The embedded templates of the factory and the layers a recipe selects (\<^verbatim>\<open>render.go\<close>): which
  template becomes which output. The tree of names is that of the files below
  \<^verbatim>\<open>internal/factory/templates\<close>; their texts are not modelled. The main result is that for every
  combination the catalog offers, every layer exists and no two templates meet at one output.
\<close>

section \<open>The embedded files\<close>

datatype entry = EFile | EDir "(string \<times> entry) list"

definition common_templates :: entry where
  "common_templates = EDir
    [(''AGENTS.md.tmpl'', EFile), (''CLAUDE.md.tmpl'', EFile), (''DOMAIN.md.tmpl'', EFile),
     (''Makefile.tmpl'', EFile), (''README.md.tmpl'', EFile), (''REAPER.lock.yaml.tmpl'', EFile),
     (''WORK.md.tmpl'', EFile), (''gitignore.tmpl'', EFile),
     (''scripts'', EDir
      [(''check-work.sh.tmpl'', EFile), (''check.sh.tmpl'', EFile), (''demo.sh.tmpl'', EFile)]),
     (''skills'', EDir
      [(''add-targeting-attribute'', EDir
        [(''SKILL.md.tmpl'', EFile)]),
       (''change-deployment'', EDir
        [(''SKILL.md.tmpl'', EFile)]),
       (''explain-evaluation'', EDir
        [(''SKILL.md.tmpl'', EFile)]),
       (''onboard-domain'', EDir
        [(''SKILL.md.tmpl'', EFile)]),
       (''swap-database'', EDir
        [(''SKILL.md.tmpl'', EFile)])])]"

definition go_templates :: entry where
  "go_templates = EDir
    [(''base'', EDir
      [(''Dockerfile.tmpl'', EFile),
       (''cmd'', EDir
        [(''reaper-flags'', EDir
          [(''main.go.tmpl'', EFile)])]),
       (''internal'', EDir
        [(''api'', EDir
          [(''routes.go.tmpl'', EFile)]),
         (''flags'', EDir
          [(''audit.go.tmpl'', EFile), (''evaluate.go.tmpl'', EFile),
           (''evaluate_test.go.tmpl'', EFile), (''flag.go.tmpl'', EFile)])]),
       (''scripts'', EDir
        [(''check-language.sh.tmpl'', EFile), (''setup-language.sh.tmpl'', EFile),
         (''start-language.sh.tmpl'', EFile)])]),
     (''couchbase'', EDir
      [(''go.mod.tmpl'', EFile), (''go.sum.tmpl'', EFile),
       (''internal'', EDir
        [(''store'', EDir
          [(''couchbase'', EDir
            [(''couchbase.go.tmpl'', EFile)])])])]),
     (''mongodb'', EDir
      [(''go.mod.tmpl'', EFile), (''go.sum.tmpl'', EFile),
       (''internal'', EDir
        [(''store'', EDir
          [(''mongodb'', EDir
            [(''mongodb.go.tmpl'', EFile)])])])]),
     (''postgres'', EDir
      [(''go.mod.tmpl'', EFile), (''go.sum.tmpl'', EFile),
       (''internal'', EDir
        [(''store'', EDir
          [(''postgres'', EDir
            [(''postgres.go.tmpl'', EFile)])])])]),
     (''sqlite'', EDir
      [(''go.mod.tmpl'', EFile), (''go.sum.tmpl'', EFile),
       (''internal'', EDir
        [(''store'', EDir
          [(''sqlite'', EDir
            [(''sqlite.go.tmpl'', EFile)])])])])]"

definition python_templates :: entry where
  "python_templates = EDir
    [(''base'', EDir
      [(''Dockerfile.tmpl'', EFile), (''pyproject.toml.tmpl'', EFile),
       (''reaper_flags'', EDir
        [(''api'', EDir
          [(''authority.py.tmpl'', EFile), (''init.py.tmpl'', EFile), (''routes.py.tmpl'', EFile)]),
         (''flags'', EDir
          [(''audit.py.tmpl'', EFile), (''evaluate.py.tmpl'', EFile), (''flag.py.tmpl'', EFile),
           (''init.py.tmpl'', EFile), (''revision.py.tmpl'', EFile)]),
         (''init.py.tmpl'', EFile), (''main.py.tmpl'', EFile),
         (''store'', EDir
          [(''init.py.tmpl'', EFile)])]),
       (''requirements-dev.txt.tmpl'', EFile),
       (''scripts'', EDir
        [(''check-language.sh.tmpl'', EFile), (''setup-language.sh.tmpl'', EFile),
         (''start-language.sh.tmpl'', EFile)]),
       (''tests'', EDir
        [(''test_evaluate.py.tmpl'', EFile)])]),
     (''couchbase'', EDir
      [(''reaper_flags'', EDir
        [(''store'', EDir
          [(''couchbase.py.tmpl'', EFile)])]),
       (''requirements.txt.tmpl'', EFile)]),
     (''mongodb'', EDir
      [(''reaper_flags'', EDir
        [(''store'', EDir
          [(''mongodb.py.tmpl'', EFile)])]),
       (''requirements.txt.tmpl'', EFile)]),
     (''postgres'', EDir
      [(''reaper_flags'', EDir
        [(''store'', EDir
          [(''postgres.py.tmpl'', EFile)])]),
       (''requirements.txt.tmpl'', EFile)]),
     (''sqlite'', EDir
      [(''reaper_flags'', EDir
        [(''store'', EDir
          [(''sqlite.py.tmpl'', EFile)])]),
       (''requirements.txt.tmpl'', EFile)])]"

definition typescript_templates :: entry where
  "typescript_templates = EDir
    [(''base'', EDir
      [(''Dockerfile.tmpl'', EFile),
       (''scripts'', EDir
        [(''check-language.sh.tmpl'', EFile), (''setup-language.sh.tmpl'', EFile),
         (''start-language.sh.tmpl'', EFile)]),
       (''src'', EDir
        [(''api'', EDir
          [(''authority.ts.tmpl'', EFile), (''routes.ts.tmpl'', EFile)]),
         (''flags'', EDir
          [(''audit.ts.tmpl'', EFile), (''evaluate.test.ts.tmpl'', EFile),
           (''evaluate.ts.tmpl'', EFile), (''flag.ts.tmpl'', EFile),
           (''revision.ts.tmpl'', EFile)]),
         (''main.ts.tmpl'', EFile)]),
       (''tsconfig.json.tmpl'', EFile)]),
     (''couchbase'', EDir
      [(''package.json.tmpl'', EFile),
       (''src'', EDir
        [(''store'', EDir
          [(''couchbase.ts.tmpl'', EFile)])])]),
     (''mongodb'', EDir
      [(''package.json.tmpl'', EFile),
       (''src'', EDir
        [(''store'', EDir
          [(''mongodb.ts.tmpl'', EFile)])])]),
     (''postgres'', EDir
      [(''package.json.tmpl'', EFile),
       (''src'', EDir
        [(''store'', EDir
          [(''postgres.ts.tmpl'', EFile)])])]),
     (''sqlite'', EDir
      [(''package.json.tmpl'', EFile),
       (''src'', EDir
        [(''store'', EDir
          [(''sqlite.ts.tmpl'', EFile)])])])]"

definition deployment_templates :: entry where
  "deployment_templates = EDir
    [(''aws-ec2'', EDir
      [(''deploy'', EDir
        [(''aws-ec2'', EDir
          [(''README.md.tmpl'', EFile), (''main.tf.tmpl'', EFile), (''user-data.sh.tmpl'', EFile),
           (''variables.tf.tmpl'', EFile), (''versions.tf.tmpl'', EFile)])])]),
     (''aws-ecs'', EDir
      [(''deploy'', EDir
        [(''aws-ecs'', EDir
          [(''README.md.tmpl'', EFile), (''main.tf.tmpl'', EFile), (''variables.tf.tmpl'', EFile),
           (''versions.tf.tmpl'', EFile)])])]),
     (''docker'', EDir
      [(''deploy'', EDir
        [(''docker'', EDir
          [(''README.md.tmpl'', EFile), (''compose.yaml.tmpl'', EFile)])])]),
     (''gcp-cloud-run'', EDir
      [(''deploy'', EDir
        [(''gcp-cloud-run'', EDir
          [(''README.md.tmpl'', EFile), (''main.tf.tmpl'', EFile), (''variables.tf.tmpl'', EFile),
           (''versions.tf.tmpl'', EFile)])])]),
     (''kubernetes'', EDir
      [(''deploy'', EDir
        [(''kubernetes'', EDir
          [(''README.md.tmpl'', EFile),
           (''base'', EDir
            [(''availability.yaml.tmpl'', EFile), (''configuration.yaml.tmpl'', EFile),
             (''deployment.yaml.tmpl'', EFile), (''kustomization.yaml.tmpl'', EFile),
             (''service.yaml.tmpl'', EFile)]),
           (''secret.example.yaml.tmpl'', EFile)])])])]"

definition template_root :: entry where
  "template_root = EDir [(''templates'', EDir
     [(''common'', common_templates),
      (''deployments'', deployment_templates),
      (''languages'', EDir
        [(''go'', go_templates), (''python'', python_templates), (''typescript'', typescript_templates)])])]"

text \<open>Opening a path of the embedded file system, and the files a walk visits below it, in order.\<close>

fun open_entry :: "entry \<Rightarrow> string list \<Rightarrow> entry option" where
  "open_entry e [] = Some e"
| "open_entry EFile (c # cs) = None"
| "open_entry (EDir es) (c # cs) = (case map_of es c of None \<Rightarrow> None | Some e \<Rightarrow> open_entry e cs)"

fun walk_entry :: "entry \<Rightarrow> path list" where
  "walk_entry EFile = [[]]"
| "walk_entry (EDir es) = concat (map (\<lambda>(n, e). map ((#) n) (walk_entry e)) es)"

section \<open>Layers\<close>

text \<open>\<^verbatim>\<open>strings.ReplaceAll\<close> with a pattern that is not empty.\<close>

function replace_all :: "string \<Rightarrow> string \<Rightarrow> string \<Rightarrow> string" where
  "replace_all old new s =
     (if old = [] \<or> s = [] then s
      else if has_prefix s old then new @ replace_all old new (drop (length old) s)
      else hd s # replace_all old new (tl s))"
  by pat_completeness auto
termination by (relation "measure (\<lambda>(old, new, s). length s)") auto

declare replace_all.simps [simp del]

definition recipe_layers :: "recipe \<Rightarrow> path list" where
  "recipe_layers r =
     [[''templates'', ''common''],
      [''templates'', ''languages'', recipe_language r, ''base''],
      [''templates'', ''languages'', recipe_language r, recipe_database r],
      [''templates'', ''deployments'', recipe_target r]]"

text \<open>The renaming of a template, given by its path below its layer.\<close>

definition template_output :: "path \<Rightarrow> string" where
  "template_output relative =
     (let relative0 = slashed relative;
          relative1 = (if relative0 = ''gitignore.tmpl'' then ''.gitignore.tmpl'' else relative0);
          relative2 = replace_all ''/init.py.tmpl'' ''/__init__.py.tmpl'' relative1;
          relative3 = replace_all ''/main.py.tmpl'' ''/__main__.py.tmpl'' relative2
      in trim_suffix relative3 ''.tmpl'')"

section \<open>Outputs, component by component\<close>

definition tail_slashed :: "path \<Rightarrow> string" where
  "tail_slashed cs = concat (map (\<lambda>c. slash # c) cs)"

lemma slashed_Cons: "slashed (c # cs) = c @ tail_slashed cs"
proof (induction cs arbitrary: c)
  case (Cons d cs)
  then show ?case by (cases cs) (simp_all add: tail_slashed_def)
qed (simp add: tail_slashed_def)

lemma replace_all_Nil [simp]: "replace_all old new [] = []"
  by (subst replace_all.simps) simp

lemma replace_all_skip:
  "c \<notin> set a \<Longrightarrow> replace_all (c # old) new (a @ s) = a @ replace_all (c # old) new s"
proof (induction a)
  case (Cons x a)
  then have "\<not> has_prefix (x # a @ s) (c # old)" by (simp add: has_prefix_def)
  with Cons show ?case by (subst replace_all.simps) simp
qed simp

text \<open>A pattern that is a whole component after a slash replaces components.\<close>

lemma replace_all_components:
  assumes "slash \<notin> set old"
    and "list_all (\<lambda>d. slash \<notin> set d \<and> \<not> strict_prefix old d) cs"
  shows "replace_all (slash # old) (slash # new) (tail_slashed cs)
     = tail_slashed (map (\<lambda>d. if d = old then new else d) cs)"
  using assms(2)
proof (induction cs)
  case (Cons d cs)
  then have d: "slash \<notin> set d" "\<not> strict_prefix old d" by auto
  have rest: "tail_slashed cs = [] \<or> hd (tail_slashed cs) = slash"
    by (cases cs) (auto simp: tail_slashed_def)
  have pre: "has_prefix (slash # d @ tail_slashed cs) (slash # old) \<longleftrightarrow> d = old"
  proof
    assume "has_prefix (slash # d @ tail_slashed cs) (slash # old)"
    then have "prefix old (d @ tail_slashed cs)" by (simp add: has_prefix_def)
    then consider "prefix old d" | us where "old = d @ us" "us \<noteq> []" "prefix us (tail_slashed cs)"
      by (cases "prefix old d") (auto simp: prefix_append)
    then show "d = old"
    proof cases
      case 1
      with d(2) show ?thesis by (auto simp: strict_prefix_def)
    next
      case 2
      then have "slash \<in> set old" using rest by (cases us; cases "tail_slashed cs") auto
      with assms(1) show ?thesis by simp
    qed
  qed (simp add: has_prefix_def)
  show ?case
  proof (cases "d = old")
    case True
    have "replace_all (slash # old) (slash # new) (slash # d @ tail_slashed cs)
        = (slash # new) @ replace_all (slash # old) (slash # new) (tail_slashed cs)"
      by (subst replace_all.simps) (simp add: pre True has_prefix_def)
    with Cons True show ?thesis by (simp add: tail_slashed_def)
  next
    case False
    have "replace_all (slash # old) (slash # new) (slash # d @ tail_slashed cs)
        = slash # replace_all (slash # old) (slash # new) (d @ tail_slashed cs)"
      by (subst replace_all.simps) (simp add: pre False)
    also have "\<dots> = slash # d @ replace_all (slash # old) (slash # new) (tail_slashed cs)"
      using d(1) by (simp add: replace_all_skip)
    finally show ?thesis using Cons False by (simp add: tail_slashed_def)
  qed
qed (simp add: tail_slashed_def)

lemma split_on_slashed:
  "cs \<noteq> [] \<Longrightarrow> list_all (\<lambda>d. slash \<notin> set d) cs \<Longrightarrow> split_on slash (slashed cs) = cs"
proof (induction cs rule: slashed.induct)
  have skip: "split_on c (a @ s) = (case split_on c s of [] \<Rightarrow> [a] | p # ps \<Rightarrow> (a @ p) # ps)"
    if "c \<notin> set a" for c :: char and a s
    using that
  proof (induction a)
    case (Cons x a)
    then show ?case by (cases "split_on c s") auto
  qed (cases "split_on c s", auto)
  {
    case (2 c)
    then show ?case using skip [of slash c "[]"] by simp
  next
    case (3 c d cs)
    then show ?case using skip [of slash c "slash # slashed (d # cs)"] by simp
  }
qed simp


text \<open>The names the embedding may hold: the two renaming patterns never match inside a component.\<close>

definition nice_name :: "string \<Rightarrow> bool" where
  "nice_name d \<longleftrightarrow> slash \<notin> set d \<and> \<not> strict_prefix ''init.py.tmpl'' d \<and> \<not> strict_prefix ''main.py.tmpl'' d
     \<and> d \<noteq> ''main.py.tmpl.tmpl''"

definition renamed :: "string \<Rightarrow> string" where
  "renamed d = (if d = ''init.py.tmpl'' then ''__init__.py.tmpl''
     else if d = ''main.py.tmpl'' then ''__main__.py.tmpl'' else d)"

text \<open>What a template's path becomes, component by component.\<close>

definition output_components :: "path \<Rightarrow> path" where
  "output_components relative =
     (if relative = [''gitignore.tmpl''] then [''.gitignore'']
      else case relative of [] \<Rightarrow> []
      | c # cs \<Rightarrow> (let out = c # map renamed cs in butlast out @ [trim_suffix (last out) ''.tmpl'']))"

lemma slashed_snoc: "slashed (cs @ [c]) = (if cs = [] then c else slashed cs @ slash # c)"
  by (cases cs) (simp_all add: slashed_Cons tail_slashed_def)

lemma has_suffix_append: "has_suffix c t \<Longrightarrow> has_suffix (s @ c) t"
  by (auto simp: has_suffix_def suffix_append)

lemma trim_suffix_append_left:
  "has_suffix c t \<Longrightarrow> trim_suffix (s @ c) t = s @ trim_suffix c t"
  by (simp add: trim_suffix_def has_suffix_append) (auto simp: has_suffix_def suffix_def)

lemma trim_suffix_slashed:
  assumes "out \<noteq> []" and "has_suffix (last out) t"
  shows "trim_suffix (slashed out) t = slashed (butlast out @ [trim_suffix (last out) t])"
  using assms
proof (cases out rule: rev_cases)
  case (snoc ds d)
  with assms trim_suffix_append_left [of d t "slashed ds @ [slash]"] show ?thesis
    by (simp add: slashed_snoc)
qed simp

lemma slashed_single: "slash \<notin> set (slashed cs) \<longleftrightarrow> (case cs of [] \<Rightarrow> True | [c] \<Rightarrow> slash \<notin> set c | _ \<Rightarrow> False)"
  by (cases cs rule: slashed.cases) auto

lemma list_all_replaced:
  "P x \<Longrightarrow> list_all P cs \<Longrightarrow> list_all P (map (\<lambda>d. if d = y then x else d) cs)"
  by (induction cs) auto

lemma replace_in_path:
  assumes "slash \<notin> set c" and "slash \<notin> set old"
    and "list_all (\<lambda>d. slash \<notin> set d \<and> \<not> strict_prefix old d) cs"
  shows "replace_all (slash # old) (slash # new) (slashed (c # cs))
     = slashed (c # map (\<lambda>d. if d = old then new else d) cs)"
  using replace_all_components [OF assms(2,3)] replace_all_skip [OF assms(1)] by (simp add: slashed_Cons)

lemma template_output_components:
  assumes nice: "list_all nice_name relative" and ne: "relative \<noteq> []"
    and tmpl: "has_suffix (last relative) ''.tmpl''"
  shows "template_output relative = slashed (output_components relative)"
proof (cases "relative = [''gitignore.tmpl'']")
  case True
  have "slash \<notin> set ''.gitignore.tmpl''" by (simp add: slash_def)
  then have "replace_all (slash # old) new ''.gitignore.tmpl'' = ''.gitignore.tmpl''" for old new
    using replace_all_skip [of slash "''.gitignore.tmpl''" old new "[]"] by simp
  then have "replace_all ''/init.py.tmpl'' new ''.gitignore.tmpl'' = ''.gitignore.tmpl''"
    and "replace_all ''/main.py.tmpl'' new ''.gitignore.tmpl'' = ''.gitignore.tmpl''" for new
    unfolding slash_def by blast+
  with True show ?thesis
    using trim_suffix_append [of "''.gitignore''" "''.tmpl''"]
    by (simp add: template_output_def output_components_def)
next
  case False
  obtain c cs where rel: "relative = c # cs" using ne by (cases relative) auto
  have no_slash: "list_all (\<lambda>d. slash \<notin> set d) (c # cs)"
    using nice rel by (auto simp: nice_name_def list_all_iff)
  have "slash \<notin> set ''gitignore.tmpl''" by (simp add: slash_def)
  then have "slashed relative \<noteq> ''gitignore.tmpl''"
    using False slashed_single [of relative] by (metis rel list.exhaust list.simps(5) slashed.simps(2))
  moreover have "replace_all ''/init.py.tmpl'' ''/__init__.py.tmpl'' (slashed (c # cs))
      = slashed (c # map (\<lambda>d. if d = ''init.py.tmpl'' then ''__init__.py.tmpl'' else d) cs)"
  proof -
    have "list_all (\<lambda>d. slash \<notin> set d \<and> \<not> strict_prefix ''init.py.tmpl'' d) cs"
      using nice rel by (auto simp: list_all_iff nice_name_def)
    from replace_in_path [OF _ _ this, of c "''__init__.py.tmpl''"] no_slash show ?thesis
      by (simp add: slash_def)
  qed
  moreover have "replace_all ''/main.py.tmpl'' ''/__main__.py.tmpl''
        (slashed (c # map (\<lambda>d. if d = ''init.py.tmpl'' then ''__init__.py.tmpl'' else d) cs))
      = slashed (c # map renamed cs)"
  proof -
    let ?ds = "map (\<lambda>d. if d = ''init.py.tmpl'' then ''__init__.py.tmpl'' else d) cs"
    have "slash \<notin> set ''__init__.py.tmpl''" "\<not> strict_prefix ''main.py.tmpl'' ''__init__.py.tmpl''"
      by (simp_all add: slash_def strict_prefix_def)
    moreover have "list_all (\<lambda>d. slash \<notin> set d \<and> \<not> strict_prefix ''main.py.tmpl'' d) cs"
      using nice rel by (simp add: list_all_iff nice_name_def)
    ultimately have "list_all (\<lambda>d. slash \<notin> set d \<and> \<not> strict_prefix ''main.py.tmpl'' d) ?ds"
      by (intro list_all_replaced conjI)
    moreover have "map (\<lambda>d. if d = ''main.py.tmpl'' then ''__main__.py.tmpl'' else d) ?ds = map renamed cs"
      unfolding map_map by (rule map_cong [OF refl]) (simp add: renamed_def)
    moreover have "slash \<notin> set c" "slash \<notin> set ''main.py.tmpl''"
      using no_slash by (simp_all add: slash_def)
    ultimately show ?thesis
      using replace_in_path [of c "''main.py.tmpl''" ?ds "''__main__.py.tmpl''"]
      by (simp only: slash_def simp_thms HOL.simp_thms)
  qed
  ultimately have "template_output relative = trim_suffix (slashed (c # map renamed cs)) ''.tmpl''"
    by (simp add: template_output_def Let_def rel)
  also have "\<dots> = slashed (output_components relative)"
  proof -
    let ?out = "c # map renamed cs"
    have "has_suffix (last ?out) ''.tmpl''"
    proof (cases cs rule: rev_cases)
      case Nil
      with tmpl rel show ?thesis by simp
    next
      case (snoc ds d)
      with tmpl rel show ?thesis
        by (auto simp: renamed_def has_suffix_def suffix_to_prefix)
    qed
    then have "trim_suffix (slashed ?out) ''.tmpl'' = slashed (butlast ?out @ [trim_suffix (last ?out) ''.tmpl''])"
      by (intro trim_suffix_slashed) simp_all
    moreover have "output_components relative = butlast ?out @ [trim_suffix (last ?out) ''.tmpl'']"
      unfolding output_components_def rel Let_def using False rel by (simp only: if_False list.case)
    ultimately show ?thesis by (simp only:)
  qed
  finally show ?thesis .
qed

section \<open>The outputs of every layer\<close>

text \<open>What \<^verbatim>\<open>renderLayer\<close> visits, or nothing when the layer does not exist.\<close>

definition layer_files :: "path \<Rightarrow> path list option" where
  "layer_files layer = map_option walk_entry (open_entry template_root layer)"

definition layer_outputs :: "path \<Rightarrow> path list" where
  "layer_outputs layer = (case layer_files layer of None \<Rightarrow> [] | Some fs \<Rightarrow> map output_components fs)"

lemmas embedded = template_root_def common_templates_def go_templates_def python_templates_def
  typescript_templates_def deployment_templates_def

lemmas evaluate_outputs = layer_outputs_def layer_files_def embedded output_components_def renamed_def
  trim_suffix_def has_suffix_def suffix_to_prefix

lemma common_outputs: "layer_outputs [''templates'', ''common''] =
   [[''AGENTS.md''], [''CLAUDE.md''], [''DOMAIN.md''], [''Makefile''], [''README.md''],
    [''REAPER.lock.yaml''], [''WORK.md''], [''.gitignore''], [''scripts'', ''check-work.sh''],
    [''scripts'', ''check.sh''], [''scripts'', ''demo.sh''],
    [''skills'', ''add-targeting-attribute'', ''SKILL.md''],
    [''skills'', ''change-deployment'', ''SKILL.md''],
    [''skills'', ''explain-evaluation'', ''SKILL.md''],
    [''skills'', ''onboard-domain'', ''SKILL.md''], [''skills'', ''swap-database'', ''SKILL.md'']]"
  by (simp add: evaluate_outputs)

lemma go_base_outputs: "layer_outputs [''templates'', ''languages'', ''go'', ''base''] =
   [[''Dockerfile''], [''cmd'', ''reaper-flags'', ''main.go''],
    [''internal'', ''api'', ''routes.go''], [''internal'', ''flags'', ''audit.go''],
    [''internal'', ''flags'', ''evaluate.go''], [''internal'', ''flags'', ''evaluate_test.go''],
    [''internal'', ''flags'', ''flag.go''], [''scripts'', ''check-language.sh''],
    [''scripts'', ''setup-language.sh''], [''scripts'', ''start-language.sh'']]"
  by (simp add: evaluate_outputs)

lemma go_sqlite_outputs: "layer_outputs [''templates'', ''languages'', ''go'', ''sqlite''] =
   [[''go.mod''], [''go.sum''], [''internal'', ''store'', ''sqlite'', ''sqlite.go'']]"
  by (simp add: evaluate_outputs)

lemma go_postgres_outputs: "layer_outputs [''templates'', ''languages'', ''go'', ''postgres''] =
   [[''go.mod''], [''go.sum''], [''internal'', ''store'', ''postgres'', ''postgres.go'']]"
  by (simp add: evaluate_outputs)

lemma go_mongodb_outputs: "layer_outputs [''templates'', ''languages'', ''go'', ''mongodb''] =
   [[''go.mod''], [''go.sum''], [''internal'', ''store'', ''mongodb'', ''mongodb.go'']]"
  by (simp add: evaluate_outputs)

lemma go_couchbase_outputs: "layer_outputs [''templates'', ''languages'', ''go'', ''couchbase''] =
   [[''go.mod''], [''go.sum''], [''internal'', ''store'', ''couchbase'', ''couchbase.go'']]"
  by (simp add: evaluate_outputs)

lemma python_base_outputs: "layer_outputs [''templates'', ''languages'', ''python'', ''base''] =
   [[''Dockerfile''], [''pyproject.toml''], [''reaper_flags'', ''api'', ''authority.py''],
    [''reaper_flags'', ''api'', ''__init__.py''], [''reaper_flags'', ''api'', ''routes.py''],
    [''reaper_flags'', ''flags'', ''audit.py''], [''reaper_flags'', ''flags'', ''evaluate.py''],
    [''reaper_flags'', ''flags'', ''flag.py''], [''reaper_flags'', ''flags'', ''__init__.py''],
    [''reaper_flags'', ''flags'', ''revision.py''], [''reaper_flags'', ''__init__.py''],
    [''reaper_flags'', ''__main__.py''], [''reaper_flags'', ''store'', ''__init__.py''],
    [''requirements-dev.txt''], [''scripts'', ''check-language.sh''],
    [''scripts'', ''setup-language.sh''], [''scripts'', ''start-language.sh''],
    [''tests'', ''test_evaluate.py'']]"
  by (simp add: evaluate_outputs)

lemma python_sqlite_outputs: "layer_outputs [''templates'', ''languages'', ''python'', ''sqlite''] =
   [[''reaper_flags'', ''store'', ''sqlite.py''], [''requirements.txt'']]"
  by (simp add: evaluate_outputs)

lemma python_postgres_outputs: "layer_outputs [''templates'', ''languages'', ''python'', ''postgres''] =
   [[''reaper_flags'', ''store'', ''postgres.py''], [''requirements.txt'']]"
  by (simp add: evaluate_outputs)

lemma python_mongodb_outputs: "layer_outputs [''templates'', ''languages'', ''python'', ''mongodb''] =
   [[''reaper_flags'', ''store'', ''mongodb.py''], [''requirements.txt'']]"
  by (simp add: evaluate_outputs)

lemma python_couchbase_outputs: "layer_outputs [''templates'', ''languages'', ''python'', ''couchbase''] =
   [[''reaper_flags'', ''store'', ''couchbase.py''], [''requirements.txt'']]"
  by (simp add: evaluate_outputs)

lemma typescript_base_outputs: "layer_outputs [''templates'', ''languages'', ''typescript'', ''base''] =
   [[''Dockerfile''], [''scripts'', ''check-language.sh''], [''scripts'', ''setup-language.sh''],
    [''scripts'', ''start-language.sh''], [''src'', ''api'', ''authority.ts''],
    [''src'', ''api'', ''routes.ts''], [''src'', ''flags'', ''audit.ts''],
    [''src'', ''flags'', ''evaluate.test.ts''], [''src'', ''flags'', ''evaluate.ts''],
    [''src'', ''flags'', ''flag.ts''], [''src'', ''flags'', ''revision.ts''],
    [''src'', ''main.ts''], [''tsconfig.json'']]"
  by (simp add: evaluate_outputs)

lemma typescript_sqlite_outputs: "layer_outputs [''templates'', ''languages'', ''typescript'', ''sqlite''] =
   [[''package.json''], [''src'', ''store'', ''sqlite.ts'']]"
  by (simp add: evaluate_outputs)

lemma typescript_postgres_outputs: "layer_outputs [''templates'', ''languages'', ''typescript'', ''postgres''] =
   [[''package.json''], [''src'', ''store'', ''postgres.ts'']]"
  by (simp add: evaluate_outputs)

lemma typescript_mongodb_outputs: "layer_outputs [''templates'', ''languages'', ''typescript'', ''mongodb''] =
   [[''package.json''], [''src'', ''store'', ''mongodb.ts'']]"
  by (simp add: evaluate_outputs)

lemma typescript_couchbase_outputs: "layer_outputs [''templates'', ''languages'', ''typescript'', ''couchbase''] =
   [[''package.json''], [''src'', ''store'', ''couchbase.ts'']]"
  by (simp add: evaluate_outputs)

lemma docker_outputs: "layer_outputs [''templates'', ''deployments'', ''docker''] =
   [[''deploy'', ''docker'', ''README.md''], [''deploy'', ''docker'', ''compose.yaml'']]"
  by (simp add: evaluate_outputs)

lemma aws_ecs_outputs: "layer_outputs [''templates'', ''deployments'', ''aws-ecs''] =
   [[''deploy'', ''aws-ecs'', ''README.md''], [''deploy'', ''aws-ecs'', ''main.tf''],
    [''deploy'', ''aws-ecs'', ''variables.tf''], [''deploy'', ''aws-ecs'', ''versions.tf'']]"
  by (simp add: evaluate_outputs)

lemma aws_ec2_outputs: "layer_outputs [''templates'', ''deployments'', ''aws-ec2''] =
   [[''deploy'', ''aws-ec2'', ''README.md''], [''deploy'', ''aws-ec2'', ''main.tf''],
    [''deploy'', ''aws-ec2'', ''user-data.sh''], [''deploy'', ''aws-ec2'', ''variables.tf''],
    [''deploy'', ''aws-ec2'', ''versions.tf'']]"
  by (simp add: evaluate_outputs)

lemma gcp_cloud_run_outputs: "layer_outputs [''templates'', ''deployments'', ''gcp-cloud-run''] =
   [[''deploy'', ''gcp-cloud-run'', ''README.md''], [''deploy'', ''gcp-cloud-run'', ''main.tf''],
    [''deploy'', ''gcp-cloud-run'', ''variables.tf''],
    [''deploy'', ''gcp-cloud-run'', ''versions.tf'']]"
  by (simp add: evaluate_outputs)

lemma kubernetes_outputs: "layer_outputs [''templates'', ''deployments'', ''kubernetes''] =
   [[''deploy'', ''kubernetes'', ''README.md''],
    [''deploy'', ''kubernetes'', ''base'', ''availability.yaml''],
    [''deploy'', ''kubernetes'', ''base'', ''configuration.yaml''],
    [''deploy'', ''kubernetes'', ''base'', ''deployment.yaml''],
    [''deploy'', ''kubernetes'', ''base'', ''kustomization.yaml''],
    [''deploy'', ''kubernetes'', ''base'', ''service.yaml''],
    [''deploy'', ''kubernetes'', ''secret.example.yaml'']]"
  by (simp add: evaluate_outputs)

section \<open>No two outputs meet\<close>

text \<open>Two paths that can both hold a file: neither is the other or a directory above it.\<close>

definition apart :: "path \<Rightarrow> path \<Rightarrow> bool" where
  "apart p q \<longleftrightarrow> \<not> prefix p q \<and> \<not> prefix q p"

fun apart_list :: "path list \<Rightarrow> bool" where
  "apart_list [] = True"
| "apart_list (p # ps) = (list_all (apart p) ps \<and> apart_list ps)"

lemma apart_sym: "apart p q \<longleftrightarrow> apart q p"
  by (auto simp: apart_def)

lemma apart_list_append:
  "apart_list (xs @ ys) \<longleftrightarrow> apart_list xs \<and> apart_list ys \<and> (\<forall>x \<in> set xs. \<forall>y \<in> set ys. apart x y)"
  by (induction xs) (auto simp: list_all_iff)

lemma apart_heads:
  "p \<noteq> [] \<Longrightarrow> q \<noteq> [] \<Longrightarrow> hd p \<noteq> hd q \<Longrightarrow> apart p q"
  by (cases p; cases q) (auto simp: apart_def)

definition languages :: "string list" where
  "languages = [''go'', ''typescript'', ''python'']"

definition databases :: "string list" where
  "databases = [''sqlite'', ''postgres'', ''mongodb'', ''couchbase'']"

definition targets :: "string list" where
  "targets = [''docker'', ''aws-ecs'', ''aws-ec2'', ''gcp-cloud-run'', ''kubernetes'']"

abbreviation base_layer :: "string \<Rightarrow> path" where
  "base_layer l \<equiv> [''templates'', ''languages'', l, ''base'']"

abbreviation database_layer :: "string \<Rightarrow> string \<Rightarrow> path" where
  "database_layer l d \<equiv> [''templates'', ''languages'', l, d]"

abbreviation deployment_layer :: "string \<Rightarrow> path" where
  "deployment_layer t \<equiv> [''templates'', ''deployments'', t]"

abbreviation common_layer :: path where
  "common_layer \<equiv> [''templates'', ''common'']"

lemmas go_outputs = go_base_outputs go_sqlite_outputs go_postgres_outputs go_mongodb_outputs
  go_couchbase_outputs
lemmas python_outputs = python_base_outputs python_sqlite_outputs python_postgres_outputs
  python_mongodb_outputs python_couchbase_outputs
lemmas typescript_outputs = typescript_base_outputs typescript_sqlite_outputs
  typescript_postgres_outputs typescript_mongodb_outputs typescript_couchbase_outputs
lemmas target_outputs = docker_outputs aws_ecs_outputs aws_ec2_outputs gcp_cloud_run_outputs
  kubernetes_outputs

definition plain_output :: "path \<Rightarrow> bool" where
  "plain_output p \<longleftrightarrow> p \<noteq> [] \<and> list_all (\<lambda>c. plain_component c \<and> slash \<notin> set c) p"

text \<open>What the factory adds to the layers: the skill projections and the recipe.\<close>

definition added_heads :: "string list" where
  "added_heads = [''.agents'', ''.claude'', ''REAPER.yaml'']"

definition good_outputs :: "path list \<Rightarrow> bool" where
  "good_outputs ps \<longleftrightarrow> apart_list ps \<and> list_all plain_output ps
     \<and> list_all (\<lambda>p. hd p \<notin> set added_heads) ps"

lemma good_outputs_append:
  "good_outputs (xs @ ys) \<longleftrightarrow> good_outputs xs \<and> good_outputs ys \<and> (\<forall>x \<in> set xs. \<forall>y \<in> set ys. apart x y)"
  by (auto simp: good_outputs_def apart_list_append)

lemma apart_step:
  "\<not> apart [] q" "\<not> apart p []" "apart (a # p) (b # q) \<longleftrightarrow> a \<noteq> b \<or> apart p q"
  by (auto simp: apart_def)

lemmas evaluate_good = good_outputs_def apart_step plain_output_def plain_component_def slash_def
  added_heads_def

definition source_outputs :: "string \<Rightarrow> string \<Rightarrow> path list" where
  "source_outputs l d =
     layer_outputs common_layer @ layer_outputs (base_layer l) @ layer_outputs (database_layer l d)"

definition good_sources :: "path list \<Rightarrow> bool" where
  "good_sources ps \<longleftrightarrow> good_outputs ps \<and> list_all (\<lambda>p. hd p \<noteq> ''deploy'') ps"

definition apart_lists :: "path list \<Rightarrow> path list \<Rightarrow> bool" where
  "apart_lists ps qs \<longleftrightarrow> list_all (\<lambda>p. list_all (apart p) qs) ps"

lemma good_sources_append:
  "good_sources (xs @ ys) \<longleftrightarrow> good_sources xs \<and> good_sources ys \<and> apart_lists xs ys"
  by (auto simp: good_sources_def good_outputs_append apart_lists_def list_all_iff)

lemmas evaluate_sources = good_sources_def apart_lists_def evaluate_good

lemma common_good: "good_sources (layer_outputs common_layer)"
  by (simp add: common_outputs evaluate_sources)

lemma go_base_good:
  "good_sources (layer_outputs (base_layer ''go''))"
  "apart_lists (layer_outputs common_layer) (layer_outputs (base_layer ''go''))"
  by (simp_all add: common_outputs go_base_outputs evaluate_sources)

lemma go_sqlite_good: "good_sources (source_outputs ''go'' ''sqlite'')"
  unfolding source_outputs_def good_sources_append
  by (simp add: common_good go_base_good)
     (simp add: common_outputs go_base_outputs go_sqlite_outputs evaluate_sources)

lemma go_postgres_good: "good_sources (source_outputs ''go'' ''postgres'')"
  unfolding source_outputs_def good_sources_append
  by (simp add: common_good go_base_good)
     (simp add: common_outputs go_base_outputs go_postgres_outputs evaluate_sources)

lemma go_mongodb_good: "good_sources (source_outputs ''go'' ''mongodb'')"
  unfolding source_outputs_def good_sources_append
  by (simp add: common_good go_base_good)
     (simp add: common_outputs go_base_outputs go_mongodb_outputs evaluate_sources)

lemma go_couchbase_good: "good_sources (source_outputs ''go'' ''couchbase'')"
  unfolding source_outputs_def good_sources_append
  by (simp add: common_good go_base_good)
     (simp add: common_outputs go_base_outputs go_couchbase_outputs evaluate_sources)

lemma python_base_good:
  "good_sources (layer_outputs (base_layer ''python''))"
  "apart_lists (layer_outputs common_layer) (layer_outputs (base_layer ''python''))"
  by (simp_all add: common_outputs python_base_outputs evaluate_sources)

lemma python_sqlite_good: "good_sources (source_outputs ''python'' ''sqlite'')"
  unfolding source_outputs_def good_sources_append
  by (simp add: common_good python_base_good)
     (simp add: common_outputs python_base_outputs python_sqlite_outputs evaluate_sources)

lemma python_postgres_good: "good_sources (source_outputs ''python'' ''postgres'')"
  unfolding source_outputs_def good_sources_append
  by (simp add: common_good python_base_good)
     (simp add: common_outputs python_base_outputs python_postgres_outputs evaluate_sources)

lemma python_mongodb_good: "good_sources (source_outputs ''python'' ''mongodb'')"
  unfolding source_outputs_def good_sources_append
  by (simp add: common_good python_base_good)
     (simp add: common_outputs python_base_outputs python_mongodb_outputs evaluate_sources)

lemma python_couchbase_good: "good_sources (source_outputs ''python'' ''couchbase'')"
  unfolding source_outputs_def good_sources_append
  by (simp add: common_good python_base_good)
     (simp add: common_outputs python_base_outputs python_couchbase_outputs evaluate_sources)

lemma typescript_base_good:
  "good_sources (layer_outputs (base_layer ''typescript''))"
  "apart_lists (layer_outputs common_layer) (layer_outputs (base_layer ''typescript''))"
  by (simp_all add: common_outputs typescript_base_outputs evaluate_sources)

lemma typescript_sqlite_good: "good_sources (source_outputs ''typescript'' ''sqlite'')"
  unfolding source_outputs_def good_sources_append
  by (simp add: common_good typescript_base_good)
     (simp add: common_outputs typescript_base_outputs typescript_sqlite_outputs evaluate_sources)

lemma typescript_postgres_good: "good_sources (source_outputs ''typescript'' ''postgres'')"
  unfolding source_outputs_def good_sources_append
  by (simp add: common_good typescript_base_good)
     (simp add: common_outputs typescript_base_outputs typescript_postgres_outputs evaluate_sources)

lemma typescript_mongodb_good: "good_sources (source_outputs ''typescript'' ''mongodb'')"
  unfolding source_outputs_def good_sources_append
  by (simp add: common_good typescript_base_good)
     (simp add: common_outputs typescript_base_outputs typescript_mongodb_outputs evaluate_sources)

lemma typescript_couchbase_good: "good_sources (source_outputs ''typescript'' ''couchbase'')"
  unfolding source_outputs_def good_sources_append
  by (simp add: common_good typescript_base_good)
     (simp add: common_outputs typescript_base_outputs typescript_couchbase_outputs evaluate_sources)

lemma target_good: "t \<in> set targets \<Longrightarrow>
    good_outputs (layer_outputs (deployment_layer t))
    \<and> list_all (\<lambda>p. hd p = ''deploy'') (layer_outputs (deployment_layer t))"
  unfolding targets_def by (simp only: list.set insert_iff empty_iff, elim disjE)
    (simp_all add: target_outputs evaluate_good)

text \<open>
  The outputs of a recipe's four layers, in the order they are rendered.
\<close>

definition recipe_outputs :: "recipe \<Rightarrow> path list" where
  "recipe_outputs r = concat (map layer_outputs (recipe_layers r))"

lemma recipe_outputs_sources:
  "recipe_outputs r = source_outputs (recipe_language r) (recipe_database r)
     @ layer_outputs (deployment_layer (recipe_target r))"
  by (simp add: recipe_outputs_def recipe_layers_def source_outputs_def)

lemma catalog_language_values: "choice_values (catalog_languages product_catalog) = languages"
  by (simp add: product_catalog_def choices_of_def choice_values_def pack_tables languages_def)

lemma find_language_values: "find_language v \<noteq> None \<Longrightarrow> v \<in> set languages"
  unfolding find_language_None catalog_language_values by blast

lemma find_database_values: "find_database v \<noteq> None \<Longrightarrow> v \<in> set databases"
proof -
  assume "find_database v \<noteq> None"
  then obtain d where "find_database v = Some d" by blast
  from find_database_facts [OF this] show ?thesis unfolding databases_def list.set by (rule conjunct1)
qed

lemma find_deployment_values: "find_deployment v \<noteq> None \<Longrightarrow> v \<in> set targets"
proof -
  assume "find_deployment v \<noteq> None"
  then obtain d where "find_deployment v = Some d" by blast
  from find_deployment_facts [OF this] show ?thesis
    unfolding targets_def list.set insert_iff empty_iff by blast
qed

lemma source_outputs_good:
  assumes "l \<in> set languages" and "d \<in> set databases"
  shows "good_sources (source_outputs l d)"
proof -
  from assms(1) have l: "l = ''go'' \<or> l = ''typescript'' \<or> l = ''python''" by (simp add: languages_def)
  from assms(2) have d: "d = ''sqlite'' \<or> d = ''postgres'' \<or> d = ''mongodb'' \<or> d = ''couchbase''"
    by (simp add: databases_def)
  from l d show ?thesis
    by (elim disjE; hypsubst; intro go_sqlite_good go_postgres_good go_mongodb_good go_couchbase_good
        python_sqlite_good python_postgres_good python_mongodb_good python_couchbase_good
        typescript_sqlite_good typescript_postgres_good typescript_mongodb_good typescript_couchbase_good)
qed

lemma recipe_outputs_good:
  assumes "validate_selections r = None"
  shows "good_outputs (recipe_outputs r)"
proof -
  from assms have l: "recipe_language r \<in> set languages" and d: "recipe_database r \<in> set databases"
      and t: "recipe_target r \<in> set targets"
    unfolding selections_None using find_language_values find_database_values find_deployment_values
    by blast+
  note s = source_outputs_good [OF l d] and g = target_good [OF t]
  have "apart p q" if "p \<in> set (source_outputs (recipe_language r) (recipe_database r))"
      and "q \<in> set (layer_outputs (deployment_layer (recipe_target r)))" for p q
    using that s g
    by (intro apart_heads) (auto simp: good_sources_def good_outputs_def plain_output_def list_all_iff)
  with s g show ?thesis
    unfolding recipe_outputs_sources good_outputs_append by (simp add: good_sources_def)
qed

text \<open>Every layer exists, and its names are ones the renaming treats component by component.\<close>

fun nice_entry :: "string \<Rightarrow> entry \<Rightarrow> bool" where
  "nice_entry n EFile = (nice_name n \<and> has_suffix n ''.tmpl'')"
| "nice_entry n (EDir es) = (nice_name n \<and> list_all (\<lambda>(m, e). nice_entry m e) es)"

lemma nice_walk:
  "nice_entry n e \<Longrightarrow> rel \<in> set (walk_entry e) \<Longrightarrow>
     list_all nice_name (n # rel) \<and> has_suffix (last (n # rel)) ''.tmpl''"
proof (induction n e arbitrary: rel rule: nice_entry.induct)
  case (2 n es)
  from "2.prems"(2) obtain m e rel' where me: "(m, e) \<in> set es" and rel: "rel = m # rel'"
      and rel': "rel' \<in> set (walk_entry e)" by auto
  with "2.prems"(1) have "nice_entry m e" "nice_name n" by (auto simp: list_all_iff)
  with "2.IH" [OF me refl _ rel'] rel show ?case by simp
qed simp

lemma nice_open:
  "nice_entry n e \<Longrightarrow> open_entry e cs = Some e' \<Longrightarrow> \<exists>m. nice_entry m e'"
  by (induction e cs arbitrary: n rule: open_entry.induct)
     (auto simp: list_all_iff split: option.splits dest!: map_of_SomeD)

lemmas evaluate_nice = nice_name_def slash_def strict_prefix_def has_suffix_def suffix_to_prefix

lemma nice_common: "nice_entry ''common'' common_templates"
  by (simp add: common_templates_def evaluate_nice)

lemma nice_go: "nice_entry ''go'' go_templates"
  by (simp add: go_templates_def evaluate_nice)

lemma nice_python: "nice_entry ''python'' python_templates"
  by (simp add: python_templates_def evaluate_nice)

lemma nice_typescript: "nice_entry ''typescript'' typescript_templates"
  by (simp add: typescript_templates_def evaluate_nice)

lemma nice_deployments: "nice_entry ''deployments'' deployment_templates"
  by (simp add: deployment_templates_def evaluate_nice)

lemma nice_root: "nice_entry [] template_root"
  by (simp add: template_root_def nice_common nice_go nice_python nice_typescript nice_deployments)
     (simp add: evaluate_nice)

lemma layer_file_nice:
  assumes "open_entry template_root layer = Some (EDir es)" and "rel \<in> set (walk_entry (EDir es))"
  shows "list_all nice_name rel \<and> rel \<noteq> [] \<and> has_suffix (last rel) ''.tmpl''"
proof -
  from nice_open [OF nice_root assms(1)] obtain m where "nice_entry m (EDir es)" by blast
  from nice_walk [OF this assms(2)] have "list_all nice_name rel" "has_suffix (last (m # rel)) ''.tmpl''"
    by simp_all
  moreover have "rel \<noteq> []" using assms(2) by auto
  ultimately show ?thesis by simp
qed

text \<open>The four layers of a recipe whose selections are registered are directories.\<close>

lemma layer_is_directory:
  assumes "validate_selections r = None" and "layer \<in> set (recipe_layers r)"
  shows "\<exists>es. open_entry template_root layer = Some (EDir es)"
proof -
  have l: "\<exists>es. open_entry template_root (base_layer l) = Some (EDir es)"
      "list_all (\<lambda>d. \<exists>es. open_entry template_root (database_layer l d) = Some (EDir es)) databases"
    if "l \<in> set languages" for l
    using that unfolding languages_def list.set insert_iff empty_iff
    by (elim disjE; simp add: embedded databases_def)+
  have t: "list_all (\<lambda>t. \<exists>es. open_entry template_root (deployment_layer t) = Some (EDir es)) targets"
    by (simp add: embedded targets_def)
  have c: "\<exists>es. open_entry template_root common_layer = Some (EDir es)"
    by (simp add: embedded)
  from assms(1) have "recipe_language r \<in> set languages" "recipe_database r \<in> set databases"
      "recipe_target r \<in> set targets"
    unfolding selections_None using find_language_values find_database_values find_deployment_values
    by blast+
  with assms(2) l t c show ?thesis unfolding recipe_layers_def list_all_iff by auto
qed

lemma output_path:
  assumes r: "validate_selections r = None" and layer: "layer \<in> set (recipe_layers r)"
    and files: "layer_files layer = Some fs" and rel: "rel \<in> set fs"
  shows "join_path staging (template_output rel) = staging @ output_components rel"
    and "output_components rel \<in> set (recipe_outputs r)" and "plain_output (output_components rel)"
proof -
  obtain es where es: "open_entry template_root layer = Some (EDir es)"
    using layer_is_directory [OF r layer] by blast
  with files have fs: "fs = walk_entry (EDir es)" by (simp add: layer_files_def)
  from files rel have "output_components rel \<in> set (layer_outputs layer)"
    by (simp add: layer_outputs_def)
  with layer show out: "output_components rel \<in> set (recipe_outputs r)"
    by (auto simp: recipe_outputs_def)
  with recipe_outputs_good [OF r] show plain: "plain_output (output_components rel)"
    by (auto simp: good_outputs_def list_all_iff)
  have "template_output rel = slashed (output_components rel)"
    using layer_file_nice [OF es] rel fs by (intro template_output_components) auto
  moreover have "split_on slash (slashed (output_components rel)) = output_components rel"
    using plain by (intro split_on_slashed) (auto simp: plain_output_def list_all_iff)
  ultimately show "join_path staging (template_output rel) = staging @ output_components rel"
    using plain by (simp add: join_path_def join_components_plain plain_output_def list_all_iff)
qed

text \<open>Where a recipe's templates are written below a staging directory, in the order of writing.\<close>

definition rendered_paths :: "path \<Rightarrow> recipe \<Rightarrow> path list" where
  "rendered_paths staging r = concat (map (\<lambda>layer. case layer_files layer of None \<Rightarrow> []
     | Some fs \<Rightarrow> map (\<lambda>rel. join_path staging (template_output rel)) fs) (recipe_layers r))"

lemma rendered_paths_outputs:
  assumes "validate_selections r = None"
  shows "rendered_paths staging r = map (\<lambda>o'. staging @ o') (recipe_outputs r)"
proof -
  have "map (\<lambda>rel. join_path staging (template_output rel)) fs = map (\<lambda>o'. staging @ o') (layer_outputs layer)"
    if "layer \<in> set (recipe_layers r)" "layer_files layer = Some fs" for layer fs
    using output_path(1) [OF assms that] that(2) by (simp add: layer_outputs_def)
  moreover have "layer_files layer \<noteq> None" if "layer \<in> set (recipe_layers r)" for layer
    using layer_is_directory [OF assms that] by (auto simp: layer_files_def)
  ultimately show ?thesis
    unfolding rendered_paths_def recipe_outputs_def map_concat map_map
    by (intro arg_cong [where f = concat] map_cong refl) (fastforce split: option.split)
qed

lemma apart_list_prepend: "apart_list (map (\<lambda>o'. p @ o') ps) \<longleftrightarrow> apart_list ps"
  by (induction ps) (auto simp: list_all_iff apart_def)

text \<open>
  C36: the layers compose without collision. For every recipe whose selections are registered, each
  of the four layers \<^verbatim>\<open>renderRepository\<close> walks exists among the embedded templates, and after the
  renaming of \<^verbatim>\<open>renderLayer\<close> no two templates are written to one path, none is written where another
  needs a directory, none leaves the staging directory, and none takes the place of the skill
  projections or of \<^verbatim>\<open>REAPER.yaml\<close>.
\<close>

theorem template_outputs_apart:
  assumes "validate_selections r = None"
  shows "list_all (\<lambda>layer. layer_files layer \<noteq> None) (recipe_layers r)
    \<and> apart_list (rendered_paths staging r)
    \<and> list_all (\<lambda>p. strict_prefix staging p \<and> p ! length staging \<notin> set added_heads) (rendered_paths staging r)"
proof -
  have "layer_files layer \<noteq> None" if "layer \<in> set (recipe_layers r)" for layer
    using layer_is_directory [OF assms that] by (auto simp: layer_files_def)
  moreover note good = recipe_outputs_good [OF assms]
  moreover have "strict_prefix staging (staging @ o') \<and> (staging @ o') ! length staging \<notin> set added_heads"
    if "o' \<in> set (recipe_outputs r)" for o'
    using good that
    by (auto simp: good_outputs_def list_all_iff plain_output_def strict_prefix_def nth_append hd_conv_nth)
  ultimately show ?thesis
    unfolding rendered_paths_outputs [OF assms] by (simp add: apart_list_prepend good_outputs_def list_all_iff)
qed

lemma default_selections: "validate_selections default_recipe = None"
  by (simp add: selections_None find_None catalog_language_values)
     (simp add: default_recipe_def languages_def product_catalog_def choice_values_def
        database_choices_def deployment_choices_def delivery_choices_def pack_tables)

theorem template_outputs_apart_witness:
  "apart_list (rendered_paths [''tmp''] default_recipe)"
  using template_outputs_apart [OF default_selections, of "[''tmp'']"] by blast

end
