(* ===== verification/Factory_Render.thy ===== *)
theory Factory_Render
  imports Factory_Templates
begin

text \<open>
  Generating a repository (\<^verbatim>\<open>render.go\<close>, \<^verbatim>\<open>archive.go\<close> in \<^verbatim>\<open>internal/factory\<close>): the destination is
  checked, the layers are rendered into a fresh staging directory next to it, and the delivery pack
  publishes the directory, the archive, or both; the staging directory and the archive's temporary
  file are removed on every path. The template engine, the YAML encoder, the JSON quoting and
  SHA-256 are parameters. What is shown: generation is all or nothing and overwrites nothing.
\<close>

section \<open>The data a template sees\<close>

record render_data =
  data_recipe :: recipe
  data_version :: string
  data_digest :: string
  data_attributes :: string
  data_literals :: "string list"
  data_module :: string
  data_policy_path :: string
  data_proof_path :: string
  data_language_version :: string
  data_database_version :: string
  data_deployment_version :: string
  data_delivery_version :: string

text \<open>
  \<^verbatim>\<open>yaml.Marshal\<close> on a recipe, \<^verbatim>\<open>json.Marshal\<close> on a string, SHA-256, and \<^verbatim>\<open>text/template\<close>: whether
  the template at a path parses, and what executing it writes, if it does not fail.
\<close>

record engine =
  engine_yaml :: "recipe \<Rightarrow> string option"
  engine_json :: "string \<Rightarrow> string option"
  engine_sha256 :: digest
  engine_parses :: "path \<Rightarrow> bool"
  engine_execute :: "path \<Rightarrow> render_data \<Rightarrow> string option"

definition factory_version :: string where
  "factory_version = ''0.8.1''"

definition policy_paths :: "(string, string) go_map" where
  "policy_paths = [(''go'', ''internal/flags/''), (''typescript'', ''src/flags/''),
     (''python'', ''reaper_flags/flags/'')]"

definition proof_paths :: "(string, string) go_map" where
  "proof_paths = [(''go'', ''internal/flags/evaluate_test.go''),
     (''typescript'', ''src/flags/evaluate.test.ts''), (''python'', ''tests/test_evaluate.py'')]"

definition map_or_empty :: "(string, string) go_map \<Rightarrow> string \<Rightarrow> string" where
  "map_or_empty m k = (case map_get m k of None \<Rightarrow> [] | Some v \<Rightarrow> v)"

fun join_comma :: "string list \<Rightarrow> string" where
  "join_comma [] = []"
| "join_comma [x] = x"
| "join_comma (x # y # ys) = x @ '', '' @ join_comma (y # ys)"

fun quote_all :: "engine \<Rightarrow> string list \<Rightarrow> factory_error + string list" where
  "quote_all E [] = Inr []"
| "quote_all E (a # as) =
     (case engine_json E a of
        None \<Rightarrow> Inl (FInternal ''encode targeting attribute'')
      | Some q \<Rightarrow> (case quote_all E as of Inl e \<Rightarrow> Inl e | Inr qs \<Rightarrow> Inr (q # qs)))"

definition encode_recipe :: "engine \<Rightarrow> recipe \<Rightarrow> factory_error + string" where
  "encode_recipe E r = (case engine_yaml E r of None \<Rightarrow> Inl (FInternal ''encode recipe'') | Some d \<Rightarrow> Inr d)"

definition version_of :: "pack option \<Rightarrow> string" where
  "version_of p = (case p of None \<Rightarrow> [] | Some p \<Rightarrow> pack_version p)"

definition new_render_data :: "engine \<Rightarrow> recipe \<Rightarrow> factory_error + render_data" where
  "new_render_data E r =
     (case encode_recipe E r of
        Inl e \<Rightarrow> Inl e
      | Inr encoded \<Rightarrow>
        (case quote_all E (recipe_attributes r) of
           Inl e \<Rightarrow> Inl e
         | Inr quoted \<Rightarrow>
           Inr \<lparr>data_recipe = r, data_version = factory_version,
             data_digest = ''sha256:'' @ hex_encode (engine_sha256 E encoded),
             data_attributes = join_comma quoted, data_literals = quoted,
             data_module = map (\<lambda>c. if c = CHR ''-'' then CHR ''_'' else c) (recipe_name r),
             data_policy_path = map_or_empty policy_paths (recipe_language r),
             data_proof_path = map_or_empty proof_paths (recipe_language r),
             data_language_version = version_of (find_language (recipe_language r)),
             data_database_version = version_of (map_option database_base (find_database (recipe_database r))),
             data_deployment_version = version_of (map_option deployment_base (find_deployment (recipe_target r))),
             data_delivery_version = version_of (map_option delivery_base (find_delivery (recipe_delivery r)))\<rparr>))"

section \<open>Rendering\<close>

text \<open>
  A step on the disk that can fail, and doing one after the other; the disk keeps what was done
  before the failure.
\<close>

type_synonym disk_step = "disk \<Rightarrow> disk \<times> factory_error check"

definition then_do :: "disk_step \<Rightarrow> disk_step \<Rightarrow> disk_step" where
  "then_do f g fs = (case f fs of (fs1, Some e) \<Rightarrow> (fs1, Some e) | (fs1, None) \<Rightarrow> g fs1)"

fun do_each :: "('a \<Rightarrow> disk_step) \<Rightarrow> 'a list \<Rightarrow> disk_step" where
  "do_each f [] fs = (fs, None)"
| "do_each f (x # xs) fs = then_do (f x) (do_each f xs) fs"

definition fail_when :: "bool \<Rightarrow> string \<Rightarrow> disk_step" where
  "fail_when b message fs = (fs, when_err b (FInternal message))"

definition lstat_free :: "failures \<Rightarrow> path \<Rightarrow> disk_step" where
  "lstat_free io p fs =
     (fs, if io (CallLstat p) then Some (FInternal ''inspect output'')
          else when_err (node_at fs p \<noteq> None) (FInternal ''template output collision''))"

definition execute_template :: "failures \<Rightarrow> engine \<Rightarrow> path \<Rightarrow> path \<Rightarrow> render_data \<Rightarrow> disk_step" where
  "execute_template io E source p data fs =
     (case engine_execute E source data of
        None \<Rightarrow> (fs, Some (FInternal ''render output''))
      | Some text \<Rightarrow>
          if io (CallWrite p) then (fs, Some (FInternal ''render output''))
          else (map_put p (File text) fs, when_err (io (CallClose p)) (FInternal ''close output'')))"

definition render_file :: "failures \<Rightarrow> engine \<Rightarrow> path \<Rightarrow> path \<Rightarrow> render_data \<Rightarrow> disk_step" where
  "render_file io E source p data =
     then_do (fail_when (\<not> engine_parses E source) ''parse template'')
    (then_do (mkdir_all io (parent p))
    (then_do (lstat_free io p)
    (then_do (create_file io p)
             (execute_template io E source p data))))"

definition render_layer :: "failures \<Rightarrow> engine \<Rightarrow> path \<Rightarrow> render_data \<Rightarrow> path \<Rightarrow> disk_step" where
  "render_layer io E staging data layer fs =
     (case layer_files layer of
        None \<Rightarrow> (fs, Some (FInternal ''walk templates''))
      | Some rels \<Rightarrow>
          do_each (\<lambda>rel. render_file io E (layer @ rel) (join_path staging (template_output rel)) data)
            rels fs)"

definition project_skill :: "failures \<Rightarrow> path \<Rightarrow> string \<Rightarrow> string \<Rightarrow> disk_step" where
  "project_skill io root name platform =
     (let directory = root @ [platform, ''skills'', name] in
      then_do (mkdir_all io directory)
              (symlink io [''..'', ''..'', ''..'', ''skills'', name, ''SKILL.md'']
                 (directory @ [''SKILL.md''])))"

definition project_skills :: "failures \<Rightarrow> path \<Rightarrow> disk_step" where
  "project_skills io root fs =
     (case read_dir io (root @ [''skills'']) fs of
        Inl e \<Rightarrow> (fs, Some e)
      | Inr entries \<Rightarrow>
          do_each (\<lambda>(name, n). if n \<noteq> Directory then (\<lambda>fs. (fs, None))
                     else do_each (project_skill io root name) [''.agents'', ''.claude''])
            entries fs)"

text \<open>\<^verbatim>\<open>os.WriteFile\<close> replaces the content of a file that is there.\<close>

definition write_file :: "failures \<Rightarrow> path \<Rightarrow> string \<Rightarrow> disk_step" where
  "write_file io p text fs =
     (if io (CallWriteFile p) \<or> node_at fs p = Some Directory
      then (fs, Some (FInternal ''write normalized recipe''))
      else (map_put p (File text) fs, None))"

definition render_repository :: "failures \<Rightarrow> engine \<Rightarrow> path \<Rightarrow> recipe \<Rightarrow> disk_step" where
  "render_repository io E staging r fs =
     (case new_render_data E r of
        Inl e \<Rightarrow> (fs, Some e)
      | Inr data \<Rightarrow>
          then_do (do_each (render_layer io E staging data) (recipe_layers r))
         (then_do (project_skills io staging)
                  (\<lambda>fs. case encode_recipe E r of
                          Inl e \<Rightarrow> (fs, Some e)
                        | Inr text \<Rightarrow> write_file io (staging @ [''REAPER.yaml'']) text fs)) fs)"

section \<open>The archive\<close>

text \<open>
  One entry of the walk: its name below the root, and the content \<^verbatim>\<open>os.Open\<close> reads, which for a
  symbolic link is that of its target.
\<close>

definition archive_entry ::
  "failures \<Rightarrow> path \<Rightarrow> string \<Rightarrow> disk \<Rightarrow> path \<Rightarrow> factory_error + string \<times> string" where
  "archive_entry io source root fs p =
     (if io (CallZipCreate p) then Inl (FInternal ''archive generated repository'')
      else if io (CallOpen p) then Inl (FInternal ''archive generated repository'')
      else (case read_content fs p of
              None \<Rightarrow> Inl (FInternal ''archive generated repository'')
            | Some text \<Rightarrow>
                if io (CallCopy p) \<or> io (CallClose p) then Inl (FInternal ''archive generated repository'')
                else Inr (slashed (root # drop (length source) p), text)))"

fun archive_entries ::
  "failures \<Rightarrow> path \<Rightarrow> string \<Rightarrow> disk \<Rightarrow> path list \<Rightarrow> factory_error + (string \<times> string) list" where
  "archive_entries io source root fs [] = Inr []"
| "archive_entries io source root fs (p # ps) =
     (case archive_entry io source root fs p of
        Inl e \<Rightarrow> Inl e
      | Inr x \<Rightarrow> (case archive_entries io source root fs ps of Inl e \<Rightarrow> Inl e | Inr xs \<Rightarrow> Inr (x # xs)))"

text \<open>The deferred \<^verbatim>\<open>os.Remove(temporary)\<close> ignores its error.\<close>

definition write_archive :: "failures \<Rightarrow> string \<Rightarrow> path \<Rightarrow> path \<Rightarrow> string \<Rightarrow> disk_step" where
  "write_archive io drawn source destination root fs =
     (case create_temp io (parent destination) (''.reaper-archive-'' @ drawn) fs of
        (fs1, Inl e) \<Rightarrow> (fs1, Some e)
      | (fs1, Inr temporary) \<Rightarrow>
          let (fs2, err) =
                (case (if io (CallReadDir source) then Inl (FInternal ''archive generated repository'')
                       else archive_entries io source root fs1 (walk_files fs1 source)) of
                   Inl e \<Rightarrow> (fs1, Some e)
                 | Inr entries \<Rightarrow>
                     let written = map_put temporary (Archive entries) fs1 in
                     if io (CallZipClose temporary) then (written, Some (FInternal ''finish archive''))
                     else if io (CallClose temporary) then (written, Some (FInternal ''close archive''))
                     else hard_link io temporary destination written)
          in (fst (remove_file io temporary fs2), err))"

section \<open>Publication\<close>

record delivered =
  delivered_directory :: "path option"
  delivered_archive :: "path option"

text \<open>What the two random names were: of the staging directory and of the archive's temporary file.\<close>

record names =
  staging_suffix :: string
  archive_suffix_drawn :: string

definition publish_directory :: "failures \<Rightarrow> path \<Rightarrow> path \<Rightarrow> disk \<Rightarrow> disk \<times> (factory_error + delivered)" where
  "publish_directory io staging destination fs =
     (case rename_directory io staging destination fs of
        (fs1, Some e) \<Rightarrow> (fs1, Inl e)
      | (fs1, None) \<Rightarrow> (fs1, Inr \<lparr>delivered_directory = Some destination, delivered_archive = None\<rparr>))"

definition publish_zip ::
  "failures \<Rightarrow> names \<Rightarrow> path \<Rightarrow> path \<Rightarrow> string \<Rightarrow> disk \<Rightarrow> disk \<times> (factory_error + delivered)" where
  "publish_zip io N staging destination root fs =
     (let archive = with_suffix destination ''.zip'' in
      case write_archive io (archive_suffix_drawn N) staging archive root fs of
        (fs1, Some e) \<Rightarrow> (fs1, Inl e)
      | (fs1, None) \<Rightarrow> (fs1, Inr \<lparr>delivered_directory = None, delivered_archive = Some archive\<rparr>))"

definition publish_directory_and_zip ::
  "failures \<Rightarrow> names \<Rightarrow> path \<Rightarrow> path \<Rightarrow> string \<Rightarrow> disk \<Rightarrow> disk \<times> (factory_error + delivered)" where
  "publish_directory_and_zip io N staging destination root fs =
     (let archive = with_suffix destination ''.zip'' in
      case write_archive io (archive_suffix_drawn N) staging archive root fs of
        (fs1, Some e) \<Rightarrow> (fs1, Inl e)
      | (fs1, None) \<Rightarrow>
          (case rename_directory io staging destination fs1 of
             (fs2, Some publish_error) \<Rightarrow>
               (case remove_file io archive fs2 of
                  (fs3, Some cleanup) \<Rightarrow> (fs3, Inl (FJoined publish_error cleanup))
                | (fs3, None) \<Rightarrow> (fs3, Inl publish_error))
           | (fs2, None) \<Rightarrow>
               (fs2, Inr \<lparr>delivered_directory = Some destination, delivered_archive = Some archive\<rparr>)))"

definition publish_repository ::
  "failures \<Rightarrow> names \<Rightarrow> path \<Rightarrow> path \<Rightarrow> recipe \<Rightarrow> disk \<Rightarrow> disk \<times> (factory_error + delivered)" where
  "publish_repository io N staging destination r fs =
     (case find_delivery (recipe_delivery r) of
        None \<Rightarrow> (fs, Inl (FInternal ''delivery format has no publisher''))
      | Some d \<Rightarrow>
          (case delivery_publish d of
             PublishDirectory \<Rightarrow> publish_directory io staging destination fs
           | PublishZip \<Rightarrow> publish_zip io N staging destination (recipe_name r) fs
           | PublishDirectoryAndZip \<Rightarrow>
               publish_directory_and_zip io N staging destination (recipe_name r) fs))"

section \<open>Generation\<close>

definition artifact_paths :: "delivery_artifacts \<Rightarrow> path \<Rightarrow> path list" where
  "artifact_paths a destination =
     (if artifact_directory a then [destination] else [])
     @ (if archive_suffix a \<noteq> [] then [with_suffix destination (archive_suffix a)] else [])"

fun ensure_available :: "failures \<Rightarrow> disk \<Rightarrow> path list \<Rightarrow> factory_error check" where
  "ensure_available io fs [] = None"
| "ensure_available io fs (p # ps) =
     (case stat io fs p of
        Inl e \<Rightarrow> Some e
      | Inr True \<Rightarrow> Some (FExists p)
      | Inr False \<Rightarrow> ensure_available io fs ps)"

text \<open>\<^verbatim>\<open>filepath.Abs\<close>: a relative destination is joined to the working directory.\<close>

definition absolute_path :: "failures \<Rightarrow> path \<Rightarrow> string \<Rightarrow> factory_error + path" where
  "absolute_path io cwd destination =
     (if has_prefix destination [slash] then Inr (join_path [] destination)
      else if io CallAbs then Inl (FInternal ''resolve destination'')
      else Inr (join_path cwd destination))"

definition prepare_destination ::
  "failures \<Rightarrow> names \<Rightarrow> path \<Rightarrow> string \<Rightarrow> string \<Rightarrow> disk \<Rightarrow> disk \<times> (factory_error + path \<times> path)" where
  "prepare_destination io N cwd destination delivery fs =
     (case absolute_path io cwd destination of
        Inl e \<Rightarrow> (fs, Inl e)
      | Inr absolute \<Rightarrow>
        (case find_delivery delivery of
           None \<Rightarrow> (fs, Inl (FDelivery delivery))
         | Some d \<Rightarrow>
           (case ensure_available io fs (artifact_paths (delivery_artifacts_of d) absolute) of
              Some e \<Rightarrow> (fs, Inl e)
            | None \<Rightarrow>
              (case mkdir_all io (parent absolute) fs of
                 (fs1, Some e) \<Rightarrow> (fs1, Inl e)
               | (fs1, None) \<Rightarrow>
                 (case mkdir_temp io (parent absolute) (''.reaper-generate-'' @ staging_suffix N) fs1 of
                    (fs2, Inl e) \<Rightarrow> (fs2, Inl e)
                  | (fs2, Inr staging) \<Rightarrow> (fs2, Inr (absolute, staging)))))))"

definition generate_repository ::
  "failures \<Rightarrow> engine \<Rightarrow> names \<Rightarrow> path \<Rightarrow> recipe \<Rightarrow> string \<Rightarrow> disk \<Rightarrow> disk \<times> (factory_error + delivered)" where
  "generate_repository io E N cwd r destination fs =
     (case validate_recipe r of
        Some e \<Rightarrow> (fs, Inl e)
      | None \<Rightarrow>
        (case prepare_destination io N cwd destination (recipe_delivery r) fs of
           (fs1, Inl e) \<Rightarrow> (fs1, Inl e)
         | (fs1, Inr (absolute, staging)) \<Rightarrow>
             let (fs2, result) =
                   (case render_repository io E staging r fs1 of
                      (fs2, Some e) \<Rightarrow> (fs2, Inl e)
                    | (fs2, None) \<Rightarrow> publish_repository io N staging absolute r fs2)
             in (remove_all io staging fs2, result)))"

section \<open>What a step can change\<close>

lemma node_at_put [simp]: "p \<noteq> [] \<Longrightarrow> node_at (map_put p n fs) q = (if q = p then Some n else node_at fs q)"
  by (simp add: node_at_def)

lemma node_at_delete: "node_at (map_delete p fs) q = (if q = p \<and> p \<noteq> [] then None else node_at fs q)"
  by (simp add: node_at_def)

text \<open>Every directory on the way to \<open>s\<close>, and \<open>s\<close> itself, is there.\<close>

definition chain :: "path \<Rightarrow> disk \<Rightarrow> bool" where
  "chain s fs \<longleftrightarrow> (\<forall>q. prefix q s \<longrightarrow> node_at fs q = Some Directory)"

text \<open>A step that changes nothing outside the directory \<open>s\<close>.\<close>

definition step_below :: "path \<Rightarrow> disk_step \<Rightarrow> bool" where
  "step_below s f \<longleftrightarrow>
     (\<forall>fs. chain s fs \<longrightarrow> (\<forall>q. \<not> strict_prefix s q \<longrightarrow> node_at (fst (f fs)) q = node_at fs q))"

lemma step_below_chain: "step_below s f \<Longrightarrow> chain s fs \<Longrightarrow> chain s (fst (f fs))"
  by (auto simp: step_below_def chain_def strict_prefix_def) (metis prefix_order.antisym)

lemma step_below_then:
  assumes "step_below s f" and "step_below s g"
  shows "step_below s (then_do f g)"
  unfolding step_below_def
proof (intro allI impI)
  fix fs q
  assume c: "chain s fs" and q: "\<not> strict_prefix s q"
  obtain fs1 e where f: "f fs = (fs1, e)" by fastforce
  have "node_at fs1 q = node_at fs q" using assms(1) c q f unfolding step_below_def by (metis fst_conv)
  moreover have "chain s fs1" using step_below_chain [OF assms(1) c] f by simp
  then have "node_at (fst (g fs1)) q = node_at fs1 q" using assms(2) q unfolding step_below_def by blast
  ultimately show "node_at (fst (then_do f g fs)) q = node_at fs q"
    by (simp add: then_do_def f split: option.split)
qed

lemma step_below_each:
  assumes "\<And>x. x \<in> set xs \<Longrightarrow> step_below s (f x)"
  shows "step_below s (do_each f xs)"
  using assms
proof (induction xs)
  case (Cons x xs)
  have "step_below s (then_do (f x) (do_each f xs))"
    using Cons by (intro step_below_then) auto
  then show ?case by (simp add: step_below_def)
qed (simp add: step_below_def)

lemma step_below_keep: "(\<And>fs. fst (f fs) = fs) \<Longrightarrow> step_below s f"
  by (simp add: step_below_def)

lemma step_below_put:
  assumes "\<And>fs. fst (f fs) = fs \<or> (\<exists>n. fst (f fs) = map_put p n fs)" and "strict_prefix s p"
  shows "step_below s f"
  unfolding step_below_def
proof (intro allI impI)
  fix fs q
  assume "\<not> strict_prefix s q"
  with assms(2) have "q \<noteq> p" "p \<noteq> []" by (auto simp: strict_prefix_def)
  with assms(1) [of fs] show "node_at (fst (f fs)) q = node_at fs q" by auto
qed

text \<open>\<^verbatim>\<open>MkdirAll\<close> only adds directories, all of them on the way to its path.\<close>

lemma mkdir_each_Cons:
  "mkdir_each io (p # ps) fs =
     (if node_at fs p = None \<and> \<not> io (CallMkdir p) then mkdir_each io ps (map_put p Directory fs)
      else if node_at fs p = Some Directory then mkdir_each io ps fs
      else (fs, Some (FInternal ''create directory'')))"
  by (simp split: option.split node.split)

lemma mkdir_each_keeps: "node_at fs q = Some n \<Longrightarrow> node_at (fst (mkdir_each io ps fs)) q = Some n"
proof (induction ps arbitrary: fs)
  case (Cons p ps)
  have "node_at (map_put p Directory fs) q = Some n" if "node_at fs p = None"
    using that Cons.prems by (cases "p = []") (auto simp: node_at_def)
  with Cons show ?case unfolding mkdir_each_Cons by auto
qed simp

lemma mkdir_each_new:
  "node_at fs q = None \<Longrightarrow> node_at (fst (mkdir_each io ps fs)) q = None
     \<or> q \<in> set ps \<and> node_at (fst (mkdir_each io ps fs)) q = Some Directory"
proof (induction ps arbitrary: fs)
  case (Cons p ps)
  show ?case
  proof (cases "node_at fs p = None \<and> \<not> io (CallMkdir p)")
    case True
    then have p: "p \<noteq> []" by (auto simp: node_at_def)
    show ?thesis
    proof (cases "q = p")
      case True
      with mkdir_each_keeps [of "map_put p Directory fs" q Directory] p
      show ?thesis using \<open>node_at fs p = None \<and> _\<close> unfolding mkdir_each_Cons by simp
    next
      case False
      with Cons.IH [of "map_put p Directory fs"] Cons.prems p True show ?thesis
        unfolding mkdir_each_Cons by auto
    qed
  next
    case False
    with Cons.IH [OF Cons.prems] Cons.prems show ?thesis unfolding mkdir_each_Cons by auto
  qed
qed simp

lemma mkdir_all_adds:
  "node_at fs q = Some n \<Longrightarrow> node_at (fst (mkdir_all io p fs)) q = Some n"
  "node_at fs q = None \<Longrightarrow> node_at (fst (mkdir_all io p fs)) q \<noteq> None \<Longrightarrow>
     prefix q p \<and> node_at (fst (mkdir_all io p fs)) q = Some Directory"
  using mkdir_each_keeps [of fs q n io "prefixes p"] mkdir_each_new [of fs q io "prefixes p"]
  unfolding mkdir_all_def by auto

lemma mkdir_each_makes:
  "snd (mkdir_each io ps fs) = None \<Longrightarrow> q \<in> set ps \<Longrightarrow> node_at (fst (mkdir_each io ps fs)) q = Some Directory"
proof (induction ps arbitrary: fs)
  case (Cons p ps)
  show ?case
  proof (cases "node_at fs p = None \<and> \<not> io (CallMkdir p)")
    case True
    then have p: "p \<noteq> []" by (auto simp: node_at_def)
    from True Cons mkdir_each_keeps [of "map_put p Directory fs" p Directory] p show ?thesis
      unfolding mkdir_each_Cons by (cases "q = p") auto
  next
    case False
    with Cons mkdir_each_keeps [of fs p Directory] show ?thesis
      unfolding mkdir_each_Cons by (cases "q = p") (auto split: if_splits)
  qed
qed simp

lemma mkdir_all_chain: "snd (mkdir_all io p fs) = None \<Longrightarrow> chain p (fst (mkdir_all io p fs))"
  using mkdir_each_makes [of io "prefixes p" fs] unfolding mkdir_all_def chain_def by simp

lemma step_below_mkdir: "prefix s p \<Longrightarrow> step_below s (mkdir_all io p)"
  unfolding step_below_def
proof (intro allI impI)
  fix fs q
  assume s: "prefix s p" and c: "chain s fs" and q: "\<not> strict_prefix s q"
  show "node_at (fst (mkdir_all io p fs)) q = node_at fs q"
  proof (cases "node_at fs q")
    case None
    have "\<not> prefix q p"
    proof
      assume "prefix q p"
      with s have "prefix q s \<or> prefix s q" by (metis prefix_same_cases)
      with q have "prefix q s" by (auto simp: strict_prefix_def)
      with c None show False by (simp add: chain_def)
    qed
    with None mkdir_all_adds(2) [OF None] show ?thesis by (metis)
  qed (simp add: mkdir_all_adds)
qed

lemma strict_prefix_parent: "strict_prefix s p \<Longrightarrow> prefix s (parent p)"
  by (cases p rule: rev_cases) (auto simp: strict_prefix_def parent_def)

lemma step_below_render_file:
  assumes "strict_prefix s p"
  shows "step_below s (render_file io E source p data)"
  unfolding render_file_def
proof (intro step_below_then)
  show "step_below s (fail_when (\<not> engine_parses E source) ''parse template'')"
    by (rule step_below_keep) (simp add: fail_when_def)
  show "step_below s (mkdir_all io (parent p))"
    using assms by (intro step_below_mkdir strict_prefix_parent)
  show "step_below s (lstat_free io p)"
    by (rule step_below_keep) (simp add: lstat_free_def)
  show "step_below s (create_file io p)"
    using assms by (rule step_below_put [rotated]) (auto simp: create_file_def)
  show "step_below s (execute_template io E source p data)"
    using assms by (rule step_below_put [rotated]) (auto simp: execute_template_def split: option.split)
qed

lemma step_below_render_layer:
  assumes "validate_selections r = None" and "layer \<in> set (recipe_layers r)"
  shows "step_below s (render_layer io E s data layer)"
proof (cases "layer_files layer")
  case None
  then show ?thesis by (intro step_below_keep) (simp add: render_layer_def)
next
  case (Some rels)
  have "step_below s (do_each (\<lambda>rel. render_file io E (layer @ rel) (join_path s (template_output rel)) data) rels)"
  proof (rule step_below_each, rule step_below_render_file)
    fix rel assume "rel \<in> set rels"
    from output_path(1) [OF assms Some this, of s] output_path(3) [OF assms Some this]
    show "strict_prefix s (join_path s (template_output rel))"
      by (auto simp: strict_prefix_def plain_output_def)
  qed
  with Some show ?thesis by (simp add: step_below_def render_layer_def)
qed

lemma step_below_project_skill: "step_below s (project_skill io s name platform)"
  unfolding project_skill_def Let_def
proof (intro step_below_then)
  show "step_below s (mkdir_all io (s @ [platform, ''skills'', name]))"
    by (rule step_below_mkdir) simp
  show "step_below s (symlink io target ((s @ [platform, ''skills'', name]) @ [''SKILL.md'']))" for target
    by (rule step_below_put [where p = "s @ [platform, ''skills'', name, ''SKILL.md'']"])
       (auto simp: symlink_def strict_prefix_def)
qed

lemma step_below_skills: "step_below s (project_skills io s)"
proof -
  have each: "step_below s (do_each (\<lambda>(name, n). if n \<noteq> Directory then (\<lambda>fs. (fs, None))
      else do_each (project_skill io s name) [''.agents'', ''.claude'']) entries)" for entries
  proof (rule step_below_each)
    fix x assume "x \<in> set entries"
    obtain name n where x: "x = (name, n)" by fastforce
    show "step_below s (case x of (name, n) \<Rightarrow> if n \<noteq> Directory then (\<lambda>fs. (fs, None))
        else do_each (project_skill io s name) [''.agents'', ''.claude''])"
      unfolding x by (cases "n = Directory")
        (simp_all only: prod.case if_True if_False simp_thms step_below_keep fst_conv
          step_below_each [OF step_below_project_skill])
  qed
  show ?thesis
    unfolding step_below_def
  proof (intro allI impI)
    fix fs q assume "chain s fs" "\<not> strict_prefix s q"
    with each show "node_at (fst (project_skills io s fs)) q = node_at fs q"
      unfolding step_below_def by (auto simp: project_skills_def split: sum.split)
  qed
qed

lemma step_below_render:
  assumes "validate_selections r = None"
  shows "step_below s (render_repository io E s r)"
proof (cases "new_render_data E r")
  case (Inl e)
  then show ?thesis by (intro step_below_keep) (simp add: render_repository_def)
next
  case (Inr data)
  have w: "step_below s (\<lambda>fs. case encode_recipe E r of Inl e \<Rightarrow> (fs, Some e)
      | Inr text \<Rightarrow> write_file io (s @ [''REAPER.yaml'']) text fs)"
    by (rule step_below_put [where p = "s @ [''REAPER.yaml'']"])
       (auto simp: write_file_def strict_prefix_def split: sum.split)
  have "step_below s (then_do (do_each (render_layer io E s data) (recipe_layers r))
      (then_do (project_skills io s) (\<lambda>fs. case encode_recipe E r of Inl e \<Rightarrow> (fs, Some e)
         | Inr text \<Rightarrow> write_file io (s @ [''REAPER.yaml'']) text fs)))"
    by (intro step_below_then step_below_each step_below_render_layer [OF assms] step_below_skills w)
  with Inr show ?thesis by (simp add: step_below_def render_repository_def)
qed

section \<open>Archiving and renaming\<close>

text \<open>
  Writing an archive leaves the disk as it was, except that on success the archive is at a path that
  held nothing.
\<close>

lemma write_archive_effect:
  assumes w: "write_archive io drawn source destination root fs = (fs', res)"
    and keep: "\<not> io (CallRemove (parent destination @ [''.reaper-archive-'' @ drawn]))"
    and ne: "destination \<noteq> []"
  shows "(res \<noteq> None \<longrightarrow> node_at fs' = node_at fs) \<and>
    (res = None \<longrightarrow> node_at fs destination = None \<and>
       (\<exists>entries. archive_entries io source root
            (map_put (parent destination @ [''.reaper-archive-'' @ drawn]) (File []) fs)
            (walk_files (map_put (parent destination @ [''.reaper-archive-'' @ drawn]) (File []) fs) source)
              = Inr entries
          \<and> node_at fs' = (node_at fs)(destination \<mapsto> Archive entries)))"
proof -
  let ?t = "parent destination @ [''.reaper-archive-'' @ drawn]"
  obtain fs1 made where c: "create_temp io (parent destination) (''.reaper-archive-'' @ drawn) fs = (fs1, made)"
    by fastforce
  show ?thesis
  proof (cases made)
    case (Inl e)
    with c w show ?thesis by (auto simp: write_archive_def create_temp_def Let_def split: if_splits)
  next
    case (Inr t)
    with c have t: "t = ?t" and fs1: "fs1 = map_put ?t (File []) fs" and free: "node_at fs ?t = None"
      by (auto simp: create_temp_def Let_def split: if_splits)
    have undo: "node_at (map_delete ?t fs1) = node_at fs"
        "node_at (map_delete ?t (map_put ?t n fs1)) = node_at fs" for n
      using free by (auto simp: fs1 node_at_delete fun_eq_iff)
    let ?E = "archive_entries io source root fs1 (walk_files fs1 source)"
    show ?thesis
    proof (cases "io (CallReadDir source) \<or> (\<exists>e. ?E = Inl e)")
      case True
      with w c Inr keep t undo show ?thesis
        by (auto simp: write_archive_def remove_file_def Let_def split: if_splits sum.splits)
    next
      case False
      then obtain entries where E: "?E = Inr entries" by (cases ?E) auto
      define written where "written = map_put ?t (Archive entries) fs1"
      have nw: "node_at written q = (if q = ?t then Some (Archive entries) else node_at fs q)" for q
        by (simp add: written_def fs1)
      show ?thesis
      proof (cases "io (CallZipClose ?t) \<or> io (CallClose ?t)
          \<or> io (CallLink destination) \<or> node_at written destination \<noteq> None")
        case True
        with w c Inr keep t undo E False written_def show ?thesis
          by (auto simp: write_archive_def remove_file_def hard_link_def Let_def split: if_splits)
      next
        case ok: False
        then have dt: "destination \<noteq> ?t" and free_d: "node_at fs destination = None"
          using nw [of destination] by (auto split: if_splits)
        have "hard_link io ?t destination written = (map_put destination (Archive entries) written, None)"
          using ok nw [of ?t] by (simp add: hard_link_def)
        then have "fs' = map_delete ?t (map_put destination (Archive entries) written)" "res = None"
          using w c Inr keep t E False ok by (auto simp: write_archive_def remove_file_def Let_def written_def)
        moreover have "node_at (map_delete ?t (map_put destination (Archive entries) written)) q
            = ((node_at fs)(destination \<mapsto> Archive entries)) q" for q
          using dt ne free by (auto simp: node_at_delete nw)
        ultimately show ?thesis using free_d E fs1 by auto
      qed
    qed
  qed
qed

lemma map_of_rekey:
  "(\<And>q. q \<in> fst ` set xs \<Longrightarrow> f q = f k \<Longrightarrow> q = k) \<Longrightarrow> map_of (map (\<lambda>(q, n). (f q, n)) xs) (f k) = map_of xs k"
  by (induction xs) force+

lemma map_of_rekey_None:
  "(\<And>q. q \<in> fst ` set xs \<Longrightarrow> f q \<noteq> y) \<Longrightarrow> map_of (map (\<lambda>(q, n). (f q, n)) xs) y = None"
  by (force simp: map_of_eq_None_iff)

lemma rename_effect:
  assumes rn: "rename_directory io source p fs = (fs', res)"
    and ne: "p \<noteq> []" and ap: "\<not> prefix p source"
    and below: "\<And>q. strict_prefix p q \<Longrightarrow> node_at fs q = None"
  shows "(res \<noteq> None \<longrightarrow> fs' = fs) \<and>
    (res = None \<longrightarrow> node_at fs p = None \<and>
       (\<forall>q. node_at fs' q = (if prefix p q then node_at fs (source @ drop (length p) q)
          else if prefix source q then None else node_at fs q)))"
proof (cases "res = None")
  case False
  with rn show ?thesis by (auto simp: rename_directory_def split: if_splits)
next
  case True
  define f where "f q = (if prefix source q then p @ drop (length source) q else q)" for q
  from rn True have fs': "fs' = map (\<lambda>(q, n). (f q, n)) fs"
      and free: "node_at fs p = None" and sp: "\<not> prefix source p"
    by (auto simp: rename_directory_def f_def split: if_splits)
  then have sne: "source \<noteq> []" by auto
  have key: "\<not> prefix p q" if "q \<in> fst ` set fs" for q
  proof
    assume "prefix p q"
    from that have "map_of fs q \<noteq> None" by (simp add: map_of_eq_None_iff)
    with \<open>prefix p q\<close> ne free below [of q] show False
      by (cases "q = p") (auto simp: strict_prefix_def node_at_def map_get_def split: if_splits)
  qed
  have at: "node_at fs' q = (if prefix p q then node_at fs (source @ drop (length p) q)
          else if prefix source q then None else node_at fs q)" for q
  proof (cases "prefix p q")
    case True
    then obtain u where q: "q = p @ u" by (auto simp: prefix_def)
    have "f (source @ u) = q" by (simp add: f_def q)
    moreover have "map_of (map (\<lambda>(q, n). (f q, n)) fs) (f (source @ u)) = map_of fs (source @ u)"
    proof (rule map_of_rekey)
      fix k assume "k \<in> fst ` set fs" and "f k = f (source @ u)"
      with key [of k] show "k = source @ u"
        by (auto simp: f_def prefix_def split: if_splits)
    qed
    ultimately show ?thesis using True ne sne q by (simp add: node_at_def map_get_def fs')
  next
    case np: False
    show ?thesis
    proof (cases "prefix source q")
      case True
      have "map_of (map (\<lambda>(q, n). (f q, n)) fs) q = None"
        by (rule map_of_rekey_None) (use True np in \<open>auto simp: f_def split: if_splits\<close>)
      with np True ne sne show ?thesis by (auto simp: node_at_def map_get_def fs')
    next
      case False
      have "map_of (map (\<lambda>(q, n). (f q, n)) fs) (f q) = map_of fs q"
        by (rule map_of_rekey) (use False np in \<open>auto simp: f_def split: if_splits\<close>)
      with False np show ?thesis by (auto simp: node_at_def map_get_def fs' f_def)
    qed
  qed
  from at free True show ?thesis by simp
qed

lemma remove_all_effect:
  "p \<noteq> [] \<Longrightarrow> \<not> io (CallRemoveAll p) \<Longrightarrow>
     node_at (remove_all io p fs) q = (if prefix p q then None else node_at fs q)"
proof -
  have "map_of (filter (\<lambda>(q, n). \<not> prefix p q) fs) q = (if prefix p q then None else map_of fs q)"
    by (induction fs) auto
  then show "p \<noteq> [] \<Longrightarrow> \<not> io (CallRemoveAll p) \<Longrightarrow> ?thesis"
    by (auto simp: remove_all_def node_at_def map_get_def)
qed

section \<open>All or nothing\<close>

text \<open>Every node but the root is in a directory.\<close>

definition wf_disk :: "disk \<Rightarrow> bool" where
  "wf_disk fs \<longleftrightarrow> (\<forall>p. node_at fs p \<noteq> None \<longrightarrow> (\<forall>q. strict_prefix q p \<longrightarrow> node_at fs q = Some Directory))"

lemma find_delivery_facts:
  assumes "find_delivery v = Some d"
  shows "(delivery_publish d = PublishDirectory \<and> artifact_directory (delivery_artifacts_of d) \<and> archive_suffix (delivery_artifacts_of d) = [])
    \<or> (delivery_publish d = PublishZip \<and> \<not> artifact_directory (delivery_artifacts_of d) \<and> archive_suffix (delivery_artifacts_of d) = ''.zip'')
    \<or> (delivery_publish d = PublishDirectoryAndZip \<and> artifact_directory (delivery_artifacts_of d) \<and> archive_suffix (delivery_artifacts_of d) = ''.zip'')"
proof -
  from assms have "d \<in> set delivery_packs" by (auto simp: find_delivery_def dest: find_Some_member)
  then show ?thesis by (simp add: delivery_packs_def) (elim disjE, simp_all)
qed

text \<open>
  What a delivery makes of the disk: the staged tree at the destination instead of at the staging
  directory, the archive at its path.
\<close>

definition delivered_view ::
  "path \<Rightarrow> path \<Rightarrow> delivered \<Rightarrow> (string \<times> string) list \<Rightarrow> (path \<Rightarrow> node option) \<Rightarrow> path \<Rightarrow> node option" where
  "delivered_view staging destination d entries at q =
     (if delivered_archive d = Some q then Some (Archive entries)
      else if delivered_directory d = None then at q
      else if prefix destination q then at (staging @ drop (length destination) q)
      else if prefix staging q then None else at q)"

definition promised :: "delivery_artifacts \<Rightarrow> path \<Rightarrow> delivered \<Rightarrow> bool" where
  "promised a destination d \<longleftrightarrow>
     delivered_directory d = (if artifact_directory a then Some destination else None)
     \<and> delivered_archive d = (if archive_suffix a \<noteq> [] then Some (with_suffix destination ''.zip'') else None)"

text \<open>Where the archive is built.\<close>

abbreviation archive_temporary :: "names \<Rightarrow> path \<Rightarrow> path" where
  "archive_temporary N destination \<equiv> parent destination @ [''.reaper-archive-'' @ archive_suffix_drawn N]"

definition cleanup_works :: "failures \<Rightarrow> names \<Rightarrow> path \<Rightarrow> path \<Rightarrow> bool" where
  "cleanup_works io N staging destination \<longleftrightarrow>
     \<not> io (CallRemoveAll staging) \<and> \<not> io (CallRemove (archive_temporary N destination))
     \<and> \<not> io (CallRemove (with_suffix destination ''.zip''))"

lemma publish_effect:
  assumes pub: "publish_repository io N staging destination r fs = (fs', res)"
    and d: "find_delivery (recipe_delivery r) = Some d"
    and st: "staging = parent destination @ [s]" and staged: "node_at fs staging = Some Directory"
    and free: "artifact_directory (delivery_artifacts_of d) \<Longrightarrow>
      destination \<noteq> [] \<and> staging \<noteq> destination \<and> (\<forall>q. strict_prefix destination q \<longrightarrow> node_at fs q = None)"
    and clean: "cleanup_works io N staging destination"
  shows "case res of
      Inl e \<Rightarrow> node_at fs' = node_at fs
    | Inr del \<Rightarrow> promised (delivery_artifacts_of d) destination del
        \<and> (\<forall>a. delivered_archive del = Some a \<longrightarrow> node_at fs a = None)
        \<and> (delivered_directory del \<noteq> None \<longrightarrow> node_at fs destination = None)
        \<and> (\<exists>entries. node_at fs' = delivered_view staging destination del entries (node_at fs)
             \<and> (delivered_archive del \<noteq> None \<longrightarrow>
                  archive_entries io staging (recipe_name r)
                    (map_put (archive_temporary N destination) (File []) fs)
                    (walk_files (map_put (archive_temporary N destination) (File []) fs) staging) = Inr entries))"
proof -
  let ?z = "with_suffix destination ''.zip''"
  have paths: "destination \<noteq> [] \<and> length staging = length destination \<and> \<not> prefix staging destination
      \<and> \<not> prefix destination staging \<and> length ?z = length destination \<and> \<not> prefix destination ?z"
    if dir: "artifact_directory (delivery_artifacts_of d)"
  proof -
    have ne: "destination \<noteq> []" "staging \<noteq> destination" using free [OF dir] by auto
    then have len: "length staging = length destination" "length ?z = length destination"
      using st by (simp_all add: parent_def with_suffix_def)
    have "\<not> prefix destination ?z"
    proof
      assume "prefix destination ?z"
      then obtain u where "?z = destination @ u" by (auto simp: prefix_def)
      with len have "?z = destination" by simp
      with with_suffix_neq [of "''.zip''" destination] ne show False by simp
    qed
    with ne len show ?thesis by (auto simp: prefix_def)
  qed
  have z: "?z \<noteq> []" by (simp add: with_suffix_def)
  have zt: "\<not> io (CallRemove (parent ?z @ [''.reaper-archive-'' @ archive_suffix_drawn N]))" "\<not> io (CallRemove ?z)"
    using clean by (simp_all add: cleanup_works_def)
  note arch = write_archive_effect
    [where io = io and drawn = "archive_suffix_drawn N" and destination = ?z and source = staging
       and root = "recipe_name r" and fs = fs, OF _ zt(1) z]
  from find_delivery_facts [OF d] show ?thesis
  proof (elim disjE conjE)
    assume p: "delivery_publish d = PublishDirectory" and a: "artifact_directory (delivery_artifacts_of d)"
      "archive_suffix (delivery_artifacts_of d) = []"
    obtain fs1 e where rn: "rename_directory io staging destination fs = (fs1, e)" by fastforce
    have "node_at fs q = None" if "strict_prefix destination q" for q
      using free [OF a(1)] that by blast
    note eff = rename_effect [OF rn _ _ this]
    show ?thesis
    proof (cases e)
      case None
      with eff paths [OF a(1)] have "node_at fs1 = delivered_view staging destination
          \<lparr>delivered_directory = Some destination, delivered_archive = None\<rparr> [] (node_at fs)"
        by (auto simp: delivered_view_def fun_eq_iff)
      with pub d p a rn None eff paths [OF a(1)] show ?thesis
        by (auto simp: publish_repository_def publish_directory_def promised_def)
    next
      case (Some x)
      with eff paths [OF a(1)] pub d p rn show ?thesis
        by (auto simp: publish_repository_def publish_directory_def)
    qed
  next
    assume p: "delivery_publish d = PublishZip" and a: "\<not> artifact_directory (delivery_artifacts_of d)"
      "archive_suffix (delivery_artifacts_of d) = ''.zip''"
    obtain fs1 e where w: "write_archive io (archive_suffix_drawn N) staging ?z (recipe_name r) fs = (fs1, e)"
      by fastforce
    note eff = arch [OF w]
    show ?thesis
    proof (cases e)
      case None
      with eff obtain entries where en: "node_at fs ?z = None" "node_at fs1 = (node_at fs)(?z \<mapsto> Archive entries)"
          "archive_entries io staging (recipe_name r)
             (map_put (archive_temporary N destination) (File []) fs)
             (walk_files (map_put (archive_temporary N destination) (File []) fs) staging) = Inr entries"
        by auto
      then have "node_at fs1 = delivered_view staging destination
          \<lparr>delivered_directory = None, delivered_archive = Some ?z\<rparr> entries (node_at fs)"
        by (auto simp: delivered_view_def fun_eq_iff)
      with pub d p a w None en show ?thesis
        by (auto simp: publish_repository_def publish_zip_def promised_def Let_def)
    next
      case (Some x)
      with eff pub d p w show ?thesis by (auto simp: publish_repository_def publish_zip_def Let_def)
    qed
  next
    assume p: "delivery_publish d = PublishDirectoryAndZip" and a: "artifact_directory (delivery_artifacts_of d)"
      "archive_suffix (delivery_artifacts_of d) = ''.zip''"
    obtain fs1 e where w: "write_archive io (archive_suffix_drawn N) staging ?z (recipe_name r) fs = (fs1, e)"
      by fastforce
    note eff = arch [OF w]
    show ?thesis
    proof (cases e)
      case (Some x)
      with eff pub d p w show ?thesis
        by (auto simp: publish_repository_def publish_directory_and_zip_def Let_def)
    next
      case None
      with eff obtain entries where en: "node_at fs ?z = None" "node_at fs1 = (node_at fs)(?z \<mapsto> Archive entries)"
          "archive_entries io staging (recipe_name r)
             (map_put (archive_temporary N destination) (File []) fs)
             (walk_files (map_put (archive_temporary N destination) (File []) fs) staging) = Inr entries"
        by auto
      note ps = paths [OF a(1)]
      have zs: "\<not> prefix staging ?z"
        using en(1) staged ps by (auto simp: prefix_def)
      have below: "node_at fs1 q = None" if "strict_prefix destination q" for q
        using free [OF a(1)] that ps en(2) by (auto simp: strict_prefix_def)
      obtain fs2 e2 where rn: "rename_directory io staging destination fs1 = (fs2, e2)" by fastforce
      note reff = rename_effect [OF rn _ _ below]
      show ?thesis
      proof (cases e2)
        case None
        have drop: "staging @ drop (length destination) q \<noteq> ?z" for q
          using zs by (metis prefixI)
        have "node_at fs2 = delivered_view staging destination
            \<lparr>delivered_directory = Some destination, delivered_archive = Some ?z\<rparr> entries (node_at fs)"
          using reff None en(2) ps zs drop by (auto simp: delivered_view_def fun_eq_iff)
        moreover have "node_at fs destination = None"
          using reff None en(2) ps by (auto split: if_splits)
        ultimately show ?thesis using pub d p a w \<open>e = None\<close> None rn en
          by (auto simp: publish_repository_def publish_directory_and_zip_def promised_def Let_def)
      next
        case (Some x)
        have "node_at (map_delete ?z fs1) = node_at fs"
          using en z by (auto simp: node_at_delete fun_eq_iff)
        with Some reff ps pub d p w \<open>e = None\<close> rn zt show ?thesis
          by (auto simp: publish_repository_def publish_directory_and_zip_def remove_file_def Let_def)
      qed
    qed
  qed
qed

lemma wf_disk_below: "wf_disk fs \<Longrightarrow> node_at fs p \<noteq> Some Directory \<Longrightarrow> strict_prefix p q \<Longrightarrow> node_at fs q = None"
  by (auto simp: wf_disk_def)

lemma available_paths:
  "ensure_available io fs ps = None \<Longrightarrow> p \<in> set ps \<Longrightarrow> follow fs p = None"
  by (induction ps) (auto simp: stat_def split: sum.splits bool.splits if_splits)

text \<open>What preparing the destination does when it succeeds.\<close>

lemma prepare_effect:
  assumes prep: "prepare_destination io N cwd destination delivery fs = (fs1, res)"
  shows "case res of
      Inl e \<Rightarrow> \<forall>q. node_at fs1 q = node_at fs q \<or> node_at fs q = None \<and> node_at fs1 q = Some Directory
         \<and> (\<exists>a. absolute_path io cwd destination = Inr a \<and> prefix q (parent a))
    | Inr (a, s) \<Rightarrow> absolute_path io cwd destination = Inr a
        \<and> s = parent a @ [''.reaper-generate-'' @ staging_suffix N]
        \<and> (\<exists>d. find_delivery delivery = Some d \<and>
             (\<forall>p \<in> set (artifact_paths (delivery_artifacts_of d) a). follow fs p = None))
        \<and> chain s fs1 \<and> node_at fs s = None
        \<and> (\<forall>q. q \<noteq> s \<longrightarrow> node_at fs1 q = node_at fs q
             \<or> node_at fs q = None \<and> node_at fs1 q = Some Directory \<and> prefix q (parent a))"
proof -
  have mk: "node_at (fst (mkdir_all io p fs)) q = node_at fs q
      \<or> node_at fs q = None \<and> node_at (fst (mkdir_all io p fs)) q = Some Directory \<and> prefix q p" for p q
    using mkdir_all_adds [where io = io and p = p and fs = fs and q = q] by (cases "node_at fs q") auto
  show ?thesis
  proof (cases "absolute_path io cwd destination")
    case (Inl e)
    with prep show ?thesis by (auto simp: prepare_destination_def)
  next
    case abs: (Inr a)
    show ?thesis
    proof (cases "find_delivery delivery")
      case None
      with prep abs show ?thesis by (auto simp: prepare_destination_def)
    next
      case d: (Some d)
      show ?thesis
      proof (cases "ensure_available io fs (artifact_paths (delivery_artifacts_of d) a)")
        case (Some e)
        with prep abs d show ?thesis by (auto simp: prepare_destination_def)
      next
        case avail: None
        obtain fsa e where m: "mkdir_all io (parent a) fs = (fsa, e)" by fastforce
        note mk = mk [of "parent a", unfolded m fst_conv]
        show ?thesis
        proof (cases e)
          case (Some x)
          with prep abs d avail m mk show ?thesis by (auto simp: prepare_destination_def)
        next
          case None
          let ?s = "parent a @ [''.reaper-generate-'' @ staging_suffix N]"
          from m None have ch: "chain (parent a) fsa" using mkdir_all_chain [of io "parent a" fs] by simp
          show ?thesis
          proof (cases "snd (mkdir_temp io (parent a) (''.reaper-generate-'' @ staging_suffix N) fsa)")
            case (Inl x)
            with prep abs d avail m None mk show ?thesis
              by (auto simp: prepare_destination_def mkdir_temp_def Let_def split: if_splits)
          next
            case (Inr s)
            then have s: "s = ?s" "node_at fsa ?s = None"
                and t: "mkdir_temp io (parent a) (''.reaper-generate-'' @ staging_suffix N) fsa
                  = (map_put ?s Directory fsa, Inr ?s)"
              by (auto simp: mkdir_temp_def Let_def split: if_splits)
            have "chain ?s (map_put ?s Directory fsa)"
              using ch by (auto simp: chain_def prefix_snoc)
            moreover have "node_at fs ?s = None" using mk [of ?s] s(2) by auto
            moreover have "\<forall>p \<in> set (artifact_paths (delivery_artifacts_of d) a). follow fs p = None"
              using available_paths [OF avail] by blast
            moreover have "fs1 = map_put ?s Directory fsa" "res = Inr (a, ?s)"
              using prep abs d avail m None t by (auto simp: prepare_destination_def)
            ultimately show ?thesis using abs d mk by auto
          qed
        qed
      qed
    qed
  qed
qed

text \<open>The only calls whose failure can leave something behind are the deferred removals.\<close>

definition cleanup_never_fails :: "failures \<Rightarrow> bool" where
  "cleanup_never_fails io \<longleftrightarrow> (\<forall>p. \<not> io (CallRemove p) \<and> \<not> io (CallRemoveAll p))"

text \<open>
  The staging directory could get the very name of the destination; then nothing is published.
\<close>

lemma publish_self:
  assumes pub: "publish_repository io N s s r fs = (fs', res)"
    and d: "find_delivery (recipe_delivery r) = Some d" "artifact_directory (delivery_artifacts_of d)"
    and clean: "cleanup_never_fails io"
  shows "(\<exists>e. res = Inl e) \<and> node_at fs' = node_at fs"
proof -
  have rn: "rename_directory io s s fs1 = (fs1, Some (FInternal ''publish directory''))" for fs1
    by (simp add: rename_directory_def)
  let ?z = "with_suffix s ''.zip''"
  obtain fs1 e where w: "write_archive io (archive_suffix_drawn N) s ?z (recipe_name r) fs = (fs1, e)"
    by fastforce
  have z: "?z \<noteq> []" by (simp add: with_suffix_def)
  have eff: "(e \<noteq> None \<longrightarrow> node_at fs1 = node_at fs) \<and> (e = None \<longrightarrow> node_at fs ?z = None \<and>
      (\<exists>entries. node_at fs1 = (node_at fs)(?z \<mapsto> Archive entries)))"
    using write_archive_effect [OF w _ z] clean by (auto simp: cleanup_never_fails_def)
  then have "node_at (map_delete ?z fs1) = node_at fs" if "e = None"
    using that z by (auto simp: node_at_delete fun_eq_iff)
  with eff w rn pub d find_delivery_facts [OF d(1)] clean show ?thesis
    by (auto simp: publish_repository_def publish_directory_def publish_directory_and_zip_def
        remove_file_def cleanup_never_fails_def Let_def split: option.splits)
qed

text \<open>Rendering and publishing, from a prepared destination to the removal of the staging directory.\<close>

lemma staged_effect:
  assumes wf: "wf_disk fs" and clean: "cleanup_never_fails io" and sel: "validate_selections r = None"
    and s: "s = parent a @ [''.reaper-generate-'' @ staging_suffix N]"
    and d: "find_delivery (recipe_delivery r) = Some d"
    and avail: "\<And>p. p \<in> set (artifact_paths (delivery_artifacts_of d) a) \<Longrightarrow> follow fs p = None"
    and ch: "chain s fs1" and s_new: "node_at fs s = None"
    and fs1: "\<And>q. q \<noteq> s \<Longrightarrow> node_at fs1 q = node_at fs q
         \<or> node_at fs q = None \<and> node_at fs1 q = Some Directory \<and> prefix q (parent a)"
    and step: "(case render_repository io E s r fs1 of (fs2, Some e) \<Rightarrow> (fs2, Inl e)
         | (fs2, None) \<Rightarrow> publish_repository io N s a r fs2) = (fs3, res)"
    and final: "\<And>q. at' q = (if prefix s q then None else node_at fs3 q)"
  shows "(\<forall>q. at' q = node_at fs q \<or> node_at fs q = None \<and>
         (at' q = Some Directory \<and> prefix q (parent a)
          \<or> (\<exists>del. res = Inr del \<and>
               (delivered_archive del = Some q \<or> delivered_directory del = Some a \<and> prefix a q))))
       \<and> (\<forall>del. res = Inr del \<longrightarrow> promised (delivery_artifacts_of d) a del)"
proof -
  have below_s: "node_at fs q = None" if "prefix s q" for q
    using that s_new wf_disk_below [OF wf, of s q] by (cases "q = s") (auto simp: strict_prefix_def)
  obtain fs2 rerr where ren: "render_repository io E s r fs1 = (fs2, rerr)" by fastforce
  have fs2: "node_at fs2 q = node_at fs1 q" if "\<not> strict_prefix s q" for q
    using step_below_render [OF sel, of s io E] ch that ren unfolding step_below_def by (metis fst_conv)
  have outside: "node_at fs2 q = node_at fs q
      \<or> node_at fs q = None \<and> node_at fs2 q = Some Directory \<and> prefix q (parent a)" if "\<not> prefix s q" for q
    using fs1 [of q] fs2 [of q] that by (auto simp: strict_prefix_def)
  have staged: "node_at fs2 s = Some Directory"
    using fs2 [of s] ch by (auto simp: chain_def strict_prefix_def)
  have same: ?thesis if "node_at fs3 = node_at fs2" "\<exists>e. res = Inl e"
    using that final outside below_s by auto
  show ?thesis
  proof (cases rerr)
    case (Some e)
    with step ren have "fs3 = fs2" "res = Inl e" by auto
    with same show ?thesis by blast
  next
    case None
    with step ren have pub: "publish_repository io N s a r fs2 = (fs3, res)" by simp
    show ?thesis
    proof (cases "artifact_directory (delivery_artifacts_of d) \<and> s = a")
      case True
      with publish_self [of io N s r fs2 fs3 res d] pub d clean same show ?thesis by blast
    next
      case False
      have free: "a \<noteq> [] \<and> s \<noteq> a \<and> (\<forall>q. strict_prefix a q \<longrightarrow> node_at fs2 q = None)
          \<and> node_at fs a \<noteq> Some Directory"
        if dir: "artifact_directory (delivery_artifacts_of d)"
      proof -
        from avail [of a] dir have "follow fs a = None" by (simp add: artifact_paths_def)
        then have na: "node_at fs a \<noteq> Some Directory" by (auto simp: follow_def)
        then have ne: "a \<noteq> []" by (auto simp: node_at_def)
        have "node_at fs2 q = None" if q: "strict_prefix a q" for q
        proof -
          have "\<not> prefix q (parent a)"
            using prefix_length_le [of q "parent a"] prefix_length_less [OF q] by (auto simp: parent_def)
          moreover have "\<not> prefix s q"
          proof
            assume "prefix s q"
            moreover have "prefix a q" using q by (simp add: strict_prefix_def)
            ultimately have "prefix s a \<or> prefix a s" by (metis prefix_same_cases)
            moreover have "length s = length a" using s ne by (simp add: parent_def)
            ultimately have "s = a" by (auto simp: prefix_def)
            with False dir show False by blast
          qed
          ultimately show ?thesis using outside [of q] wf_disk_below [OF wf na q] by auto
        qed
        with ne na False dir show ?thesis by blast
      qed
      have "cleanup_works io N s a" using clean by (simp add: cleanup_works_def cleanup_never_fails_def)
      note eff = publish_effect [OF pub d s staged _ this]
      show ?thesis
      proof (cases res)
        case (Inl e)
        with eff free same show ?thesis by auto
      next
        case (Inr del)
        with eff free obtain entries where prom: "promised (delivery_artifacts_of d) a del"
            and arch: "\<And>z. delivered_archive del = Some z \<Longrightarrow> node_at fs2 z = None"
            and dir: "delivered_directory del \<noteq> None \<Longrightarrow> node_at fs2 a = None"
            and view: "node_at fs3 = delivered_view s a del entries (node_at fs2)"
          by auto
        have arch0: "node_at fs z = None \<and> \<not> prefix s z" if z: "delivered_archive del = Some z" for z
        proof -
          from prom z have zz: "z = with_suffix a ''.zip''" by (auto simp: promised_def split: if_splits)
          have "\<not> prefix s z"
          proof
            assume "prefix s z"
            moreover have "length z \<le> length s" by (auto simp: zz s with_suffix_def parent_def)
            ultimately have "z = s" by (auto simp: prefix_def)
            with arch [OF z] staged show False by simp
          qed
          with arch [OF z] outside [of z] show ?thesis by auto
        qed
        have deliv: "delivered_directory del = None \<or> delivered_directory del = Some a"
          using prom by (simp add: promised_def)
        have below_a: "node_at fs q = None" if "delivered_directory del \<noteq> None" "prefix a q" for q
        proof -
          have "artifact_directory (delivery_artifacts_of d)"
            using prom that(1) by (auto simp: promised_def split: if_splits)
          from free [OF this] wf_disk_below [OF wf, of a q] have "q \<noteq> a \<Longrightarrow> node_at fs q = None"
            using that(2) by (auto simp: strict_prefix_def)
          moreover have "node_at fs a = None"
            using dir [OF that(1)] outside [of a] free [OF \<open>artifact_directory _\<close>] s
            by (metis below_s option.distinct(1))
          ultimately show ?thesis by blast
        qed
        have "at' q = node_at fs q \<or> node_at fs q = None \<and>
            (at' q = Some Directory \<and> prefix q (parent a)
             \<or> (\<exists>del. res = Inr del \<and>
               (delivered_archive del = Some q \<or> delivered_directory del = Some a \<and> prefix a q)))" for q
        proof (cases "delivered_archive del = Some q \<or> delivered_directory del \<noteq> None \<and> prefix a q")
          case True
          with arch0 below_a Inr deliv show ?thesis by auto
        next
          case False
          then have "at' q = (if prefix s q then None else node_at fs2 q)"
            using final [of q] view by (auto simp: delivered_view_def)
          with outside [of q] below_s [of q] show ?thesis by auto
        qed
        with prom Inr show ?thesis by auto
      qed
    qed
  qed
qed

lemma generate_effect:
  assumes wf: "wf_disk fs" and clean: "cleanup_never_fails io"
    and gen: "generate_repository io E N cwd r destination fs = (fs', res)"
  shows "(\<forall>q n. node_at fs q = Some n \<longrightarrow> node_at fs' q = Some n) \<and>
    (\<forall>q. node_at fs q = None \<and> node_at fs' q \<noteq> None \<longrightarrow>
       (\<exists>a. absolute_path io cwd destination = Inr a \<and>
          (node_at fs' q = Some Directory \<and> prefix q (parent a)
           \<or> (\<exists>del. res = Inr del \<and>
                (delivered_archive del = Some q \<or> delivered_directory del = Some a \<and> prefix a q))))) \<and>
    (\<forall>del. res = Inr del \<longrightarrow>
       (\<exists>a d. absolute_path io cwd destination = Inr a \<and> find_delivery (recipe_delivery r) = Some d
          \<and> promised (delivery_artifacts_of d) a del))"
proof (cases "validate_recipe r")
  case (Some e)
  with gen show ?thesis by (auto simp: generate_repository_def)
next
  case None
  then have sel: "validate_selections r = None" by (simp add: validate_recipe_def check_simps)
  obtain fs1 pres where prep: "prepare_destination io N cwd destination (recipe_delivery r) fs = (fs1, pres)"
    by fastforce
  note pe = prepare_effect [OF prep]
  show ?thesis
  proof (cases pres)
    case (Inl e)
    with gen None prep have r: "fs' = fs1" "res = Inl e" by (auto simp: generate_repository_def)
    have p: "node_at fs1 q = node_at fs q \<or> node_at fs q = None \<and> node_at fs1 q = Some Directory
         \<and> (\<exists>a. absolute_path io cwd destination = Inr a \<and> prefix q (parent a))" for q
      using pe Inl by simp
    show ?thesis
    proof (intro conjI allI impI)
      fix q n assume "node_at fs q = Some n"
      then show "node_at fs' q = Some n" using p [of q] r by auto
    next
      fix q assume "node_at fs q = None \<and> node_at fs' q \<noteq> None"
      then show "\<exists>a. absolute_path io cwd destination = Inr a \<and>
          (node_at fs' q = Some Directory \<and> prefix q (parent a)
           \<or> (\<exists>del. res = Inr del \<and>
                (delivered_archive del = Some q \<or> delivered_directory del = Some a \<and> prefix a q)))"
        using p [of q] r by auto
    qed (use r in simp)
  next
    case (Inr as)
    obtain a s where as: "pres = Inr (a, s)" using Inr by (cases as) auto
    from pe as obtain d where abs: "absolute_path io cwd destination = Inr a"
        and s: "s = parent a @ [''.reaper-generate-'' @ staging_suffix N]"
        and d: "find_delivery (recipe_delivery r) = Some d"
        and avail: "\<And>p. p \<in> set (artifact_paths (delivery_artifacts_of d) a) \<Longrightarrow> follow fs p = None"
        and ch: "chain s fs1" and s_new: "node_at fs s = None"
        and fs1: "\<And>q. q \<noteq> s \<Longrightarrow> node_at fs1 q = node_at fs q
             \<or> node_at fs q = None \<and> node_at fs1 q = Some Directory \<and> prefix q (parent a)"
      by auto
    obtain fs3 res3 where step: "(case render_repository io E s r fs1 of (fs2, Some e) \<Rightarrow> (fs2, Inl e)
         | (fs2, None) \<Rightarrow> publish_repository io N s a r fs2) = (fs3, res3)" by fastforce
    have "fs' = remove_all io s fs3" "res = res3"
      using gen None prep as step by (auto simp: generate_repository_def split: option.splits prod.splits)
    moreover have "node_at (remove_all io s fs3) q = (if prefix s q then None else node_at fs3 q)" for q
      using remove_all_effect [of s io fs3 q] clean s by (simp add: cleanup_never_fails_def)
    ultimately have eff: "\<forall>q. node_at fs' q = node_at fs q \<or> node_at fs q = None \<and>
         (node_at fs' q = Some Directory \<and> prefix q (parent a)
          \<or> (\<exists>del. res = Inr del \<and>
               (delivered_archive del = Some q \<or> delivered_directory del = Some a \<and> prefix a q)))"
      "\<forall>del. res = Inr del \<longrightarrow> promised (delivery_artifacts_of d) a del"
      using staged_effect [OF wf clean sel s d avail ch s_new fs1 step, where at' = "node_at fs'"] by auto
    show ?thesis
    proof (intro conjI allI impI)
      fix q n assume "node_at fs q = Some n"
      then show "node_at fs' q = Some n" using eff(1) [rule_format, of q] by auto
    next
      fix q assume "node_at fs q = None \<and> node_at fs' q \<noteq> None"
      then show "\<exists>a. absolute_path io cwd destination = Inr a \<and>
          (node_at fs' q = Some Directory \<and> prefix q (parent a)
           \<or> (\<exists>del. res = Inr del \<and>
                (delivered_archive del = Some q \<or> delivered_directory del = Some a \<and> prefix a q)))"
        using eff(1) [rule_format, of q] abs by auto
    qed (use eff(2) abs d in blast)
  qed
qed


definition sample_engine :: engine where
  "sample_engine = \<lparr>engine_yaml = \<lambda>r. Some (recipe_name r), engine_json = Some,
     engine_sha256 = \<lambda>_. replicate 32 0, engine_parses = \<lambda>_. True,
     engine_execute = \<lambda>p d. Some (slashed p @ data_module d)\<rparr>"

definition sample_names :: names where
  "sample_names = \<lparr>staging_suffix = ''1'', archive_suffix_drawn = ''2''\<rparr>"

definition home_disk :: disk where
  "home_disk = [([''home''], Directory), ([''home'', ''notes''], File ''keep'')]"

lemma home_disk_wf: "wf_disk home_disk"
proof -
  have "q = [] \<or> q = [''home'']" if "strict_prefix q [''home'', ''notes'']" for q
    using that by (auto simp: strict_prefix_def prefix_Cons)
  then show ?thesis
    by (auto simp: wf_disk_def home_disk_def node_at_def map_get_def strict_prefix_def prefix_Cons split: if_splits)
qed


end
