(* ===== verification/Factory_Delivery.thy ===== *)
theory Factory_Delivery
  imports Factory_Render
begin

text \<open>
  What a generation that meets no failure delivers: exactly the rendered templates, the skill
  projections and the recipe, and an archive with the same files as the directory.
\<close>

section \<open>A tree of files below a directory\<close>

text \<open>
  \<open>tree_at fs s F\<close>: below the directory \<open>s\<close> the disk holds the nodes \<open>F\<close>, given by their paths below
  \<open>s\<close>, and the directories they need, and nothing else.
\<close>

definition tree_at :: "disk \<Rightarrow> path \<Rightarrow> (path \<times> node) list \<Rightarrow> bool" where
  "tree_at fs s F \<longleftrightarrow> (\<forall>rel. rel \<noteq> [] \<longrightarrow>
     node_at fs (s @ rel) = (case map_of F rel of Some n \<Rightarrow> Some n
       | None \<Rightarrow> if list_ex (\<lambda>f. strict_prefix rel f) (map fst F) then Some Directory else None))"

definition staged :: "path \<Rightarrow> (path \<times> node) list \<Rightarrow> disk \<Rightarrow> bool" where
  "staged s F fs \<longleftrightarrow> chain s fs \<and> wf_map fs \<and> tree_at fs s F"

definition no_failure :: failures where
  "no_failure c = False"

lemma wf_mkdir_each: "wf_map fs \<Longrightarrow> wf_map (fst (mkdir_each io ps fs))"
proof (induction ps arbitrary: fs)
  case (Cons p ps)
  then show ?case unfolding mkdir_each_Cons by simp
qed simp

lemma mkdir_each_succeeds:
  "(\<And>p. p \<in> set ps \<Longrightarrow> node_at fs p = None \<or> node_at fs p = Some Directory) \<Longrightarrow>
     snd (mkdir_each no_failure ps fs) = None"
proof (induction ps arbitrary: fs)
  case (Cons p ps)
  have "node_at (map_put p Directory fs) q = None \<or> node_at (map_put p Directory fs) q = Some Directory"
    if "q \<in> set ps" "node_at fs p = None" for q
    using Cons.prems [of q] that by (cases "p = []") (auto simp: node_at_def)
  with Cons.IH Cons.prems [of p] Cons.prems show ?case
    unfolding mkdir_each_Cons no_failure_def by auto
qed simp

text \<open>Directories on the way to a new output.\<close>

lemma staged_mkdir:
  assumes st: "staged s F fs" and d: "d = s @ rel"
    and ap: "\<And>f. f \<in> fst ` set F \<Longrightarrow> \<not> prefix f rel"
  shows "\<exists>fs'. mkdir_all no_failure d fs = (fs', None) \<and> chain d fs' \<and> wf_map fs'
    \<and> (\<forall>r. r \<noteq> [] \<longrightarrow> node_at fs' (s @ r) = (if prefix r rel then Some Directory else node_at fs (s @ r)))"
proof -
  from st have ch: "chain s fs" and wf: "wf_map fs" and tree: "tree_at fs s F" by (auto simp: staged_def)
  have some: "node_at fs p = None \<or> node_at fs p = Some Directory" if "prefix p d" for p
  proof (cases "prefix p s")
    case True
    with ch show ?thesis by (simp add: chain_def)
  next
    case False
    from that d have "prefix p (s @ rel)" by simp
    with False obtain r where r: "p = s @ r" "prefix r rel" "r \<noteq> []"
      by (auto simp: prefix_append)
    have "map_of F r = None"
      using ap r(2) by (auto simp: map_of_eq_None_iff)
    with tree r show ?thesis by (auto simp: tree_at_def)
  qed
  obtain fs' e where m: "mkdir_all no_failure d fs = (fs', e)" by fastforce
  have e: "e = None" using mkdir_each_succeeds [of "prefixes d" fs] some m by (simp add: mkdir_all_def)
  have chd: "chain d fs'" using mkdir_all_chain [of no_failure d fs] m e by simp
  have "wf_map fs'" using wf_mkdir_each [OF wf] m by (metis fst_conv mkdir_all_def)
  moreover have "node_at fs' (s @ r) = (if prefix r rel then Some Directory else node_at fs (s @ r))"
    if "r \<noteq> []" for r
  proof (cases "prefix r rel")
    case True
    with chd d show ?thesis by (simp add: chain_def)
  next
    case False
    then have "\<not> prefix (s @ r) d" using d by simp
    with mkdir_all_adds [where io = no_failure and p = d and fs = fs and q = "s @ r"] m False show ?thesis
      by (cases "node_at fs (s @ r)"; cases "node_at fs' (s @ r)") auto
  qed
  ultimately show ?thesis using m e chd by auto
qed

text \<open>Putting a node at a new output, its directories made.\<close>

lemma staged_put:
  assumes st: "staged s F fs" and o': "o' \<noteq> []"
    and ap: "list_all (apart o') (map fst F)"
    and fs': "chain (s @ butlast o') fs'" "wf_map fs'"
    and mk: "\<And>r. r \<noteq> [] \<Longrightarrow> node_at fs' (s @ r) = (if prefix r (butlast o') then Some Directory else node_at fs (s @ r))"
  shows "node_at fs' (s @ o') = None" and "staged s ((o', n) # F) (map_put (s @ o') n fs')"
proof -
  from st have tree: "tree_at fs s F" by (simp add: staged_def)
  have np: "\<not> prefix o' (butlast o')" using o' prefix_length_le [of o' "butlast o'"] by (cases o') auto
  have no: "map_of F o' = None" "\<not> list_ex (\<lambda>f. strict_prefix o' f) (map fst F)"
    using ap by (auto simp: map_of_eq_None_iff list_all_iff list_ex_iff apart_def strict_prefix_def)
  with tree o' mk [OF o'] np show free: "node_at fs' (s @ o') = None" by (auto simp: tree_at_def)
  have below: "strict_prefix r o' \<longleftrightarrow> prefix r (butlast o')" for r
    using o' by (cases o' rule: rev_cases) (auto simp: strict_prefix_def prefix_snoc)
  have "chain s (map_put (s @ o') n fs')"
    using fs'(1) o' by (auto simp: chain_def)
  moreover have "tree_at (map_put (s @ o') n fs') s ((o', n) # F)"
    unfolding tree_at_def
  proof (intro allI impI)
    fix rel :: path assume rel: "rel \<noteq> []"
    show "node_at (map_put (s @ o') n fs') (s @ rel) = (case map_of ((o', n) # F) rel of Some n \<Rightarrow> Some n
       | None \<Rightarrow> if list_ex (\<lambda>f. strict_prefix rel f) (map fst ((o', n) # F)) then Some Directory else None)"
    proof (cases "rel = o'")
      case True
      with o' show ?thesis by simp
    next
      case False
      show ?thesis
      proof (cases "strict_prefix rel o'")
        case True
        then have "prefix rel o'" by (simp add: strict_prefix_def)
        then have "map_of F rel = None"
          using ap by (auto simp: map_of_eq_None_iff list_all_iff apart_def)
        with True False rel o' mk [OF rel] below show ?thesis by simp
      next
        case nsp: False
        with False rel o' mk [OF rel] below tree show ?thesis by (simp add: tree_at_def)
      qed
    qed
  qed
  ultimately show "staged s ((o', n) # F) (map_put (s @ o') n fs')"
    using fs'(2) by (simp add: staged_def)
qed

section \<open>Steps that add nodes\<close>

lemma apart_list_iff:
  "apart_list ps \<longleftrightarrow> distinct ps \<and> (\<forall>p \<in> set ps. \<forall>q \<in> set ps. p \<noteq> q \<longrightarrow> apart p q)"
proof (induction ps)
  case (Cons p ps)
  have "apart p q \<Longrightarrow> p \<noteq> q" for q by (auto simp: apart_def)
  with Cons show ?case by (auto simp: list_all_iff apart_sym)
qed simp

lemma apart_list_mset: "mset ps = mset qs \<Longrightarrow> apart_list ps = apart_list qs"
  unfolding apart_list_iff using mset_eq_imp_distinct_iff mset_eq_setD by metis

text \<open>
  \<open>adds s f I\<close>: on a staged directory whose files are apart from those of \<open>I\<close>, the step \<open>f\<close> succeeds
  and adds exactly \<open>I\<close>.
\<close>

definition adds :: "path \<Rightarrow> disk_step \<Rightarrow> (path \<times> node) list \<Rightarrow> bool" where
  "adds s f I \<longleftrightarrow> (\<forall>F fs. staged s F fs \<longrightarrow> apart_list (map fst (I @ F)) \<longrightarrow>
     (\<exists>fs'. f fs = (fs', None) \<and> staged s (I @ F) fs'))"

lemma addsD:
  "adds s f I \<Longrightarrow> staged s F fs \<Longrightarrow> apart_list (map fst (I @ F)) \<Longrightarrow>
     \<exists>fs'. f fs = (fs', None) \<and> staged s (I @ F) fs'"
  by (auto simp: adds_def)

lemma adds_then:
  assumes "adds s f I" and "adds s g J"
  shows "adds s (then_do f g) (J @ I)"
  unfolding adds_def
proof (intro allI impI)
  fix F fs assume st: "staged s F fs" and ap: "apart_list (map fst ((J @ I) @ F))"
  then have "apart_list (map fst (I @ F))" by (simp add: apart_list_append)
  from addsD [OF assms(1) st this] obtain fs1 where f: "f fs = (fs1, None)" "staged s (I @ F) fs1" by blast
  from addsD [OF assms(2) f(2)] ap obtain fs2 where "g fs1 = (fs2, None)" "staged s (J @ I @ F) fs2" by auto
  with f show "\<exists>fs'. then_do f g fs = (fs', None) \<and> staged s ((J @ I) @ F) fs'"
    by (simp add: then_do_def)
qed

lemma adds_each:
  assumes "\<And>x. x \<in> set xs \<Longrightarrow> adds s (f x) (I x)"
  shows "adds s (do_each f xs) (concat (rev (map I xs)))"
  using assms
proof (induction xs)
  case (Cons x xs)
  then have "adds s (then_do (f x) (do_each f xs)) (concat (rev (map I xs)) @ I x)"
    by (intro adds_then) auto
  then show ?case by (simp add: adds_def)
qed (simp add: adds_def)

lemma adds_render_file:
  assumes o': "o' \<noteq> []" and parses: "engine_parses E source"
    and body: "engine_execute E source data = Some content"
  shows "adds s (render_file no_failure E source (s @ o') data) [(o', File content)]"
  unfolding adds_def
proof (intro allI impI)
  fix F fs assume st: "staged s F fs" and ap: "apart_list (map fst ([(o', File content)] @ F))"
  then have ap': "list_all (apart o') (map fst F)" by simp
  have par: "parent (s @ o') = s @ butlast o'" using o' by (simp add: parent_def butlast_append)
  have "\<not> prefix f (butlast o')" if "f \<in> fst ` set F" for f
  proof
    assume "prefix f (butlast o')"
    then have "prefix f o'" by (metis append_butlast_last_id o' prefix_prefix)
    with ap' that show False by (auto simp: list_all_iff apart_def)
  qed
  from staged_mkdir [OF st refl this] obtain fs1 where
      m: "mkdir_all no_failure (s @ butlast o') fs = (fs1, None)" and
      c: "chain (s @ butlast o') fs1" "wf_map fs1" and
      at: "\<And>r. r \<noteq> [] \<Longrightarrow> node_at fs1 (s @ r) =
        (if prefix r (butlast o') then Some Directory else node_at fs (s @ r))"
    by auto
  note put = staged_put [OF st o' ap' c at]
  have "create_file no_failure (s @ o') fs1 = (map_put (s @ o') (File []) fs1, None)"
    using put(1) by (simp add: create_file_def no_failure_def)
  moreover have "map_put (s @ o') (File content) (map_put (s @ o') (File []) fs1) = map_put (s @ o') (File content) fs1"
    by (simp add: map_put_def)
  ultimately have "render_file no_failure E source (s @ o') data fs = (map_put (s @ o') (File content) fs1, None)"
    using parses body put(1)
    by (simp add: render_file_def then_do_def fail_when_def par m lstat_free_def execute_template_def no_failure_def)
  with put(2) show "\<exists>fs'. render_file no_failure E source (s @ o') data fs = (fs', None)
      \<and> staged s ([(o', File content)] @ F) fs'" by simp
qed

section \<open>The rendered repository\<close>

text \<open>An engine that renders every template of the recipe's layers from the given data.\<close>

definition engine_works :: "engine \<Rightarrow> recipe \<Rightarrow> render_data \<Rightarrow> bool" where
  "engine_works E r data \<longleftrightarrow> new_render_data E r = Inr data
     \<and> (\<forall>layer \<in> set (recipe_layers r). \<forall>rel \<in> set (the (layer_files layer)).
          engine_parses E (layer @ rel) \<and> engine_execute E (layer @ rel) data \<noteq> None)"

definition layer_nodes :: "engine \<Rightarrow> render_data \<Rightarrow> path \<Rightarrow> (path \<times> node) list" where
  "layer_nodes E data layer =
     map (\<lambda>rel. (output_components rel, File (the (engine_execute E (layer @ rel) data))))
       (the (layer_files layer))"

definition template_nodes :: "engine \<Rightarrow> recipe \<Rightarrow> render_data \<Rightarrow> (path \<times> node) list" where
  "template_nodes E r data = concat (map (layer_nodes E data) (recipe_layers r))"

text \<open>The skills of the common layer, and their projections.\<close>

definition skill_names :: "string list" where
  "skill_names = [''add-targeting-attribute'', ''change-deployment'', ''explain-evaluation'',
     ''onboard-domain'', ''swap-database'']"

definition skill_link :: "string \<Rightarrow> string \<Rightarrow> path \<times> node" where
  "skill_link name platform =
     ([platform, ''skills'', name, ''SKILL.md''],
      Link [''..'', ''..'', ''..'', ''skills'', name, ''SKILL.md''])"

definition skill_nodes :: "(path \<times> node) list" where
  "skill_nodes = concat (map (\<lambda>name. map (skill_link name) [''.agents'', ''.claude'']) skill_names)"

definition repository_nodes :: "engine \<Rightarrow> recipe \<Rightarrow> render_data \<Rightarrow> (path \<times> node) list" where
  "repository_nodes E r data =
     template_nodes E r data @ skill_nodes
     @ [([''REAPER.yaml''], File (the (engine_yaml E r)))]"

lemma template_nodes_paths:
  assumes "validate_selections r = None"
  shows "map fst (template_nodes E r data) = recipe_outputs r"
proof -
  have "map fst (layer_nodes E data layer) = layer_outputs layer" if "layer \<in> set (recipe_layers r)" for layer
    using layer_is_directory [OF assms that] by (auto simp: layer_nodes_def layer_outputs_def layer_files_def)
  then show ?thesis
    unfolding template_nodes_def recipe_outputs_def map_concat map_map
    by (intro arg_cong [where f = concat] map_cong refl) simp
qed

lemma concat_rev_singletons: "concat (rev (map (\<lambda>x. [g x]) xs)) = rev (map g xs)"
  by (induction xs) simp_all

lemma adds_layer:
  assumes sel: "validate_selections r = None" and layer: "layer \<in> set (recipe_layers r)"
    and works: "engine_works E r data"
  shows "adds s (render_layer no_failure E s data layer) (rev (layer_nodes E data layer))"
proof -
  obtain rels where rels: "layer_files layer = Some rels"
    using layer_is_directory [OF sel layer] by (auto simp: layer_files_def)
  let ?g = "\<lambda>rel. (output_components rel, File (the (engine_execute E (layer @ rel) data)))"
  have "adds s (do_each (\<lambda>rel. render_file no_failure E (layer @ rel) (join_path s (template_output rel)) data) rels)
      (concat (rev (map (\<lambda>rel. [?g rel]) rels)))"
  proof (rule adds_each)
    fix rel assume rel: "rel \<in> set rels"
    note out = output_path [OF sel layer rels rel]
    obtain content where "engine_execute E (layer @ rel) data = Some content" and "engine_parses E (layer @ rel)"
      using works layer rels rel by (force simp: engine_works_def)
    with out show "adds s (render_file no_failure E (layer @ rel) (join_path s (template_output rel)) data) [?g rel]"
      by (simp add: adds_render_file plain_output_def)
  qed
  then show ?thesis
    by (simp add: adds_def render_layer_def rels layer_nodes_def concat_rev_singletons)
qed

lemma adds_skill: "adds s (project_skill no_failure s name platform) [skill_link name platform]"
  unfolding adds_def
proof (intro allI impI)
  fix F fs
  let ?o = "[platform, ''skills'', name, ''SKILL.md'']"
  assume st: "staged s F fs" and ap: "apart_list (map fst ([skill_link name platform] @ F))"
  then have ap': "list_all (apart ?o) (map fst F)" by (simp add: skill_link_def)
  have "\<not> prefix f (butlast ?o)" if "f \<in> fst ` set F" for f
  proof
    assume "prefix f (butlast ?o)"
    then have "prefix f ?o" by (metis append_butlast_last_id list.distinct(1) prefix_prefix)
    with ap' that show False by (auto simp: list_all_iff apart_def)
  qed
  from staged_mkdir [OF st refl this] obtain fs1 where
      m: "mkdir_all no_failure (s @ butlast ?o) fs = (fs1, None)" and
      c: "chain (s @ butlast ?o) fs1" "wf_map fs1" and
      at: "\<And>r. r \<noteq> [] \<Longrightarrow> node_at fs1 (s @ r) =
        (if prefix r (butlast ?o) then Some Directory else node_at fs (s @ r))"
    by auto
  note put = staged_put [OF st _ ap' c at]
  have "project_skill no_failure s name platform fs
      = (map_put (s @ ?o) (snd (skill_link name platform)) fs1, None)"
    using put(1) m by (simp add: project_skill_def then_do_def symlink_def skill_link_def no_failure_def)
  with put(2) show "\<exists>fs'. project_skill no_failure s name platform fs = (fs', None)
      \<and> staged s ([skill_link name platform] @ F) fs'"
    by (simp add: skill_link_def)
qed

text \<open>Reading a staged directory that holds only directories.\<close>

lemma read_dir_staged:
  assumes st: "staged s F fs" and d: "list_ex (strict_prefix d) (map fst F)" "d \<noteq> []"
    and names: "sorted names" "distinct names"
    and mem: "\<And>n. n \<in> set names \<longleftrightarrow> list_ex (strict_prefix (d @ [n])) (map fst F)"
    and files: "\<And>n. map_of F d = None \<and> map_of F (d @ [n]) = None"
  shows "read_dir no_failure (s @ d) fs = Inr (map (\<lambda>n. (n, Directory)) names)"
proof -
  from st have wf: "wf_map fs" and tree: "tree_at fs s F" by (auto simp: staged_def)
  define hits where "hits = filter (\<lambda>(q, n). q \<noteq> [] \<and> butlast q = s @ d) fs"
  define L where "L = map (\<lambda>(q, n). (last q, n)) hits"
  have dir: "node_at fs (s @ d) = Some Directory"
    using tree d files by (simp add: tree_at_def)
  have child: "node_at fs (s @ d @ [n]) = (if n \<in> set names then Some Directory else None)" for n
    using tree [unfolded tree_at_def, rule_format, of "d @ [n]"] mem [of n] files [of n] by simp
  have hit: "(q, nd) \<in> set hits \<longleftrightarrow> (\<exists>n. q = s @ d @ [n] \<and> n \<in> set names \<and> nd = Directory)" for q nd
  proof -
    have "(q, nd) \<in> set hits \<longleftrightarrow> (\<exists>n. q = s @ d @ [n] \<and> map_get fs q = Some nd)"
      unfolding hits_def map_get_Some_iff [OF wf]
      by (auto simp: butlast_append intro!: exI [of _ "last q"] dest: append_butlast_last_id [symmetric])
    also have "\<dots> \<longleftrightarrow> (\<exists>n. q = s @ d @ [n] \<and> node_at fs q = Some nd)"
      by (auto simp: node_at_def)
    finally show ?thesis using child by (auto split: if_splits)
  qed
  have "distinct (map fst hits)" using wf by (simp add: hits_def wf_map_def distinct_map_filter)
  moreover have "inj_on last (fst ` set hits)"
    by (rule inj_onI) (auto simp: hit)
  ultimately have dL: "distinct (map fst L)"
    by (simp add: L_def comp_def case_prod_unfold distinct_map inj_on_def image_iff)
  have setL: "set L = (\<lambda>n. (n, Directory)) ` set names"
  proof (intro equalityI subsetI)
    fix x assume "x \<in> set L"
    then obtain q nd where "(q, nd) \<in> set hits" "x = (last q, nd)" by (auto simp: L_def)
    then show "x \<in> (\<lambda>n. (n, Directory)) ` set names" by (auto simp: hit)
  next
    fix x assume "x \<in> (\<lambda>n. (n, Directory)) ` set names"
    then obtain n where "n \<in> set names" and x: "x = (n, Directory)" by auto
    then have "(s @ d @ [n], Directory) \<in> set hits" by (simp add: hit)
    then show "x \<in> set L" unfolding L_def set_map x by (rule rev_image_eqI) simp
  qed
  have "distinct (map fst (sort_key fst L))" using dL by (simp add: distinct_map)
  moreover have "set (map fst (sort_key fst L)) = set names" using setL by (auto simp: image_iff)
  ultimately have "map fst (sort_key fst L) = names"
    using names by (intro sorted_distinct_set_unique) simp_all
  moreover have "sort_key fst L = map (\<lambda>n. (n, Directory)) (map fst (sort_key fst L))"
    unfolding map_map by (rule map_idI [symmetric]) (use setL in auto)
  ultimately show ?thesis
    using dir by (simp add: read_dir_def no_failure_def L_def [symmetric] hits_def [symmetric])
qed

section \<open>Rendering succeeds\<close>

lemma other_heads:
  "l \<in> set languages \<Longrightarrow> list_all (\<lambda>p. hd p \<noteq> ''skills'') (layer_outputs (base_layer l))"
  "l \<in> set languages \<Longrightarrow> d \<in> set databases \<Longrightarrow>
     list_all (\<lambda>p. hd p \<noteq> ''skills'') (layer_outputs (database_layer l d))"
  "t \<in> set targets \<Longrightarrow> list_all (\<lambda>p. hd p \<noteq> ''skills'') (layer_outputs (deployment_layer t))"
proof -
  show "list_all (\<lambda>p. hd p \<noteq> ''skills'') (layer_outputs (base_layer l))" if "l \<in> set languages"
    using that unfolding languages_def
    by (simp only: list.set insert_iff empty_iff, elim disjE)
       (simp_all add: go_base_outputs typescript_base_outputs python_base_outputs)
  show "list_all (\<lambda>p. hd p \<noteq> ''skills'') (layer_outputs (database_layer l d))"
    if "l \<in> set languages" "d \<in> set databases"
    using that unfolding languages_def databases_def
    by (simp only: list.set insert_iff empty_iff, elim disjE)
       (simp_all add: go_outputs typescript_outputs python_outputs)
  show "list_all (\<lambda>p. hd p \<noteq> ''skills'') (layer_outputs (deployment_layer t))" if t: "t \<in> set targets"
    using target_good [OF t] by (auto simp: list_all_iff)
qed

lemma common_skills:
  "filter (\<lambda>p. hd p = ''skills'') (layer_outputs common_layer)
     = map (\<lambda>n. [''skills'', n, ''SKILL.md'']) skill_names"
  by (simp add: common_outputs skill_names_def)

text \<open>What a recipe's outputs put below \<^verbatim>\<open>skills\<close>.\<close>

lemma skills_outputs:
  assumes sel: "validate_selections r = None"
  shows "p \<in> set (recipe_outputs r) \<and> hd p = ''skills'' \<longleftrightarrow> (\<exists>n \<in> set skill_names. p = [''skills'', n, ''SKILL.md''])"
proof -
  from sel have l: "recipe_language r \<in> set languages" and d: "recipe_database r \<in> set databases"
      and t: "recipe_target r \<in> set targets"
    unfolding selections_None using find_language_values find_database_values find_deployment_values
    by blast+
  have "p \<in> set (recipe_outputs r) \<and> hd p = ''skills'' \<longleftrightarrow>
      p \<in> set (filter (\<lambda>p. hd p = ''skills'') (layer_outputs common_layer))"
    using other_heads(1) [OF l] other_heads(2) [OF l d] other_heads(3) [OF t]
    by (auto simp: recipe_outputs_sources source_outputs_def list_all_iff)
  then show ?thesis unfolding common_skills by auto
qed

lemma skill_paths_apart: "apart_list (map fst skill_nodes)"
  by (simp add: skill_nodes_def skill_names_def skill_link_def apart_step)

lemma repository_nodes_apart:
  assumes sel: "validate_selections r = None"
  shows "apart_list (map fst (repository_nodes E r data))"
proof -
  note good = recipe_outputs_good [OF sel]
  have heads: "p \<noteq> [] \<and> hd p \<in> set added_heads" if "p \<in> fst ` set skill_nodes" for p
    using that by (auto simp: skill_nodes_def skill_link_def added_heads_def)
  have skills: "hd p \<in> {''.agents'', ''.claude''}" if "p \<in> fst ` set skill_nodes" for p
    using that by (auto simp: skill_nodes_def skill_link_def)
  have out: "p \<noteq> [] \<and> hd p \<notin> set added_heads" if "p \<in> set (recipe_outputs r)" for p
    using good that by (auto simp: good_outputs_def plain_output_def list_all_iff)
  have "apart p q" if "p \<in> set (recipe_outputs r)" "q \<in> fst ` set skill_nodes \<union> {[''REAPER.yaml'']}" for p q
  proof -
    have "q \<noteq> [] \<and> hd q \<in> set added_heads" using that(2) heads [of q] by (auto simp: added_heads_def)
    with out [OF that(1)] show ?thesis by (intro apart_heads) auto
  qed
  moreover have "apart p [''REAPER.yaml'']" if "p \<in> fst ` set skill_nodes" for p
    using heads [OF that] skills [OF that] by (intro apart_heads) auto
  ultimately show ?thesis
    using good skill_paths_apart
    by (auto simp: repository_nodes_def apart_list_append template_nodes_paths [OF sel] good_outputs_def)
qed

lemma staged_write_file:
  assumes st: "staged s F fs" and o': "list_all (apart [c]) (map fst F)"
  shows "\<exists>fs'. write_file no_failure (s @ [c]) body fs = (fs', None) \<and> staged s (([c], File body) # F) fs'"
proof -
  have c: "chain (s @ butlast [c]) fs" "wf_map fs" using st by (simp_all add: staged_def)
  from staged_put(1) [OF st _ o' c] staged_put(2) [OF st _ o' c, where n = "File body"] show ?thesis by (simp add: write_file_def no_failure_def)
qed

lemma rev_concat_layers:
  "concat (rev (map (\<lambda>l. rev (f l)) xs)) = rev (concat (map f xs))"
  by (induction xs) simp_all

lemma skills_staged:
  assumes sel: "validate_selections r = None" and st: "staged s (rev (template_nodes E r data)) fs"
  shows "\<exists>fs'. project_skills no_failure s fs = (fs', None)
     \<and> staged s (rev skill_nodes @ rev (template_nodes E r data)) fs'"
proof -
  let ?T = "rev (template_nodes E r data)"
  have paths: "set (map fst ?T) = set (recipe_outputs r)"
    using template_nodes_paths [OF sel, of E data] by (metis rev_map set_rev)
  have prefix_hd: "p \<in> set (recipe_outputs r) \<Longrightarrow> strict_prefix (''skills'' # u) p \<Longrightarrow>
      \<exists>n \<in> set skill_names. p = [''skills'', n, ''SKILL.md'']" for p u
    using skills_outputs [OF sel, of p] by (cases p) (auto simp: strict_prefix_def)
  have in_out: "[''skills'', n, ''SKILL.md''] \<in> set (recipe_outputs r)" if "n \<in> set skill_names" for n
    using skills_outputs [OF sel] that by blast
  have no_file: "map_of ?T p = None" if "hd p = ''skills''" "length p < 3" for p
  proof -
    have "p \<notin> set (recipe_outputs r)" using skills_outputs [OF sel, of p] that by auto
    then show ?thesis using paths by (auto simp: map_of_eq_None_iff)
  qed
  have "read_dir no_failure (s @ [''skills'']) fs = Inr (map (\<lambda>n. (n, Directory)) skill_names)"
  proof (rule read_dir_staged [OF st])
    show "list_ex (strict_prefix [''skills'']) (map fst ?T)"
      unfolding list_ex_iff paths using in_out [of "''swap-database''"]
      by (intro bexI [of _ "[''skills'', ''swap-database'', ''SKILL.md'']"])
         (simp_all add: skill_names_def strict_prefix_def)
    show "n \<in> set skill_names \<longleftrightarrow> list_ex (strict_prefix ([''skills''] @ [n])) (map fst ?T)" for n
    proof
      assume "n \<in> set skill_names"
      then show "list_ex (strict_prefix ([''skills''] @ [n])) (map fst ?T)"
        unfolding list_ex_iff paths by (auto simp: strict_prefix_def intro!: bexI [OF _ in_out])
    next
      assume "list_ex (strict_prefix ([''skills''] @ [n])) (map fst ?T)"
      then obtain p where p: "p \<in> set (recipe_outputs r)" "strict_prefix (''skills'' # [n]) p"
        unfolding list_ex_iff paths by auto
      from prefix_hd [OF this] obtain m where "m \<in> set skill_names" "p = [''skills'', m, ''SKILL.md'']" by blast
      with p(2) show "n \<in> set skill_names" by (simp add: strict_prefix_def)
    qed
    show "map_of ?T [''skills''] = None \<and> map_of ?T ([''skills''] @ [n]) = None" for n
      by (intro conjI no_file) simp_all
  qed (simp_all add: skill_names_def)
  moreover have "adds s (do_each (\<lambda>(name, n). if n \<noteq> Directory then (\<lambda>fs. (fs, None))
      else do_each (project_skill no_failure s name) [''.agents'', ''.claude''])
        (map (\<lambda>n. (n, Directory)) skill_names)) (rev skill_nodes)"
  proof -
    have "adds s (case x of (name, n) \<Rightarrow> if n \<noteq> Directory then (\<lambda>fs. (fs, None))
        else do_each (project_skill no_failure s name) [''.agents'', ''.claude''])
        (rev (map (skill_link (fst x)) [''.agents'', ''.claude'']))"
      if "x \<in> set (map (\<lambda>n. (n, Directory)) skill_names)" for x
    proof -
      from that obtain name where x: "x = (name, Directory)" by auto
      have "adds s (do_each (project_skill no_failure s name) [''.agents'', ''.claude''])
          (concat (rev (map (\<lambda>p. [skill_link name p]) [''.agents'', ''.claude''])))"
        by (rule adds_each) (rule adds_skill)
      then show ?thesis unfolding x by (simp only: prod.case simp_thms if_False fst_conv concat_rev_singletons)
    qed
    then have "adds s (do_each (\<lambda>(name, n). if n \<noteq> Directory then (\<lambda>fs. (fs, None))
        else do_each (project_skill no_failure s name) [''.agents'', ''.claude''])
          (map (\<lambda>n. (n, Directory)) skill_names))
        (concat (rev (map (\<lambda>x. rev (map (skill_link (fst x)) [''.agents'', ''.claude'']))
          (map (\<lambda>n. (n, Directory)) skill_names))))"
      by (rule adds_each)
    then show ?thesis
      by (simp only: map_map comp_def fst_conv rev_concat_layers skill_nodes_def)
  qed
  moreover have "apart_list (map fst (rev skill_nodes @ ?T))"
  proof -
    have "apart_list (map fst (template_nodes E r data @ skill_nodes))"
      using repository_nodes_apart [OF sel, of E data]
      by (simp add: repository_nodes_def apart_list_append)
    moreover have "mset (map fst (rev skill_nodes @ ?T)) = mset (map fst (template_nodes E r data @ skill_nodes))"
      by (simp add: rev_map [symmetric])
    ultimately show ?thesis using apart_list_mset by blast
  qed
  ultimately show ?thesis
    using addsD [OF _ st, of _ "rev skill_nodes"] by (simp add: project_skills_def)
qed

lemma render_succeeds:
  assumes sel: "validate_selections r = None" and works: "engine_works E r data"
    and st: "staged s [] fs"
  shows "\<exists>fs'. render_repository no_failure E s r fs = (fs', None)
     \<and> staged s (rev (repository_nodes E r data)) fs'"
proof -
  note apart = repository_nodes_apart [OF sel, of E data]
  have "adds s (do_each (render_layer no_failure E s data) (recipe_layers r)) (rev (template_nodes E r data))"
    unfolding template_nodes_def rev_concat_layers [symmetric]
    by (rule adds_each) (rule adds_layer [OF sel _ works])
  moreover have "apart_list (map fst (rev (template_nodes E r data) @ []))"
  proof -
    have "apart_list (map fst (template_nodes E r data))"
      using apart by (simp add: repository_nodes_def apart_list_append)
    moreover have "mset (map fst (rev (template_nodes E r data) @ [])) = mset (map fst (template_nodes E r data))"
      by (simp add: rev_map [symmetric])
    ultimately show ?thesis using apart_list_mset by blast
  qed
  ultimately obtain fs1 where
      one: "do_each (render_layer no_failure E s data) (recipe_layers r) fs = (fs1, None)"
      and st1: "staged s (rev (template_nodes E r data)) fs1"
    using addsD [OF _ st] by fastforce
  from skills_staged [OF sel st1] obtain fs2 where
      two: "project_skills no_failure s fs1 = (fs2, None)"
      and st2: "staged s (rev skill_nodes @ rev (template_nodes E r data)) fs2" by blast
  obtain yaml where yaml: "engine_yaml E r = Some yaml" "encode_recipe E r = Inr yaml"
    using works by (auto simp: engine_works_def new_render_data_def encode_recipe_def split: option.splits sum.splits)
  have "list_all (apart [''REAPER.yaml'']) (map fst (rev skill_nodes @ rev (template_nodes E r data)))"
    using apart by (auto simp: repository_nodes_def apart_list_append list_all_iff apart_sym)
  from staged_write_file [OF st2 this, of yaml] obtain fs3 where
      three: "write_file no_failure (s @ [''REAPER.yaml'']) yaml fs2 = (fs3, None)"
      and st3: "staged s (([''REAPER.yaml''], File yaml) # rev skill_nodes @ rev (template_nodes E r data)) fs3"
    by blast
  have "render_repository no_failure E s r fs = (fs3, None)"
    using works one two three yaml by (simp add: render_repository_def engine_works_def then_do_def)
  moreover have "([''REAPER.yaml''], File yaml) # rev skill_nodes @ rev (template_nodes E r data)
      = rev (repository_nodes E r data)"
    by (simp add: repository_nodes_def yaml)
  ultimately show ?thesis using st3 by metis
qed

section \<open>The archive of a staged tree\<close>

definition file_content :: "(path \<times> node) list \<Rightarrow> path \<Rightarrow> string option" where
  "file_content F p = (case map_of F p of
     Some (File content) \<Rightarrow> Some content
   | Some (Link target) \<Rightarrow> (case map_of F (join_components (parent p) target) of
       Some (File content) \<Rightarrow> Some content | _ \<Rightarrow> None)
   | _ \<Rightarrow> None)"

definition archive_of :: "string \<Rightarrow> (path \<times> node) list \<Rightarrow> (string \<times> string) list" where
  "archive_of root F = map (\<lambda>p. (slashed (root # p), the (file_content F p))) (sort (map fst F))"

lemma append_le: "xs \<le> ys \<Longrightarrow> s @ xs \<le> s @ (ys :: string list)"
  by (induction s) auto

lemma sorted_append_prefix: "sorted xs \<Longrightarrow> sorted (map (\<lambda>p. s @ p) (xs :: path list))"
  by (simp add: sorted_map sorted_wrt_mono_rel [OF append_le])

lemma map_of_rev: "distinct (map fst F) \<Longrightarrow> map_of (rev F) = map_of F"
  by (rule map_of_inject_set [THEN iffD2]) (simp_all add: rev_map [symmetric])

lemma tree_at_rev: "distinct (map fst F) \<Longrightarrow> tree_at fs s (rev F) \<longleftrightarrow> tree_at fs s F"
  by (simp add: tree_at_def map_of_rev list_ex_iff rev_map [symmetric])

lemma walk_staged:
  assumes sne: "s \<noteq> []" and ch: "chain s fs" and wf: "wf_map fs" and tree: "tree_at fs s F" and dist: "distinct (map fst F)"
    and nodes: "\<And>p n. (p, n) \<in> set F \<Longrightarrow> p \<noteq> [] \<and> n \<noteq> Directory"
  shows "walk_files fs s = map (\<lambda>p. s @ p) (sort (map fst F))"
proof -
  let ?W = "map fst (filter (\<lambda>(q, n). prefix s q \<and> n \<noteq> Directory) fs)"
  have "q \<in> set ?W \<longleftrightarrow> (\<exists>n. map_get fs q = Some n \<and> n \<noteq> Directory \<and> prefix s q)" for q
    by (force simp: map_get_Some_iff [OF wf])
  also have "\<dots> q \<longleftrightarrow> (\<exists>p \<in> fst ` set F. q = s @ p)" for q
  proof
    assume "\<exists>n. map_get fs q = Some n \<and> n \<noteq> Directory \<and> prefix s q"
    then obtain n p where n: "map_get fs q = Some n" "n \<noteq> Directory" "q = s @ p" by (auto simp: prefix_def)
    with ch sne have "p \<noteq> []" by (auto simp: chain_def node_at_def split: if_splits)
    with n tree have "map_of F p = Some n"
      by (auto simp: tree_at_def node_at_def split: option.splits if_splits)
    then show "\<exists>p \<in> fst ` set F. q = s @ p" using n(3) by (force dest: map_of_SomeD)
  next
    assume "\<exists>p \<in> fst ` set F. q = s @ p"
    then obtain p n where p: "(p, n) \<in> set F" "q = s @ p" by auto
    with nodes have ne: "p \<noteq> []" "n \<noteq> Directory" by auto
    with p dist tree have "node_at fs q = Some n" by (simp add: tree_at_def)
    with ne p show "\<exists>n. map_get fs q = Some n \<and> n \<noteq> Directory \<and> prefix s q"
      by (auto simp: node_at_def)
  qed
  finally have mem: "q \<in> set ?W \<longleftrightarrow> (\<exists>p \<in> fst ` set F. q = s @ p)" for q .
  have "set ?W = set (map (\<lambda>p. s @ p) (sort (map fst F)))"
  proof (rule set_eqI)
    fix q
    show "q \<in> set ?W \<longleftrightarrow> q \<in> set (map (\<lambda>p. s @ p) (sort (map fst F)))"
      by (subst mem) (auto simp: image_iff)
  qed
  moreover have "distinct ?W" using wf by (simp add: wf_map_def distinct_map_filter)
  moreover have "distinct (map (\<lambda>p. s @ p) (sort (map fst F)))"
    using dist by (simp add: distinct_map inj_on_def)
  ultimately show ?thesis
    unfolding walk_files_def
    by (intro sorted_distinct_set_unique) (simp_all add: sorted_append_prefix)
qed

lemma archive_entries_succeed:
  "(\<And>p. p \<in> set ps \<Longrightarrow> read_content fs (s @ p) = Some (f p)) \<Longrightarrow>
     archive_entries no_failure s root fs (map (\<lambda>p. s @ p) ps) = Inr (map (\<lambda>p. (slashed (root # p), f p)) ps)"
  by (induction ps) (simp_all add: archive_entry_def no_failure_def)

lemma read_staged:
  assumes tree: "tree_at fs s F" and p: "p \<noteq> []" and content: "file_content F p = Some content"
    and links: "\<And>target. map_of F p = Some (Link target) \<Longrightarrow>
      join_components (parent (s @ p)) target = s @ join_components (parent p) target
      \<and> join_components (parent p) target \<noteq> []"
  shows "read_content fs (s @ p) = Some content"
proof (cases "map_of F p")
  case None
  with content show ?thesis by (simp add: file_content_def)
next
  case (Some n)
  with tree p have at: "node_at fs (s @ p) = Some n" by (simp add: tree_at_def)
  show ?thesis
  proof (cases n)
    case (Link target)
    with Some content have "map_of F (join_components (parent p) target) = Some (File content)"
      by (auto simp: file_content_def split: option.splits node.splits)
    with tree links [of target] Some Link at show ?thesis
      by (simp add: read_content_def follow_def tree_at_def)
  qed (use at Some content in \<open>auto simp: read_content_def follow_def file_content_def\<close>)
qed

lemma write_archive_succeeds:
  assumes "node_at fs (parent z) = Some Directory"
    and "node_at fs (parent z @ [''.reaper-archive-'' @ drawn]) = None"
    and "node_at fs z = None" and "z \<noteq> parent z @ [''.reaper-archive-'' @ drawn]"
    and "archive_entries no_failure s root (map_put (parent z @ [''.reaper-archive-'' @ drawn]) (File []) fs)
       (walk_files (map_put (parent z @ [''.reaper-archive-'' @ drawn]) (File []) fs) s) = Inr entries"
  shows "snd (write_archive no_failure drawn s z root fs) = None"
  using assms
  by (simp add: write_archive_def create_temp_def hard_link_def remove_file_def no_failure_def Let_def)

section \<open>What is delivered\<close>

lemma join_up_three:
  "list_all plain_component cs \<Longrightarrow>
     join_components (s @ [x, y, z]) (''..'' # ''..'' # ''..'' # cs) = s @ cs"
proof -
  assume cs: "list_all plain_component cs"
  have "join_components (s @ [x, y, z]) (''..'' # ''..'' # ''..'' # cs) = join_components s cs"
    by (simp add: join_components_def walk_component_def butlast_append)
  then show ?thesis using join_components_plain [OF cs] by simp
qed

lemma skill_names_plain: "name \<in> set skill_names \<Longrightarrow> list_all plain_component [''skills'', name, ''SKILL.md'']"
  by (auto simp: skill_names_def plain_component_def)

lemma repository_nodes_cases:
  assumes "(p, n) \<in> set (repository_nodes E r data)"
  obtains (plain) content where "n = File content"
  | (projection) name platform where "name \<in> set skill_names" and
      "p = [platform, ''skills'', name, ''SKILL.md'']" and
      "n = Link [''..'', ''..'', ''..'', ''skills'', name, ''SKILL.md'']"
  using assms unfolding repository_nodes_def
  by (auto simp: template_nodes_def layer_nodes_def skill_nodes_def skill_link_def)

lemma repository_distinct:
  "validate_selections r = None \<Longrightarrow> distinct (map fst (repository_nodes E r data))"
  using repository_nodes_apart [of r E data] by (simp add: apart_list_iff)

lemma repository_paths:
  assumes "validate_selections r = None" and "(p, n) \<in> set (repository_nodes E r data)"
  shows "p \<noteq> [] \<and> n \<noteq> Directory"
proof -
  have "p \<noteq> []" if "(p, n) \<in> set (template_nodes E r data)"
  proof -
    have "p \<in> set (recipe_outputs r)"
      using that template_nodes_paths [OF assms(1), of E data] by (metis fst_conv image_eqI set_map)
    with recipe_outputs_good [OF assms(1)] show ?thesis
      by (auto simp: good_outputs_def plain_output_def list_all_iff)
  qed
  with assms(2) show ?thesis
    by (auto simp: repository_nodes_def template_nodes_def layer_nodes_def skill_nodes_def skill_link_def)
qed

text \<open>Every delivered path has a content; that of a projection is the skill's.\<close>

lemma repository_content:
  assumes sel: "validate_selections r = None" and p: "p \<in> fst ` set (repository_nodes E r data)"
  shows "\<exists>content. file_content (repository_nodes E r data) p = Some content"
proof -
  let ?F = "repository_nodes E r data"
  note dist = repository_distinct [OF sel, of E data]
  from p obtain n where pn: "(p, n) \<in> set ?F" by auto
  with dist have at: "map_of ?F p = Some n" by simp
  from pn show ?thesis
  proof (cases rule: repository_nodes_cases)
    case (plain content)
    with at show ?thesis by (simp add: file_content_def)
  next
    case (projection name platform)
    have "[''skills'', name, ''SKILL.md''] \<in> fst ` set (template_nodes E r data)"
      using skills_outputs [OF sel, of "[''skills'', name, ''SKILL.md'']"] projection(1)
      unfolding set_map [symmetric] template_nodes_paths [OF sel] by blast
    then obtain m where "([''skills'', name, ''SKILL.md''], m) \<in> set (template_nodes E r data)" by auto
    moreover from this obtain content where "m = File content"
      by (auto simp: template_nodes_def layer_nodes_def)
    ultimately have "([''skills'', name, ''SKILL.md''], File content) \<in> set ?F"
      by (simp add: repository_nodes_def)
    with dist have "map_of ?F [''skills'', name, ''SKILL.md''] = Some (File content)" by simp
    moreover have "join_components (parent p) [''..'', ''..'', ''..'', ''skills'', name, ''SKILL.md'']
        = [''skills'', name, ''SKILL.md'']"
      using join_up_three [OF skill_names_plain [OF projection(1)], of "[]"] projection(2) by (simp add: parent_def)
    ultimately show ?thesis using at projection(3) by (simp add: file_content_def)
  qed
qed

text \<open>A disk on which the recipe's artifacts can be put at \<open>a\<close>.\<close>

abbreviation staging_path :: "names \<Rightarrow> path \<Rightarrow> path" where
  "staging_path N a \<equiv> parent a @ [''.reaper-generate-'' @ staging_suffix N]"

definition ready :: "names \<Rightarrow> path \<Rightarrow> delivery_artifacts \<Rightarrow> disk \<Rightarrow> bool" where
  "ready N a artifacts fs \<longleftrightarrow> wf_disk fs \<and> wf_map fs \<and> a \<noteq> []
     \<and> list_all (\<lambda>q. node_at fs q = None \<or> node_at fs q = Some Directory) (prefixes (parent a))
     \<and> list_all (\<lambda>p. node_at fs p = None) (artifact_paths artifacts a)
     \<and> list_all (\<lambda>p. node_at fs p = None \<and> p \<notin> set (artifact_paths artifacts a))
         [staging_path N a, archive_temporary N a]"

lemma artifact_parent: "a \<noteq> [] \<Longrightarrow> p \<in> set (artifact_paths artifacts a) \<Longrightarrow> parent p = parent a"
  by (auto simp: artifact_paths_def)

lemma ensure_available_ready:
  assumes "\<And>p. p \<in> set ps \<Longrightarrow> node_at fs p = None \<and> parent p = d"
    and "list_all (\<lambda>q. node_at fs q = None \<or> node_at fs q = Some Directory) (prefixes d)"
  shows "ensure_available no_failure fs ps = None"
proof -
  have "stat no_failure fs p = Inr False" if "p \<in> set ps" for p
    using assms(1) [OF that] assms(2)
    by (auto simp: stat_def obstructed_def follow_def no_failure_def list_ex_iff list_all_iff parent_def)
  then show ?thesis by (induction ps) simp_all
qed

lemma prepare_succeeds:
  assumes ready: "ready N a (delivery_artifacts_of d) fs"
    and abs: "absolute_path no_failure cwd destination = Inr a" and d: "find_delivery delivery = Some d"
  shows "\<exists>fs1. prepare_destination no_failure N cwd destination delivery fs = (fs1, Inr (a, staging_path N a))
     \<and> wf_map fs1"
proof -
  let ?s = "staging_path N a"
  from ready have wf: "wf_map fs" and ne: "a \<noteq> []" and s: "node_at fs ?s = None"
    and par: "list_all (\<lambda>q. node_at fs q = None \<or> node_at fs q = Some Directory) (prefixes (parent a))"
    and free: "list_all (\<lambda>p. node_at fs p = None) (artifact_paths (delivery_artifacts_of d) a)"
    by (simp_all add: ready_def)
  have "ensure_available no_failure fs (artifact_paths (delivery_artifacts_of d) a) = None"
    using free artifact_parent [OF ne]
    by (intro ensure_available_ready [OF _ par]) (auto simp: list_all_iff)
  moreover obtain fsa e where m: "mkdir_all no_failure (parent a) fs = (fsa, e)" by fastforce
  moreover have e: "e = None"
    using mkdir_each_succeeds [of "prefixes (parent a)" fs] par m
    by (auto simp: mkdir_all_def list_all_iff)
  moreover have "mkdir_temp no_failure (parent a) (''.reaper-generate-'' @ staging_suffix N) fsa
      = (map_put ?s Directory fsa, Inr ?s)"
  proof -
    have ch: "chain (parent a) fsa" using mkdir_all_chain [of no_failure "parent a" fs] m e by simp
    have "\<not> prefix ?s (parent a)" using prefix_length_le [of ?s "parent a"] by auto
    then have "node_at fsa ?s = None"
      using mkdir_all_adds(2) [OF s, of no_failure "parent a"] m by (metis fst_conv)
    with ch show ?thesis
      by (auto simp: mkdir_temp_def obstructed_def no_failure_def chain_def list_ex_iff Let_def)
  qed
  moreover have "wf_map (map_put ?s Directory fsa)"
    using wf_mkdir_each [OF wf, of no_failure "prefixes (parent a)"] m by (simp add: mkdir_all_def)
  ultimately show ?thesis using abs d by (simp add: prepare_destination_def)
qed

lemma node_at_outside_staging:
  assumes sel: "validate_selections r = None" and ready: "ready N a (delivery_artifacts_of d) fs"
    and prep: "prepare_destination no_failure N cwd destination delivery fs = (fs1, Inr (a, staging_path N a))"
    and ren: "render_repository no_failure E (staging_path N a) r fs1 = (fs2, None)"
    and q: "\<not> prefix (staging_path N a) q"
  shows "node_at fs2 q = (if prefix q (parent a) then Some Directory else node_at fs q)"
proof -
  let ?s = "staging_path N a"
  from prepare_effect [OF prep] have ch: "chain ?s fs1"
      and eff: "\<And>q. q \<noteq> ?s \<Longrightarrow> node_at fs1 q = node_at fs q
             \<or> node_at fs q = None \<and> node_at fs1 q = Some Directory \<and> prefix q (parent a)" by auto
  have "node_at fs2 q = node_at fs1 q"
    using step_below_render [OF sel, of ?s no_failure E] ch ren q
    unfolding step_below_def by (metis fst_conv prefix_order.less_imp_le)
  moreover have "node_at fs1 q = (if prefix q (parent a) then Some Directory else node_at fs q)"
    using eff [of q] ch q by (auto simp: chain_def)
  ultimately show ?thesis by simp
qed

lemma staged_start:
  assumes ready: "ready N a (delivery_artifacts_of d) fs" and wf: "wf_map fs1"
    and prep: "prepare_destination no_failure N cwd destination delivery fs = (fs1, Inr (a, staging_path N a))"
  shows "staged (staging_path N a) [] fs1"
proof -
  let ?s = "staging_path N a"
  from prepare_effect [OF prep] have ch: "chain ?s fs1"
      and eff: "\<And>q. q \<noteq> ?s \<Longrightarrow> node_at fs1 q = node_at fs q
             \<or> node_at fs q = None \<and> node_at fs1 q = Some Directory \<and> prefix q (parent a)" by auto
  have "node_at fs1 (?s @ rel) = None" if "rel \<noteq> []" for rel
  proof -
    have "node_at fs (?s @ rel) = None"
      using ready that wf_disk_below [of fs ?s "?s @ rel"] by (simp add: ready_def strict_prefix_def)
    moreover have "\<not> prefix (?s @ rel) (parent a)"
      using prefix_length_le [of "?s @ rel" "parent a"] by auto
    moreover have "?s @ rel \<noteq> ?s" using that by simp
    ultimately show ?thesis using eff [of "?s @ rel"] by metis
  qed
  with ch wf show ?thesis by (simp add: staged_def tree_at_def)
qed

lemma staged_archive:
  assumes sel: "validate_selections r = None" and F: "F = repository_nodes E r data"
    and st: "staged s (rev F) fs" and s: "s \<noteq> []" and t: "t \<noteq> []" "\<not> prefix s t" "\<not> prefix t s"
  shows "archive_entries no_failure s root (map_put t (File []) fs) (walk_files (map_put t (File []) fs) s)
     = Inr (archive_of root F)"
proof -
  let ?fs = "map_put t (File []) fs"
  note dist = repository_distinct [OF sel, of E data, folded F]
  have nodes: "p \<noteq> [] \<and> n \<noteq> Directory" if "(p, n) \<in> set F" for p n
    using repository_paths [OF sel] that F by blast
  have other: "node_at ?fs q = node_at fs q" if "prefix s q \<or> prefix q s" for q
    using that t by auto
  from st have "chain s fs" "wf_map fs" "tree_at fs s F" by (simp_all add: staged_def tree_at_rev dist)
  then have ch: "chain s ?fs" and wf: "wf_map ?fs" and tree: "tree_at ?fs s F"
    using other by (simp_all add: chain_def tree_at_def)
  have "walk_files ?fs s = map (\<lambda>p. s @ p) (sort (map fst F))"
    by (rule walk_staged [OF s ch wf tree dist nodes])
  moreover
  have "read_content ?fs (s @ p) = Some (the (file_content F p))" if p: "p \<in> set (sort (map fst F))" for p
  proof -
    from p obtain n where pn: "(p, n) \<in> set F" by auto
    with repository_content [OF sel, of p E data] F obtain content where c: "file_content F p = Some content" by force
    have "read_content ?fs (s @ p) = Some content"
    proof (rule read_staged [OF tree _ c])
      show "p \<noteq> []" using nodes [OF pn] by simp
    next
      fix target assume target: "map_of F p = Some (Link target)"
      with pn dist have n: "n = Link target" by simp
      from pn [unfolded F] show "join_components (parent (s @ p)) target = s @ join_components (parent p) target
          \<and> join_components (parent p) target \<noteq> []"
      proof (cases rule: repository_nodes_cases)
        case (projection name platform)
        have plain: "list_all plain_component [''skills'', name, ''SKILL.md'']"
          by (rule skill_names_plain [OF projection(1)])
        have tgt: "target = ''..'' # ''..'' # ''..'' # [''skills'', name, ''SKILL.md'']"
          using projection(3) n by simp
        have "parent (s @ p) = s @ [platform, ''skills'', name]" "parent p = [] @ [platform, ''skills'', name]"
          using projection(2) by (simp_all add: parent_def butlast_append)
        then show ?thesis
          unfolding tgt using join_up_three [OF plain, of s] join_up_three [OF plain, of "[]"] by simp
      qed (use n in simp)
    qed
    with c show ?thesis by simp
  qed
  then have "archive_entries no_failure s root ?fs (map (\<lambda>p. s @ p) (sort (map fst F))) = Inr (archive_of root F)"
    unfolding archive_of_def by (rule archive_entries_succeed)
  ultimately show ?thesis by simp
qed

lemma publish_succeeds:
  assumes pub: "publish_repository no_failure N s a r fs = (fs', res)"
    and d: "find_delivery (recipe_delivery r) = Some d"
    and self: "artifact_directory (delivery_artifacts_of d) \<Longrightarrow> \<not> prefix s a"
    and free: "\<And>p. p \<in> set (artifact_paths (delivery_artifacts_of d) a) \<Longrightarrow> node_at fs p = None"
    and tt: "archive_temporary N a \<notin> set (artifact_paths (delivery_artifacts_of d) a)"
    and tn: "node_at fs (archive_temporary N a) = None"
    and dir: "node_at fs (parent a) = Some Directory"
    and arch: "archive_entries no_failure s (recipe_name r) (map_put (archive_temporary N a) (File []) fs)
      (walk_files (map_put (archive_temporary N a) (File []) fs) s) = Inr entries"
    and ne: "a \<noteq> []"
  shows "\<exists>del. res = Inr del"
proof -
  let ?z = "with_suffix a ''.zip''"
  obtain fs1 e where w: "write_archive no_failure (archive_suffix_drawn N) s ?z (recipe_name r) fs = (fs1, e)"
    by fastforce
  have archived: "e = None \<and> node_at fs1 = (node_at fs)(?z \<mapsto> Archive entries)"
    if "archive_suffix (delivery_artifacts_of d) = ''.zip''"
  proof -
    have z: "?z \<in> set (artifact_paths (delivery_artifacts_of d) a)" using that by (simp add: artifact_paths_def)
    have "?z \<noteq> archive_temporary N a" using z tt by metis
    then have e: "e = None"
      using write_archive_succeeds [of fs ?z "archive_suffix_drawn N" s "recipe_name r" entries]
        free [OF z] tn dir arch w by simp
    have nf: "\<not> no_failure (CallRemove (parent ?z @ [''.reaper-archive-'' @ archive_suffix_drawn N]))"
      by (simp add: no_failure_def)
    have zne: "?z \<noteq> []" by (simp add: with_suffix_def)
    from write_archive_effect [OF w nf zne] e obtain entries' where
        "archive_entries no_failure s (recipe_name r) (map_put (archive_temporary N a) (File []) fs)
          (walk_files (map_put (archive_temporary N a) (File []) fs) s) = Inr entries'"
        and at: "node_at fs1 = (node_at fs)(?z \<mapsto> Archive entries')"
      unfolding with_suffix_parent by blast
    with arch have "entries' = entries" by (metis sum.inject(2))
    with e at show ?thesis by blast
  qed
  have renamed: "snd (rename_directory no_failure s a fs0) = None"
    if "artifact_directory (delivery_artifacts_of d)" "node_at fs0 a = node_at fs a" for fs0
  proof -
    have "node_at fs a = None" using free [of a] that(1) by (simp add: artifact_paths_def)
    with that self show ?thesis by (simp add: rename_directory_def no_failure_def)
  qed
  from find_delivery_facts [OF d] show ?thesis
  proof (elim disjE conjE)
    assume "delivery_publish d = PublishDirectory" "artifact_directory (delivery_artifacts_of d)"
    with renamed [of fs] pub d show ?thesis
      by (auto simp: publish_repository_def publish_directory_def split: prod.splits option.splits)
  next
    assume "delivery_publish d = PublishZip" "archive_suffix (delivery_artifacts_of d) = ''.zip''"
    with archived pub d w show ?thesis
      by (auto simp: publish_repository_def publish_zip_def Let_def split: prod.splits option.splits)
  next
    assume p: "delivery_publish d = PublishDirectoryAndZip" and a: "artifact_directory (delivery_artifacts_of d)"
      "archive_suffix (delivery_artifacts_of d) = ''.zip''"
    have "?z \<noteq> a" using with_suffix_neq [of "''.zip''" a] ne by simp
    with archived a(2) have "node_at fs1 a = node_at fs a" by simp
    from renamed [OF a(1) this] p a archived pub d w show ?thesis
      by (auto simp: publish_repository_def publish_directory_and_zip_def Let_def split: prod.splits option.splits)
  qed
qed

lemma same_length_prefixes: "length p = length q \<Longrightarrow> prefix p r \<Longrightarrow> prefix q r \<Longrightarrow> p = q"
  by (auto simp: prefix_def)

lemma longer_than_parent: "a \<noteq> [] \<Longrightarrow> length q \<ge> length a \<Longrightarrow> \<not> prefix q (parent a)"
  using prefix_length_le [of q "parent a"] by (cases a rule: rev_cases) (auto simp: parent_def)

text \<open>Publishing a staged repository, and removing the staging directory afterwards.\<close>

lemma publish_delivers:
  assumes d: "find_delivery (recipe_delivery r) = Some d"
    and s: "s = parent a @ [n]" "s \<notin> set (artifact_paths (delivery_artifacts_of d) a)" and ne: "a \<noteq> []"
    and t: "t = archive_temporary N a" "t \<notin> set (artifact_paths (delivery_artifacts_of d) a)" "node_at fs t = None"
    and dirs: "node_at fs (parent a) = Some Directory" "node_at fs s = Some Directory"
    and free: "\<And>p. p \<in> set (artifact_paths (delivery_artifacts_of d) a) \<Longrightarrow> node_at fs p = None"
    and below: "\<And>q. artifact_directory (delivery_artifacts_of d) \<Longrightarrow> strict_prefix a q \<Longrightarrow> node_at fs q = None"
    and arch: "archive_entries no_failure s (recipe_name r) (map_put t (File []) fs)
      (walk_files (map_put t (File []) fs) s) = Inr entries"
    and tree: "tree_at fs s F"
  shows "\<exists>fs' del. publish_repository no_failure N s a r fs = (fs', Inr del)
     \<and> promised (delivery_artifacts_of d) a del
     \<and> (delivered_directory del = Some a \<longrightarrow> node_at (remove_all no_failure s fs') a = Some Directory
          \<and> tree_at (remove_all no_failure s fs') a F)
     \<and> (\<forall>z. delivered_archive del = Some z \<longrightarrow> node_at (remove_all no_failure s fs') z = Some (Archive entries))"
proof -
  let ?z = "with_suffix a ''.zip''"
  have len: "length s = length a" "length ?z = length a"
    using ne s(1) by (simp_all add: parent_def with_suffix_def)
  have sa: "s \<noteq> a \<and> \<not> prefix s a" if "artifact_directory (delivery_artifacts_of d)"
    using s(2) that same_length_prefixes [OF len(1), of a] by (auto simp: artifact_paths_def)
  obtain fs3 res where pub: "publish_repository no_failure N s a r fs = (fs3, res)" by fastforce
  have "\<exists>del. res = Inr del"
    using publish_succeeds [OF pub d] sa free t dirs(1) arch ne by blast
  then obtain del where del: "res = Inr del" by blast
  have clean: "cleanup_works no_failure N s a" by (simp add: cleanup_works_def no_failure_def)
  have fr: "a \<noteq> [] \<and> s \<noteq> a \<and> (\<forall>q. strict_prefix a q \<longrightarrow> node_at fs q = None)"
    if "artifact_directory (delivery_artifacts_of d)"
    using ne sa [OF that] below [OF that] by blast
  from publish_effect [OF pub d s(1) dirs(2) fr clean] obtain entries' where
      prom: "promised (delivery_artifacts_of d) a del"
      and view: "node_at fs3 = delivered_view s a del entries' (node_at fs)"
      and en: "delivered_archive del \<noteq> None \<Longrightarrow> entries' = entries"
    unfolding t(1) [symmetric] arch del by auto
  have out: "node_at (remove_all no_failure s fs3) q = (if prefix s q then None else node_at fs3 q)" for q
    by (rule remove_all_effect) (simp_all add: no_failure_def s(1))
  have "node_at (remove_all no_failure s fs3) a = Some Directory \<and> tree_at (remove_all no_failure s fs3) a F"
    if dd: "delivered_directory del = Some a"
  proof -
    have dir: "artifact_directory (delivery_artifacts_of d)"
      using prom dd by (simp add: promised_def split: if_splits)
    have at: "node_at (remove_all no_failure s fs3) (a @ rel) = node_at fs (s @ rel)" for rel
    proof -
      have "\<not> prefix s (a @ rel)"
        using same_length_prefixes [OF len(1), of "a @ rel"] sa [OF dir] by auto
      moreover have "delivered_archive del \<noteq> Some (a @ rel)"
      proof
        assume "delivered_archive del = Some (a @ rel)"
        with prom have z: "?z = a @ rel" by (simp add: promised_def split: if_splits)
        then have "prefix a ?z" by simp
        with same_length_prefixes [OF len(2), of ?z] have "?z = a" by simp
        with with_suffix_neq [of "''.zip''" a] ne show False by simp
      qed
      ultimately show ?thesis using dd by (simp add: out view delivered_view_def)
    qed
    with at [of "[]"] dirs(2) tree show ?thesis by (simp add: tree_at_def)
  qed
  moreover have "node_at (remove_all no_failure s fs3) z = Some (Archive entries)"
    if z: "delivered_archive del = Some z" for z
  proof -
    have zz: "z = ?z" using prom z by (simp add: promised_def split: if_splits)
    have "z \<in> set (artifact_paths (delivery_artifacts_of d) a)"
      using prom z find_delivery_facts [OF d] by (auto simp: promised_def artifact_paths_def split: if_splits)
    with s(2) have "s \<noteq> z" by blast
    then have "\<not> prefix s z"
      using same_length_prefixes [of s z z] len zz by auto
    with z en show ?thesis by (simp add: out view delivered_view_def)
  qed
  ultimately show ?thesis using pub del prom by blast
qed

text \<open>The disk a ready disk becomes before publication, at the places publication uses.\<close>

lemma node_at_before_publish:
  assumes sel: "validate_selections r = None" and ready: "ready N a (delivery_artifacts_of d) fs"
    and prep: "prepare_destination no_failure N cwd destination delivery fs = (fs1, Inr (a, staging_path N a))"
    and ren: "render_repository no_failure E (staging_path N a) r fs1 = (fs2, None)"
    and s: "s = staging_path N a"
    and q: "length q \<ge> length a" "\<not> prefix s q"
  shows "node_at fs2 q = node_at fs q"
  using node_at_outside_staging [OF sel ready prep ren] q longer_than_parent [OF _ q(1)] ready
  unfolding s by (simp add: ready_def)

lemma generation_delivers:
  assumes valid: "validate_recipe r = None" and works: "engine_works E r data"
    and d: "find_delivery (recipe_delivery r) = Some d"
    and abs: "absolute_path no_failure cwd destination = Inr a"
    and ready: "ready N a (delivery_artifacts_of d) fs"
  shows "\<exists>fs' del. generate_repository no_failure E N cwd r destination fs = (fs', Inr del)
     \<and> promised (delivery_artifacts_of d) a del
     \<and> (delivered_directory del = Some a \<longrightarrow>
          node_at fs' a = Some Directory \<and> tree_at fs' a (repository_nodes E r data))
     \<and> (\<forall>z. delivered_archive del = Some z \<longrightarrow>
          node_at fs' z = Some (Archive (archive_of (recipe_name r) (repository_nodes E r data))))"
proof -
  define s t A F where "s = staging_path N a" and "t = archive_temporary N a"
    and "A = artifact_paths (delivery_artifacts_of d) a" and "F = repository_nodes E r data"
  note defs = s_def t_def A_def F_def
  have sel: "validate_selections r = None" using valid by (simp add: validate_recipe_def check_simps)
  have ne: "a \<noteq> []" and wf: "wf_disk fs" and free: "\<And>p. p \<in> set A \<Longrightarrow> node_at fs p = None"
    and st: "node_at fs s = None" "s \<notin> set A" and tt: "node_at fs t = None" "t \<notin> set A"
    using ready unfolding ready_def list_all_iff defs [symmetric] by auto
  have len: "length s = length a" "length t = length a" and neq: "s \<noteq> t"
    using ne by (simp_all add: parent_def defs)
  have lenA: "length p = length a" if "p \<in> set A" for p
    using that ne by (auto simp: A_def artifact_paths_def with_suffix_def split: if_splits)
  obtain fs1 where prep: "prepare_destination no_failure N cwd destination (recipe_delivery r) fs = (fs1, Inr (a, s))"
      and wf1: "wf_map fs1"
    using prepare_succeeds [OF ready abs d] unfolding s_def by blast
  note prep' = prep [unfolded s_def]
  obtain fs2 where ren: "render_repository no_failure E s r fs1 = (fs2, None)"
      and st2: "staged s (rev F) fs2"
    using render_succeeds [OF sel works staged_start [OF ready wf1 prep']] unfolding defs by blast
  have at2: "node_at fs2 q = node_at fs q" if "length q \<ge> length a" "\<not> prefix s q" for q
    by (rule node_at_before_publish [OF sel ready prep' ren [unfolded s_def] s_def that])
  have apart: "\<not> prefix s p" if "length p = length a" "s \<noteq> p" for p
    using same_length_prefixes [of s p p] that len(1) by auto
  have none2: "node_at fs2 p = None" if "p \<in> set A" for p
    using at2 [of p] apart [of p] lenA [OF that] free [OF that] st(2) that by force
  have t2: "node_at fs2 t = None" using at2 [of t] apart [of t] len neq tt(1) by simp
  have dirs: "node_at fs2 (parent a) = Some Directory" "node_at fs2 s = Some Directory"
    using st2 by (simp_all add: staged_def chain_def s_def)
  have nes: "s \<noteq> []" "t \<noteq> []" using len ne by auto
  have arch: "archive_entries no_failure s (recipe_name r) (map_put t (File []) fs2)
      (walk_files (map_put t (File []) fs2) s) = Inr (archive_of (recipe_name r) F)"
    using apart [of t] same_length_prefixes [of t s s] len neq
    by (intro staged_archive [OF sel F_def st2 nes]) auto
  have below: "node_at fs2 q = None"
    if dir: "artifact_directory (delivery_artifacts_of d)" and q: "strict_prefix a q" for q
  proof -
    have a: "a \<in> set A" using dir by (simp add: A_def artifact_paths_def)
    have "\<not> prefix s q"
      using same_length_prefixes [OF len(1), of q] q a st(2) by (auto simp: strict_prefix_def)
    moreover have "node_at fs q = None"
      using wf_disk_below [OF wf, of a q] free [OF a] q by simp
    ultimately show ?thesis using at2 [of q] prefix_length_less [OF q] by simp
  qed
  have tree: "tree_at fs2 s F"
    using st2 tree_at_rev [OF repository_distinct [OF sel]] by (simp add: staged_def F_def)
  obtain fs3 del where pub: "publish_repository no_failure N s a r fs2 = (fs3, Inr del)" and
      res: "promised (delivery_artifacts_of d) a del"
        "delivered_directory del = Some a \<longrightarrow> node_at (remove_all no_failure s fs3) a = Some Directory
            \<and> tree_at (remove_all no_failure s fs3) a F"
        "\<forall>z. delivered_archive del = Some z \<longrightarrow>
           node_at (remove_all no_failure s fs3) z = Some (Archive (archive_of (recipe_name r) F))"
    using publish_delivers [OF d s_def st(2) [unfolded A_def] ne t_def tt(2) [unfolded A_def] t2 dirs
        none2 [unfolded A_def] below arch tree] by blast
  have "generate_repository no_failure E N cwd r destination fs = (remove_all no_failure s fs3, Inr del)"
    using valid prep ren pub by (simp add: generate_repository_def)
  with res show ?thesis unfolding F_def by blast
qed

text \<open>
  C38: a generation that meets no failure delivers exactly the repository. For a valid recipe, an
  engine that renders its templates, and a destination that is free, \<^verbatim>\<open>Generate\<close> succeeds and reports
  the artifacts of the chosen delivery. A delivered directory holds the output of every template of
  the four layers, the two projections of every skill, the recipe, the directories these need, and
  nothing else. A delivered archive has, under the recipe's name, exactly one entry for each of these
  files, in order, with the content the directory has, a projection being stored as the skill it
  points to.
\<close>

theorem generate_delivers:
  assumes valid: "validate_recipe r = None" and works: "engine_works E r data"
    and d: "find_delivery (recipe_delivery r) = Some d"
    and abs: "absolute_path no_failure cwd destination = Inr a"
    and ready: "ready N a (delivery_artifacts_of d) fs"
  shows "\<exists>fs' del. generate_repository no_failure E N cwd r destination fs = (fs', Inr del)
     \<and> promised (delivery_artifacts_of d) a del
     \<and> (delivered_directory del = Some a \<longrightarrow>
          node_at fs' a = Some Directory \<and> tree_at fs' a (repository_nodes E r data))
     \<and> (\<forall>z. delivered_archive del = Some z \<longrightarrow>
          node_at fs' z = Some (Archive (archive_of (recipe_name r) (repository_nodes E r data))))"
  by (rule generation_delivers [OF assms])

lemma default_recipe_valid: "validate_recipe default_recipe = None"
proof -
  have "project_name (recipe_name default_recipe)" by code_simp
  moreover have "validate_deployment default_recipe = None" by code_simp
  ultimately show ?thesis
    using default_selections default_domain
    by (simp add: validate_recipe_def validate_identity_def check_simps) (simp add: default_recipe_def)
qed

lemma sample_engine_works: "\<exists>data. engine_works sample_engine r data"
proof -
  have "quote_all sample_engine xs = Inr xs" for xs
    by (induction xs) (simp_all add: sample_engine_def)
  then show ?thesis
    by (simp add: engine_works_def new_render_data_def encode_recipe_def sample_engine_def)
qed

lemma default_delivery:
  "case find_delivery (recipe_delivery default_recipe) of None \<Rightarrow> False
   | Some d \<Rightarrow> artifact_directory (delivery_artifacts_of d) \<and> archive_suffix (delivery_artifacts_of d) = ''.zip''"
  by code_simp

lemma home_disk_ready:
  assumes "artifact_directory A" and "archive_suffix A = ''.zip''"
  shows "ready sample_names [''home'', ''repo''] A home_disk"
proof -
  have "prefixes (parent [''home'', ''repo'']) = [[], [''home'']]" by code_simp
  moreover have "wf_map home_disk" by code_simp
  ultimately show ?thesis
    using home_disk_wf assms
    by (simp add: ready_def artifact_paths_def with_suffix_def parent_def home_disk_def node_at_def
        map_get_def sample_names_def)
qed

theorem generate_delivers_witness:
  "\<exists>fs' del. generate_repository no_failure sample_engine sample_names [''home''] default_recipe ''repo'' home_disk
       = (fs', Inr del)
     \<and> node_at fs' [''home'', ''repo''] = Some Directory"
proof -
  let ?a = "[''home'', ''repo'']"
  obtain data where works: "engine_works sample_engine default_recipe data"
    using sample_engine_works by blast
  obtain d where d: "find_delivery (recipe_delivery default_recipe) = Some d"
    and A: "artifact_directory (delivery_artifacts_of d)" "archive_suffix (delivery_artifacts_of d) = ''.zip''"
    using default_delivery by (cases "find_delivery (recipe_delivery default_recipe)") auto
  have abs: "absolute_path no_failure [''home''] ''repo'' = Inr ?a" by code_simp
  from generate_delivers [OF default_recipe_valid works d abs home_disk_ready [OF A]] obtain fs' del where
      "generate_repository no_failure sample_engine sample_names [''home''] default_recipe ''repo'' home_disk
         = (fs', Inr del)"
      and prom: "promised (delivery_artifacts_of d) ?a del"
      and dir: "delivered_directory del = Some ?a \<longrightarrow> node_at fs' ?a = Some Directory"
    by (elim exE conjE) blast
  moreover from prom A(1) have "delivered_directory del = Some ?a" unfolding promised_def by (simp only: if_True)
  ultimately show ?thesis by blast
qed

end
