(* ===== verification/Configurator_Http.thy ===== *)
theory Configurator_Http
  imports Factory_Delivery Go_Http
begin

text \<open>
  The browser configurator: \<^verbatim>\<open>internal/configurator/http.go\<close>. A request for a repository is decoded,
  generated as an archive in a fresh temporary directory, read back and answered; the directory is
  removed on every path. The JSON decoder and the size of a ZIP file are parameters.
\<close>

section \<open>Replies\<close>

datatype configurator_error = ConfDecode | ConfWork | ConfRecipe factory_error | ConfRead | ConfPage

datatype configurator_body =
    ConfPageBody string
  | ConfHealth
  | ConfCatalog catalog
  | ConfError configurator_error
  | ConfArchive "(string \<times> string) list"

record configurator_reply =
  cr_status :: int
  cr_type :: string
  cr_disposition :: "string option"
  cr_length :: "int option"
  cr_body :: configurator_body

definition write_configurator :: "int \<Rightarrow> configurator_body \<Rightarrow> configurator_reply" where
  "write_configurator status body =
     \<lparr>cr_status = status, cr_type = ''application/json'', cr_disposition = None, cr_length = None, cr_body = body\<rparr>"

definition configurator_fails :: "int \<Rightarrow> configurator_error \<Rightarrow> configurator_reply" where
  "configurator_fails status e = write_configurator status (ConfError e)"

definition configurator_page :: "string option \<Rightarrow> configurator_reply" where
  "configurator_page page =
     (case page of
        None \<Rightarrow> configurator_fails 500 ConfPage
      | Some body \<Rightarrow> \<lparr>cr_status = 200, cr_type = ''text/html; charset=utf-8'', cr_disposition = None,
          cr_length = None, cr_body = ConfPageBody body\<rparr>)"

definition configurator_health :: configurator_reply where
  "configurator_health = write_configurator 200 ConfHealth"

definition configurator_catalog :: configurator_reply where
  "configurator_catalog = write_configurator 200 (ConfCatalog product_catalog)"

section \<open>Generating a download\<close>

definition max_recipe_bytes :: nat where
  "max_recipe_bytes = 1048576"

definition decode_recipe :: "(string \<Rightarrow> (recipe \<times> string) option) \<Rightarrow> string \<Rightarrow> recipe option" where
  "decode_recipe read body = strict_json max_recipe_bytes read body"

definition download_attachment :: "string \<Rightarrow> string" where
  "download_attachment name = ''attachment; filename='' @ [CHR 0x22] @ name @ ''.zip'' @ [CHR 0x22]"

text \<open>\<^verbatim>\<open>os.ReadFile\<close> on the archive; without an archive the path is empty and cannot be read.\<close>

definition read_archive :: "failures \<Rightarrow> path option \<Rightarrow> disk \<Rightarrow> (string \<times> string) list option" where
  "read_archive io archive fs =
     (case archive of
        None \<Rightarrow> None
      | Some p \<Rightarrow>
          if io (CallReadFile p) then None
          else case follow fs p of Some (Archive entries) \<Rightarrow> Some entries | _ \<Rightarrow> None)"

text \<open>\<^verbatim>\<open>filepath.Join\<close> of the absolute path of the work directory and the recipe's name.\<close>

definition download_destination :: "path \<Rightarrow> string \<Rightarrow> string" where
  "download_destination work name = slash # slashed (join_path work name)"

definition configurator_generate ::
  "failures \<Rightarrow> engine \<Rightarrow> names \<Rightarrow> path \<Rightarrow> path \<Rightarrow> string \<Rightarrow> ((string \<times> string) list \<Rightarrow> int) \<Rightarrow>
   (string \<Rightarrow> (recipe \<times> string) option) \<Rightarrow> string \<Rightarrow> disk \<Rightarrow> disk \<times> configurator_reply" where
  "configurator_generate io E N cwd tmp drawn zip_size read body fs =
     (case decode_recipe read body of
        None \<Rightarrow> (fs, configurator_fails 400 ConfDecode)
      | Some posted \<Rightarrow>
        let r = posted\<lparr>recipe_delivery := ''zip''\<rparr> in
        (case mkdir_temp io tmp (''saas-reaper-download-'' @ drawn) fs of
           (fs1, Inl e) \<Rightarrow> (fs1, configurator_fails 500 ConfWork)
         | (fs1, Inr work) \<Rightarrow>
           (case generate_repository io E N cwd r (download_destination work (recipe_name r)) fs1 of
              (fs2, Inl e) \<Rightarrow> (remove_all io work fs2, configurator_fails 422 (ConfRecipe e))
            | (fs2, Inr result) \<Rightarrow>
              (case read_archive io (delivered_archive result) fs2 of
                 None \<Rightarrow> (remove_all io work fs2, configurator_fails 500 ConfRead)
               | Some entries \<Rightarrow>
                   (remove_all io work fs2,
                    \<lparr>cr_status = 200, cr_type = ''application/zip'',
                     cr_disposition = Some (download_attachment (recipe_name r)),
                     cr_length = Some (zip_size entries), cr_body = ConfArchive entries\<rparr>)))))"

datatype configurator_handler = ConfigPage | ConfigHealth | ConfigCatalog | ConfigGenerate

text \<open>
  \<^verbatim>\<open>GET /\<close> serves every path no other pattern serves: the mux prefers the more specific pattern, so
  the page stands last and is matched by \<open>configurator_route\<close>.
\<close>

definition configurator_routes :: "(string \<times> segment_pattern list \<times> configurator_handler) list" where
  "configurator_routes =
     [(''GET'', [Lit ''healthz''], ConfigHealth),
      (''GET'', [Lit ''api'', Lit ''catalog''], ConfigCatalog),
      (''POST'', [Lit ''api'', Lit ''generate''], ConfigGenerate)]"

definition configurator_route :: "string \<Rightarrow> string list \<Rightarrow> configurator_handler routed" where
  "configurator_route requested xs =
     (case route_in configurator_routes False requested xs of
        Routed h vals \<Rightarrow> Routed h vals
      | _ \<Rightarrow> if serves ''GET'' requested then Routed ConfigPage [] else MethodNotAllowed)"

section \<open>The work directory\<close>

lemma project_name_plain:
  assumes "project_name name"
  shows "plain_component name" and "slash \<notin> set name" and "hd name \<noteq> CHR ''.''"
proof -
  obtain c t where name: "name = c # t" "lower_letter c" "t \<noteq> []"
      "list_all (\<lambda>d. name_byte d \<or> d = CHR ''-'') (butlast t)" "name_byte (last t)"
    using assms by (auto simp: project_name_def split: list.splits)
  have bytes: "\<not> name_byte slash" "slash \<noteq> CHR ''-''" "\<not> lower_letter slash" "\<not> lower_letter CHR ''.''"
    by code_simp+
  show "hd name \<noteq> CHR ''.''" using name(1,2) bytes(4) by auto
  then show "plain_component name" using name(1) by (auto simp: plain_component_def)
  have "set t = insert (last t) (set (butlast t))"
    by (metis append_butlast_last_id list.set(2) list.simps(15) name(3) rotate1.simps(2) set_rotate1)
  then show "slash \<notin> set name" using name bytes by (auto simp: list_all_iff)
qed

lemma download_path:
  assumes work: "plain_output work" and name: "project_name name"
  shows "absolute_path io cwd (download_destination work name) = Inr (work @ [name])"
proof -
  note plain = project_name_plain [OF name]
  have "split_on slash name = [name]"
    using split_on_slashed [of "[name]"] plain(2) by simp
  then have joined: "join_path work name = work @ [name]"
    using plain(1) by (simp add: join_path_def join_components_plain)
  have "split_on slash (slash # slashed (work @ [name])) = [] # work @ [name]"
    using split_on_slashed [of "work @ [name]"] work plain(2)
    by (simp add: plain_output_def list_all_iff)
  then have "join_path [] (slash # slashed (work @ [name])) = join_components [] (work @ [name])"
    by (simp add: join_path_def join_components_def walk_component_def)
  also have "\<dots> = work @ [name]"
    using work plain(1) join_components_plain [of "work @ [name]" "[]"]
    by (simp add: plain_output_def list_all_iff)
  finally show ?thesis
    by (simp add: absolute_path_def download_destination_def joined has_prefix_def)
qed

lemma work_created:
  assumes "mkdir_temp io tmp name fs = (fs1, Inr work)"
  shows "work = tmp @ [name] \<and> fs1 = map_put work Directory fs \<and> node_at fs work = None
    \<and> node_at fs tmp = Some Directory"
  using assms by (auto simp: mkdir_temp_def Let_def split: if_splits)

lemma work_disk:
  assumes wf: "wf_disk fs" and made: "mkdir_temp io tmp name fs = (fs1, Inr work)"
  shows "wf_disk fs1" and "node_at fs1 work = Some Directory"
    and "\<And>q. strict_prefix work q \<Longrightarrow> node_at fs1 q = None"
    and "\<And>q. prefix work q \<Longrightarrow> node_at fs q = None"
    and "\<And>q. \<not> prefix work q \<Longrightarrow> node_at fs1 q = node_at fs q"
proof -
  note w = work_created [OF made]
  have at: "node_at fs1 q = (if q = work then Some Directory else node_at fs q)" for q
    using w by simp
  then show "node_at fs1 work = Some Directory" by simp
  show below: "node_at fs q = None" if "prefix work q" for q
    using that w wf_disk_below [OF wf, of work q] by (cases "q = work") (auto simp: strict_prefix_def)
  show "node_at fs1 q = None" if "strict_prefix work q" for q
    using that below [of q] at by (auto simp: strict_prefix_def)
  show "node_at fs1 q = node_at fs q" if "\<not> prefix work q" for q
    using that at by auto
  show "wf_disk fs1" unfolding wf_disk_def
  proof (intro allI impI)
    fix p q assume p: "node_at fs1 p \<noteq> None" and q: "strict_prefix q p"
    have anc: "node_at fs q = Some Directory" if "strict_prefix q work"
    proof -
      from that w have "prefix q tmp" by (auto simp: strict_prefix_def prefix_snoc)
      with w wf show ?thesis by (cases "q = tmp") (auto simp: wf_disk_def strict_prefix_def)
    qed
    show "node_at fs1 q = Some Directory"
    proof (cases "p = work")
      case True
      with q anc at show ?thesis by (auto simp: strict_prefix_def)
    next
      case False
      with p at have "node_at fs p \<noteq> None" by simp
      with wf q have "node_at fs q = Some Directory" unfolding wf_disk_def by blast
      with at show ?thesis by simp
    qed
  qed
qed

lemma wf_disk_up:
  "wf_disk fs \<Longrightarrow> node_at fs p = Some Directory \<Longrightarrow> prefix q p \<Longrightarrow> node_at fs q = Some Directory"
  unfolding wf_disk_def strict_prefix_def by (metis option.distinct(1))

text \<open>Whatever a generation into the work directory does, it does below it.\<close>

lemma generation_stays_inside:
  assumes wf: "wf_disk fs1" and dir: "node_at fs1 work = Some Directory" and clean: "cleanup_never_fails io"
    and work: "plain_output work"
    and gen: "generate_repository io E N cwd r (download_destination work (recipe_name r)) fs1 = (fs2, res)"
    and q: "\<not> prefix work q"
  shows "node_at fs2 q = node_at fs1 q"
proof (cases "validate_recipe r")
  case (Some e)
  with gen show ?thesis by (simp add: generate_repository_def)
next
  case None
  then have "project_name (recipe_name r)"
    by (simp add: validate_recipe_def validate_identity_def check_simps)
  note path = download_path [OF work this, of io cwd]
  note effect = generate_effect [OF wf clean gen, unfolded path]
  show ?thesis
  proof (cases "node_at fs1 q")
    case (Some n)
    with effect show ?thesis by simp
  next
    case free: None
    have "node_at fs2 q = None"
    proof (rule ccontr)
      assume "node_at fs2 q \<noteq> None"
      with effect free obtain del d where new: "prefix q (parent (work @ [recipe_name r])) \<or> (res = Inr del \<and>
          (delivered_archive del = Some q \<or> prefix (work @ [recipe_name r]) q))"
        by blast
      have "\<not> prefix q work" using wf_disk_up [OF wf dir] free by auto
      with new have res: "res = Inr del"
        and at: "delivered_archive del = Some q \<or> prefix (work @ [recipe_name r]) q"
        by (auto simp: parent_def)
      from effect res have "delivered_archive del \<in> {None, Some (with_suffix (work @ [recipe_name r]) ''.zip'')}"
        by (fastforce simp: promised_def)
      with at have "prefix work q" by (auto simp: with_suffix_def prefix_def)
      with q show False by simp
    qed
    with free show ?thesis by simp
  qed
qed

lemma zip_pack:
  "case find_delivery ''zip'' of None \<Rightarrow> False
   | Some d \<Rightarrow> \<not> artifact_directory (delivery_artifacts_of d) \<and> archive_suffix (delivery_artifacts_of d) = ''.zip''"
  by code_simp

lemma work_ready:
  assumes wf: "wf_disk fs1" "wf_map fs1" and dir: "node_at fs1 work = Some Directory"
    and below: "\<And>q. strict_prefix work q \<Longrightarrow> node_at fs1 q = None" and name: "project_name name"
    and A: "\<not> artifact_directory A" "archive_suffix A = ''.zip''"
  shows "ready N (work @ [name]) A fs1"
proof -
  have paths: "artifact_paths A (work @ [name]) = [work @ [name @ ''.zip'']]"
    using A by (simp add: artifact_paths_def with_suffix_def)
  have free: "node_at fs1 (work @ [n]) = None" for n by (rule below) (simp add: strict_prefix_def)
  have up: "node_at fs1 q = Some Directory" if "prefix q work" for q
    using that by (rule wf_disk_up [OF wf(1) dir])
  have "name \<noteq> []" and "hd name \<noteq> CHR ''.''"
    using project_name_plain [OF name] by (auto simp: plain_component_def)
  then have differs: "name @ ''.zip'' \<noteq> CHR ''.'' # rest" for rest by (cases name) auto
  have parent: "parent (work @ [name]) = work" by (simp add: parent_def)
  show ?thesis
    unfolding ready_def paths parent
    using wf free up differs [symmetric] by (simp add: list_all_iff)
qed

lemma work_path:
  assumes "list_all (\<lambda>c. plain_component c \<and> slash \<notin> set c) tmp" and "slash \<notin> set drawn"
  shows "plain_output (tmp @ [''saas-reaper-download-'' @ drawn])"
  using assms by (simp add: plain_output_def plain_component_def slash_def)

lemma configurator_restores:
  assumes wf: "wf_disk fs" and clean: "cleanup_never_fails io" and tmp: "list_all (\<lambda>c. plain_component c \<and> slash \<notin> set c) tmp"
    and drawn: "slash \<notin> set drawn"
    and out: "configurator_generate io E N cwd tmp drawn zip_size read body fs = (fs', reply)"
  shows "node_at fs' = node_at fs"
proof -
  define name where "name = ''saas-reaper-download-'' @ drawn"
  note work = work_path [OF tmp drawn, folded name_def]
  note out' = out [unfolded configurator_generate_def Let_def, folded name_def]
  show ?thesis
  proof (cases "decode_recipe read body")
    case None
    with out' show ?thesis by simp
  next
    case (Some posted)
    obtain fs1 made where made: "mkdir_temp io tmp name fs = (fs1, made)" by fastforce
    show ?thesis
    proof (cases made)
      case (Inl e)
      with made have "fs1 = fs" by (auto simp: mkdir_temp_def Let_def split: if_splits)
      with out' Some made Inl show ?thesis by simp
    next
      case (Inr w)
      note disk = work_disk [OF wf made [unfolded Inr]]
      have w: "w = tmp @ [name]" using work_created [OF made [unfolded Inr]] by simp
      let ?r = "posted\<lparr>recipe_delivery := ''zip''\<rparr>"
      obtain fs2 res where gen: "generate_repository io E N cwd ?r (download_destination w (recipe_name ?r)) fs1 = (fs2, res)"
        by fastforce
      have "node_at (remove_all io w fs2) q = node_at fs q" for q
      proof -
        have "node_at (remove_all io w fs2) q = (if prefix w q then None else node_at fs2 q)"
          using clean w by (intro remove_all_effect) (simp_all add: cleanup_never_fails_def)
        then show ?thesis
          using generation_stays_inside [OF disk(1,2) clean work [folded w] gen] disk(4,5) by auto
      qed
      moreover have "fs' = remove_all io w fs2"
        using out' Some made Inr gen by (auto split: sum.splits option.splits)
      ultimately show ?thesis by blast
    qed
  qed
qed

lemma configurator_answers:
  assumes wf: "wf_disk fs" and clean: "cleanup_never_fails io" and tmp: "list_all (\<lambda>c. plain_component c \<and> slash \<notin> set c) tmp"
    and drawn: "slash \<notin> set drawn"
    and out: "configurator_generate io E N cwd tmp drawn zip_size read body fs = (fs', reply)"
    and io: "io = no_failure" and map: "wf_map fs" and dir: "node_at fs tmp = Some Directory"
    and free: "node_at fs (tmp @ [''saas-reaper-download-'' @ drawn]) = None"
    and posted: "decode_recipe read body = Some posted" and r: "r = posted\<lparr>recipe_delivery := ''zip''\<rparr>"
    and valid: "validate_recipe r = None" and works: "engine_works E r data"
  shows "reply = (let entries = archive_of (recipe_name r) (repository_nodes E r data) in
         \<lparr>cr_status = 200, cr_type = ''application/zip'',
          cr_disposition = Some (download_attachment (recipe_name r)), cr_length = Some (zip_size entries),
          cr_body = ConfArchive entries\<rparr>)"
proof -
  define name where "name = ''saas-reaper-download-'' @ drawn"
  note work = work_path [OF tmp drawn, folded name_def]
  note out' = out [unfolded configurator_generate_def Let_def, folded name_def]
  note free = free [folded name_def]
  let ?w = "tmp @ [name]"
  have nobs: "\<not> obstructed fs ?w"
    using wf_disk_up [OF wf dir] by (auto simp: obstructed_def list_ex_iff)
  then have made: "mkdir_temp io tmp name fs = (map_put ?w Directory fs, Inr ?w)"
    using dir free io by (simp add: mkdir_temp_def no_failure_def Let_def)
  note disk = work_disk [OF wf made]
  have pn: "project_name (recipe_name r)"
    using valid by (simp add: validate_recipe_def validate_identity_def check_simps)
  obtain d where d: "find_delivery (recipe_delivery r) = Some d"
    and A: "\<not> artifact_directory (delivery_artifacts_of d)" "archive_suffix (delivery_artifacts_of d) = ''.zip''"
    using zip_pack r by (cases "find_delivery ''zip''") auto
  have "ready N (?w @ [recipe_name r]) (delivery_artifacts_of d) (map_put ?w Directory fs)"
    using map by (intro work_ready [OF disk(1) _ disk(2,3) pn A]) simp
  from generation_delivers [where cwd = cwd, OF valid works d download_path [OF work pn] this] obtain fs2 del where
      gen: "generate_repository no_failure E N cwd r (download_destination ?w (recipe_name r))
        (map_put ?w Directory fs) = (fs2, Inr del)"
      and prom: "promised (delivery_artifacts_of d) (?w @ [recipe_name r]) del"
      and arch: "\<forall>z. delivered_archive del = Some z \<longrightarrow>
        node_at fs2 z = Some (Archive (archive_of (recipe_name r) (repository_nodes E r data)))"
    by (elim exE conjE) blast
  obtain z where z: "delivered_archive del = Some z" using prom A by (simp add: promised_def)
  then have read: "read_archive no_failure (delivered_archive del) fs2
      = Some (archive_of (recipe_name r) (repository_nodes E r data))"
    using arch by (simp add: read_archive_def no_failure_def follow_def)
  from out' show ?thesis
    using posted made gen read unfolding io by (simp add: Let_def r [symmetric])
qed

text \<open>
  C39: the configurator serves what was asked for and leaves nothing behind. Whatever is posted and
  whichever call of the operating system fails (the removal of temporary files apart), the disk
  holds after the request exactly what it held before. And when nothing fails, a body that holds
  one valid recipe is answered 200 with the archive of that recipe's repository, delivered as ZIP
  whatever the recipe asks for, under the recipe's name.
\<close>

theorem configurator_serves:
  assumes wf: "wf_disk fs" and clean: "cleanup_never_fails io" and tmp: "list_all (\<lambda>c. plain_component c \<and> slash \<notin> set c) tmp"
    and drawn: "slash \<notin> set drawn"
    and out: "configurator_generate io E N cwd tmp drawn zip_size read body fs = (fs', reply)"
  shows "node_at fs' = node_at fs
    \<and> (io = no_failure \<and> wf_map fs \<and> node_at fs tmp = Some Directory
       \<and> node_at fs (tmp @ [''saas-reaper-download-'' @ drawn]) = None
       \<and> decode_recipe read body = Some posted \<and> r = posted\<lparr>recipe_delivery := ''zip''\<rparr>
       \<and> validate_recipe r = None \<and> engine_works E r data \<longrightarrow>
       reply = (let entries = archive_of (recipe_name r) (repository_nodes E r data) in
         \<lparr>cr_status = 200, cr_type = ''application/zip'',
          cr_disposition = Some (download_attachment (recipe_name r)), cr_length = Some (zip_size entries),
          cr_body = ConfArchive entries\<rparr>))"
  using configurator_restores [OF assms] configurator_answers [OF assms]
  by (intro conjI impI) (assumption, elim conjE, assumption)

text \<open>The recipe the page starts from, posted as it is.\<close>

definition zip_recipe :: recipe where
  "zip_recipe = default_recipe\<lparr>recipe_delivery := ''zip''\<rparr>"

lemma zip_recipe_valid: "validate_recipe zip_recipe = None"
proof -
  have "project_name (recipe_name zip_recipe)" by code_simp
  moreover have "validate_deployment zip_recipe = None" by code_simp
  moreover have "validate_selections zip_recipe = None"
    by (simp add: selections_None find_None catalog_language_values)
       (simp add: zip_recipe_def default_recipe_def languages_def product_catalog_def choice_values_def
          database_choices_def deployment_choices_def delivery_choices_def pack_tables)
  moreover have "\<not> blank (recipe_tenant zip_recipe)" "attributes_fine (recipe_attributes zip_recipe)"
    using default_domain by (simp_all add: zip_recipe_def)
  ultimately show ?thesis
    by (simp add: validate_recipe_def validate_identity_def check_simps)
       (simp add: zip_recipe_def default_recipe_def)
qed

theorem configurator_serves_witness:
  "cr_status (snd (configurator_generate no_failure sample_engine sample_names [''home''] [''home''] ''7'' (\<lambda>_. 0)
     (\<lambda>body. Some (default_recipe, [])) [] home_disk)) = 200"
proof -
  obtain data where works: "engine_works sample_engine zip_recipe data"
    using sample_engine_works by blast
  have posted: "decode_recipe (\<lambda>body. Some (default_recipe, [])) [] = Some default_recipe"
    by (simp add: decode_recipe_def strict_json_def)
  have disk: "wf_map home_disk" "node_at home_disk [''home''] = Some Directory"
    "node_at home_disk ([''home''] @ [''saas-reaper-download-'' @ ''7'']) = None"
    by (simp_all add: home_disk_def wf_map_def node_at_def map_get_def)
  have clean: "cleanup_never_fails no_failure" by (simp add: cleanup_never_fails_def no_failure_def)
  have tmp: "list_all (\<lambda>c. plain_component c \<and> slash \<notin> set c) [''home'']" and drawn: "slash \<notin> set ''7''"
    by (simp_all add: plain_component_def slash_def)
  from configurator_serves [OF home_disk_wf clean tmp drawn prod.collapse [symmetric], THEN conjunct2, rule_format,
      OF conjI [OF refl conjI [OF disk(1) conjI [OF disk(2) conjI [OF disk(3) conjI [OF posted
        conjI [OF zip_recipe_def conjI [OF zip_recipe_valid works]]]]]]]]
  show ?thesis by (simp add: Let_def)
qed

end
