(* ===== verification/Factory_Command.thy ===== *)
theory Factory_Command
  imports Factory_Cli Configurator_Http
begin

text \<open>
  The \<^verbatim>\<open>reaper\<close> command: \<^verbatim>\<open>cmd/reaper/main.go\<close> around the questions of \<open>Factory_Cli\<close>, and \<^verbatim>\<open>ReadRecipe\<close>
  of \<^verbatim>\<open>internal/factory/recipe.go\<close>. A command runs over a console and a disk. The strict YAML decoder, the
  text the flag package prints on a wrong flag, the encoding of the catalog and the error the
  configurator's listener ends with are parameters.
\<close>

section \<open>Flags\<close>

text \<open>\<^verbatim>\<open>FlagSet.Parse\<close> of the standard library for flags that take a value.\<close>

datatype flag_error = FlagSyntax string | FlagUnknown string | FlagHelp | FlagArgument string

fun parse_flags ::
  "string list \<Rightarrow> (string, string) go_map \<Rightarrow> string list \<Rightarrow> flag_error + (string, string) go_map" where
  "parse_flags names vals [] = Inr vals"
| "parse_flags names vals (s # args) =
     (if length s < 2 \<or> hd s \<noteq> CHR ''-'' \<or> s = ''--'' then Inr vals
      else let name = (if s ! 1 = CHR ''-'' then drop 2 s else drop 1 s) in
      if name = [] \<or> hd name = CHR ''-'' \<or> hd name = CHR ''='' then Inl (FlagSyntax s)
      else let key = takeWhile (\<lambda>c. c \<noteq> CHR ''='') name; value = dropWhile (\<lambda>c. c \<noteq> CHR ''='') name in
      if key \<notin> set names then (if key = ''help'' \<or> key = ''h'' then Inl FlagHelp else Inl (FlagUnknown key))
      else if value \<noteq> [] then parse_flags names (map_put key (tl value) vals) args
      else case args of
        [] \<Rightarrow> Inl (FlagArgument key)
      | v # rest \<Rightarrow> parse_flags names (map_put key v vals) rest)"

definition flag_value :: "string \<Rightarrow> string \<Rightarrow> (string, string) go_map \<Rightarrow> string" where
  "flag_value name fallback vals = (case map_get vals name of None \<Rightarrow> fallback | Some v \<Rightarrow> v)"

section \<open>The world of a command\<close>

record command_world =
  cw_io :: failures
  cw_engine :: engine
  cw_names :: names
  cw_cwd :: path
  cw_decode :: "string \<Rightarrow> recipe option"
  cw_usage :: "flag_error \<Rightarrow> string list"
  cw_encode :: "catalog \<Rightarrow> string"
  cw_serve :: "string \<Rightarrow> factory_error"

datatype command_error =
    CommandFlags flag_error
  | CommandRequired string
  | CommandFactory factory_error
  | CommandReport factory_error
  | CommandUnknown string

datatype outcome = Done | Fails command_error | Panics

text \<open>A reply of the console as the end of a command.\<close>

definition ended :: "(factory_error \<Rightarrow> command_error) \<Rightarrow> console \<times> unit reply \<Rightarrow> disk \<Rightarrow> console \<times> disk \<times> outcome" where
  "ended wrap reply fs =
     (fst reply, fs, case snd reply of Answer u \<Rightarrow> Done | Failed e \<Rightarrow> Fails (wrap e) | Panic \<Rightarrow> Panics)"

text \<open>What the flag package prints on an error; it ignores failing writes.\<close>

definition print_flag_error :: "command_world \<Rightarrow> flag_error \<Rightarrow> console \<Rightarrow> console" where
  "print_flag_error W e con = fold (\<lambda>text c. fst (write_output text c)) (cw_usage W e) con"

section \<open>Recipes and reports\<close>

definition resolve_path :: "path \<Rightarrow> string \<Rightarrow> path" where
  "resolve_path cwd s = (if has_prefix s [slash] then join_path [] s else join_path cwd s)"

text \<open>\<^verbatim>\<open>ReadRecipe\<close>; what is at the path of an archive is no YAML.\<close>

definition read_recipe :: "command_world \<Rightarrow> string \<Rightarrow> disk \<Rightarrow> factory_error + recipe" where
  "read_recipe W name fs =
     (let p = resolve_path (cw_cwd W) name in
      if cw_io W (CallReadFile p) then Inl (FInternal ''read recipe'')
      else case follow fs p of
        Some (File content) \<Rightarrow>
          (case cw_decode W content of None \<Rightarrow> Inl (FInternal ''decode recipe'') | Some r \<Rightarrow> Inr r)
      | Some (Archive entries) \<Rightarrow> Inl (FInternal ''decode recipe'')
      | _ \<Rightarrow> Inl (FInternal ''read recipe''))"

definition path_text :: "path \<Rightarrow> string" where
  "path_text p = slash # slashed p"

definition report_lines :: "Factory_Render.delivered \<Rightarrow> string list" where
  "report_lines result =
     (case delivered_directory result of None \<Rightarrow> [] | Some p \<Rightarrow> [''Repository: '' @ path_text p @ [newline]])
     @ (case delivered_archive result of None \<Rightarrow> [] | Some p \<Rightarrow> [''Archive: '' @ path_text p @ [newline]])"

fun write_all :: "string list \<Rightarrow> console \<Rightarrow> console \<times> unit reply" where
  "write_all [] con = (con, Answer ())"
| "write_all (t # ts) con = and_ask (write_output t con) (\<lambda>_. write_all ts)"

definition print_result :: "Factory_Render.delivered \<Rightarrow> console \<Rightarrow> console \<times> unit reply" where
  "print_result result con = write_all (report_lines result) con"

text \<open>How \<^verbatim>\<open>generate\<close> and \<^verbatim>\<open>configure\<close> end: generate, then report.\<close>

definition generate_and_print ::
  "command_world \<Rightarrow> recipe \<Rightarrow> string \<Rightarrow> console \<Rightarrow> disk \<Rightarrow> console \<times> disk \<times> outcome" where
  "generate_and_print W r destination con fs =
     (case generate_repository (cw_io W) (cw_engine W) (cw_names W) (cw_cwd W) r destination fs of
        (fs', Inl e) \<Rightarrow> (con, fs', Fails (CommandFactory e))
      | (fs', Inr result) \<Rightarrow> ended CommandReport (print_result result con) fs')"

section \<open>The commands\<close>

definition usage_lines :: "string list" where
  "usage_lines =
     [''SaaS Reaper composes a customer-owned SaaS capability repository.'', [],
      ''Usage:'',
      ''  reaper new [--out PATH]                 interactive configurator'',
      ''  reaper generate --recipe FILE --out PATH'',
      ''  reaper catalog                          machine-readable choices'',
      ''  reaper serve [--addr 127.0.0.1:8090]   browser configurator'']"

definition print_usage :: "console \<Rightarrow> disk \<Rightarrow> console \<times> disk \<times> outcome" where
  "print_usage con fs = ended CommandFactory (write_output (concat (map (\<lambda>l. l @ [newline]) usage_lines)) con) fs"

definition print_catalog :: "command_world \<Rightarrow> console \<Rightarrow> disk \<Rightarrow> console \<times> disk \<times> outcome" where
  "print_catalog W con fs =
     ended (\<lambda>e. CommandFactory (FInternal ''encode catalog'')) (write_output (cw_encode W product_catalog) con) fs"

definition generate_command :: "command_world \<Rightarrow> string list \<Rightarrow> console \<Rightarrow> disk \<Rightarrow> console \<times> disk \<times> outcome" where
  "generate_command W args con fs =
     (case parse_flags [''recipe'', ''out''] [] args of
        Inl e \<Rightarrow> (print_flag_error W e con, fs, Fails (CommandFlags e))
      | Inr vals \<Rightarrow>
        let recipe_path = flag_value ''recipe'' [] vals; destination = flag_value ''out'' [] vals in
        if recipe_path = [] then (con, fs, Fails (CommandRequired ''--recipe is required''))
        else if destination = [] then (con, fs, Fails (CommandRequired ''--out is required''))
        else case read_recipe W recipe_path fs of
          Inl e \<Rightarrow> (con, fs, Fails (CommandFactory e))
        | Inr r \<Rightarrow> generate_and_print W r destination con fs)"

text \<open>\<^verbatim>\<open>filepath.Join(".", name)\<close>, cleaned as a relative path: leading \<^verbatim>\<open>..\<close> stay.\<close>

fun clean_relative :: "string list \<Rightarrow> string list \<Rightarrow> string list" where
  "clean_relative acc [] = rev acc"
| "clean_relative acc (c # cs) =
     (if c = [] \<or> c = ''.'' then clean_relative acc cs
      else if c = ''..'' \<and> acc \<noteq> [] \<and> hd acc \<noteq> ''..'' then clean_relative (tl acc) cs
      else clean_relative (c # acc) cs)"

definition join_here :: "string \<Rightarrow> string" where
  "join_here name = (case clean_relative [] (split_on slash name) of [] \<Rightarrow> ''.'' | cs \<Rightarrow> slashed cs)"

definition configure_command :: "command_world \<Rightarrow> string list \<Rightarrow> console \<Rightarrow> disk \<Rightarrow> console \<times> disk \<times> outcome" where
  "configure_command W args con fs =
     (case parse_flags [''out''] [] args of
        Inl e \<Rightarrow> (print_flag_error W e con, fs, Fails (CommandFlags e))
      | Inr vals \<Rightarrow>
        let destination = flag_value ''out'' [] vals in
        (case configure_recipe con of
           (con1, Failed e) \<Rightarrow> (con1, fs, Fails (CommandFactory e))
         | (con1, Panic) \<Rightarrow> (con1, fs, Panics)
         | (con1, Answer r) \<Rightarrow>
             generate_and_print W r (if destination = [] then join_here (recipe_name r) else destination) con1 fs))"

definition serve_command :: "command_world \<Rightarrow> string list \<Rightarrow> console \<Rightarrow> disk \<Rightarrow> console \<times> disk \<times> outcome" where
  "serve_command W args con fs =
     (case parse_flags [''addr''] [] args of
        Inl e \<Rightarrow> (print_flag_error W e con, fs, Fails (CommandFlags e))
      | Inr vals \<Rightarrow>
        let address = flag_value ''addr'' ''127.0.0.1:8090'' vals in
        (case write_output (''SaaS Reaper configurator: http://'' @ address @ [newline]) con of
           (con1, Answer u) \<Rightarrow> (con1, fs, Fails (CommandFactory (cw_serve W address)))
         | reply \<Rightarrow> ended CommandFactory reply fs))"

definition run_command :: "command_world \<Rightarrow> string list \<Rightarrow> console \<Rightarrow> disk \<Rightarrow> console \<times> disk \<times> outcome" where
  "run_command W arguments con fs =
     (case arguments of
        [] \<Rightarrow> print_usage con fs
      | command # rest \<Rightarrow>
        if command = ''catalog'' then print_catalog W con fs
        else if command = ''generate'' then generate_command W rest con fs
        else if command = ''new'' then configure_command W rest con fs
        else if command = ''serve'' then serve_command W rest con fs
        else if command = ''help'' \<or> command = ''-h'' \<or> command = ''--help'' then print_usage con fs
        else (con, fs, Fails (CommandUnknown command)))"

text \<open>\<^verbatim>\<open>main\<close>: the exit status; an error goes to the standard error.\<close>

definition exit_status :: "outcome \<Rightarrow> int" where
  "exit_status outcome = (case outcome of Done \<Rightarrow> 0 | Fails e \<Rightarrow> 1 | Panics \<Rightarrow> 2)"

section \<open>What a command does to the disk\<close>

definition kept :: "disk \<Rightarrow> disk \<Rightarrow> bool" where
  "kept fs fs' \<longleftrightarrow> (\<forall>q n. node_at fs q = Some n \<longrightarrow> node_at fs' q = Some n)"

definition only_directories :: "disk \<Rightarrow> disk \<Rightarrow> bool" where
  "only_directories fs fs' \<longleftrightarrow> (\<forall>q. node_at fs q = None \<longrightarrow> node_at fs' q \<in> {None, Some Directory})"

text \<open>A delivery that was made is the one that is reported, and all that is new on the disk.\<close>

definition reported :: "command_world \<Rightarrow> disk \<Rightarrow> console \<Rightarrow> disk \<Rightarrow> bool" where
  "reported W fs con' fs' \<longleftrightarrow>
     (\<exists>(r :: recipe) destination a d (del :: Factory_Render.delivered) before.
        absolute_path (cw_io W) (cw_cwd W) destination = Inr a
      \<and> find_delivery (recipe_delivery r) = Some d \<and> promised (delivery_artifacts_of d) a del
      \<and> con_output con' = before @ report_lines del
      \<and> (\<forall>q. node_at fs q = None \<and> node_at fs' q \<noteq> None \<longrightarrow>
           node_at fs' q = Some Directory \<and> prefix q (parent a)
           \<or> delivered_archive del = Some q \<or> delivered_directory del = Some a \<and> prefix a q))"

lemma kept_refl [simp]: "kept fs fs" and only_directories_refl [simp]: "only_directories fs fs"
  by (simp_all add: kept_def only_directories_def)

lemma write_output_reply: "snd (write_output t con) \<noteq> Panic"
  by (simp add: write_output_def)

lemma write_all_effect:
  "snd (write_all ts con) \<noteq> Panic \<and>
   (snd (write_all ts con) = Answer () \<longrightarrow> con_output (fst (write_all ts con)) = con_output con @ ts)"
proof (induction ts arbitrary: con)
  case (Cons t ts)
  show ?case
  proof (cases "con_budget con = Some 0")
    case False
    let ?con = "con\<lparr>con_output := con_output con @ [t], con_budget := map_option (\<lambda>n. n - 1) (con_budget con)\<rparr>"
    from False have "write_all (t # ts) con = write_all ts ?con" by (simp add: write_output_def)
    with Cons.IH [of ?con] show ?thesis by simp
  qed (simp add: write_output_def)
qed simp

lemma generate_and_print_effect:
  assumes wf: "wf_disk fs" and clean: "cleanup_never_fails (cw_io W)"
    and out: "generate_and_print W r destination con fs = (con', fs', outcome)"
  shows "outcome \<noteq> Panics \<and> kept fs fs'
    \<and> ((\<exists>e. outcome = Fails e \<and> (\<forall>x. e \<noteq> CommandReport x)) \<longrightarrow> only_directories fs fs')
    \<and> (outcome = Done \<longrightarrow> reported W fs con' fs')"
proof -
  obtain fs1 res where gen: "generate_repository (cw_io W) (cw_engine W) (cw_names W) (cw_cwd W) r destination fs = (fs1, res)"
    by fastforce
  note effect = generate_effect [OF wf clean gen]
  show ?thesis
  proof (cases res)
    case (Inl e)
    with gen out have "fs' = fs1" "outcome = Fails (CommandFactory e)" by (simp_all add: generate_and_print_def)
    with effect Inl show ?thesis by (auto simp: kept_def only_directories_def)
  next
    case (Inr del)
    obtain reply where w: "write_all (report_lines del) con = (con', reply)" and fs: "fs' = fs1"
      and o: "outcome = (case reply of Answer u \<Rightarrow> Done | Failed e \<Rightarrow> Fails (CommandReport e) | Panic \<Rightarrow> Panics)"
      using gen out Inr by (cases "write_all (report_lines del) con")
        (auto simp: generate_and_print_def ended_def print_result_def)
    from write_all_effect [of "report_lines del" con] w have np: "reply \<noteq> Panic"
      and shown: "reply = Answer () \<longrightarrow> con_output con' = con_output con @ report_lines del" by simp_all
    have "reported W fs con' fs'" if "reply = Answer ()"
    proof -
      from effect Inr obtain a d where ad: "absolute_path (cw_io W) (cw_cwd W) destination = Inr a"
        "find_delivery (recipe_delivery r) = Some d" "promised (delivery_artifacts_of d) a del" by blast
      moreover have "node_at fs' q = Some Directory \<and> prefix q (parent a)
           \<or> delivered_archive del = Some q \<or> delivered_directory del = Some a \<and> prefix a q"
        if "node_at fs q = None \<and> node_at fs' q \<noteq> None" for q
        using effect that fs Inr ad(1) by fastforce
      ultimately show ?thesis unfolding reported_def using shown that by blast
    qed
    with o np effect fs show ?thesis by (cases reply) (auto simp: kept_def)
  qed
qed

lemma configure_no_panic: "snd (configure_recipe con) \<noteq> Panic"
  using configure_delivers by (cases "configure_recipe con") (auto simp: delivers_def dest: spec [of _ con])

lemma ended_write: "ended wrap (write_output t con) fs = (con', fs', outcome) \<Longrightarrow>
    outcome \<noteq> Panics \<and> fs' = fs \<and> (\<forall>e. outcome = Fails e \<longrightarrow> (\<exists>x. e = wrap x))"
  using write_output_reply [of t con] by (auto simp: ended_def split: reply.splits)

lemma generate_command_effect:
  assumes "wf_disk fs" and "cleanup_never_fails (cw_io W)" and "generate_command W args con fs = (con', fs', outcome)"
  shows "outcome \<noteq> Panics \<and> kept fs fs'
    \<and> ((\<exists>e. outcome = Fails e \<and> (\<forall>x. e \<noteq> CommandReport x)) \<longrightarrow> only_directories fs fs')
    \<and> (outcome = Done \<longrightarrow> reported W fs con' fs')"
  using assms(3) generate_and_print_effect [OF assms(1,2)]
  by (auto simp: generate_command_def Let_def split: sum.splits if_splits)

lemma configure_command_effect:
  assumes "wf_disk fs" and "cleanup_never_fails (cw_io W)" and "configure_command W args con fs = (con', fs', outcome)"
  shows "outcome \<noteq> Panics \<and> kept fs fs'
    \<and> ((\<exists>e. outcome = Fails e \<and> (\<forall>x. e \<noteq> CommandReport x)) \<longrightarrow> only_directories fs fs')
    \<and> (outcome = Done \<longrightarrow> reported W fs con' fs')"
  using assms(3) generate_and_print_effect [OF assms(1,2)] configure_no_panic [of con]
  by (auto simp: configure_command_def Let_def split: sum.splits prod.splits reply.splits)

lemma other_commands_effect:
  "print_usage con fs = (con', fs', outcome) \<Longrightarrow>
     fs' = fs \<and> outcome \<noteq> Panics"
  "print_catalog W con fs = (con', fs', outcome) \<Longrightarrow> fs' = fs \<and> outcome \<noteq> Panics"
  "serve_command W args con fs = (con', fs', outcome) \<Longrightarrow> fs' = fs \<and> outcome \<noteq> Panics"
  using write_output_reply
  by (auto simp: print_usage_def print_catalog_def serve_command_def ended_def Let_def
      split: sum.splits prod.splits reply.splits dest: ended_write) (metis reply.distinct snd_conv)+


text \<open>Listing the catalog in a home directory.\<close>

definition sample_world :: command_world where
  "sample_world = \<lparr>cw_io = no_failure, cw_engine = sample_engine, cw_names = sample_names, cw_cwd = [''home''],
     cw_decode = (\<lambda>_. Some default_recipe), cw_usage = (\<lambda>_. []), cw_encode = (\<lambda>_. ''{}''), cw_serve = FInternal\<rparr>"

definition blank_console :: console where
  "blank_console = \<lparr>con_input = [], con_error = None, con_output = [], con_budget = None\<rparr>"


end
