(* ===== verification/Tunnel_Lifecycle.thy ===== *)
theory Tunnel_Lifecycle
  imports Go_Prelude
begin

text \<open>
  The lifecycle table of the ingress tunnel: \<^verbatim>\<open>internal/tunnel/transition.go\<close>, with the error
  classes of \<^verbatim>\<open>errors.go\<close> and the audit row of \<^verbatim>\<open>audit.go\<close>. The string vocabularies are
  enumerations; a panic is \<open>None\<close>. \<open>replay\<close> is the abstract reading of the audit: which status
  a sequence of audit kinds leads to.
\<close>

datatype tunnel_error =
    TInvalid string | TConflict string | TNotFound string | TUnauthorized string | TRevoked string
  | TInternal string

datatype claim_state = ClaimActive | ClaimRevoked
datatype presence = PresenceAbsent | PresenceLive
datatype event = EventConnect | EventLinkLost | EventRevoke
datatype audit_kind =
  AuditClaimed | AuditConnected | AuditSuperseded | AuditDisconnected | AuditRevoked

record status =
  st_claim :: claim_state
  st_presence :: presence

record outcome =
  out_status :: status
  out_audit :: "audit_kind list"
  out_err :: "tunnel_error option"

record tunnel_audit =
  ta_at :: int
  ta_subdomain :: string
  ta_kind :: audit_kind
  ta_actor :: string
  ta_detail :: string

definition agent_actor :: "string \<Rightarrow> string" where
  "agent_actor subdomain = ''agent:'' @ subdomain"

definition accepted :: "claim_state \<Rightarrow> presence \<Rightarrow> audit_kind list \<Rightarrow> outcome" where
  "accepted c p kinds =
     \<lparr>out_status = \<lparr>st_claim = c, st_presence = p\<rparr>, out_audit = kinds, out_err = None\<rparr>"

definition refused_with :: "status \<Rightarrow> tunnel_error option \<Rightarrow> outcome" where
  "refused_with current err = \<lparr>out_status = current, out_audit = [], out_err = err\<rparr>"

definition revoked_transition :: "status \<Rightarrow> event \<Rightarrow> outcome option" where
  "revoked_transition current ev =
     (if st_presence current = PresenceLive then None
      else case ev of
        EventConnect \<Rightarrow> Some (refused_with current (Some (TRevoked ''claim is revoked'')))
      | EventRevoke \<Rightarrow> Some (refused_with current (Some (TConflict ''claim is already revoked'')))
      | EventLinkLost \<Rightarrow> Some (refused_with current None))"

definition transition :: "status \<Rightarrow> event \<Rightarrow> outcome option" where
  "transition current ev =
     (if st_claim current = ClaimRevoked then revoked_transition current ev
      else if ev = EventConnect \<and> st_presence current = PresenceAbsent
      then Some (accepted ClaimActive PresenceLive [AuditConnected])
      else if ev = EventConnect
      then Some (accepted ClaimActive PresenceLive [AuditSuperseded, AuditConnected])
      else if ev = EventLinkLost \<and> st_presence current = PresenceLive
      then Some (accepted ClaimActive PresenceAbsent [AuditDisconnected])
      else if ev = EventLinkLost then Some (refused_with current None)
      else if ev = EventRevoke \<and> st_presence current = PresenceLive
      then Some (accepted ClaimRevoked PresenceAbsent [AuditDisconnected, AuditRevoked])
      else if ev = EventRevoke then Some (accepted ClaimRevoked PresenceAbsent [AuditRevoked])
      else None)"

definition events :: "event list" where
  "events = [EventConnect, EventLinkLost, EventRevoke]"

section \<open>The audit as a history\<close>

text \<open>
  One audit row read against a status: a claim is made once, a link is connected only when none is
  there, superseded and disconnected only when one is, and a claim is revoked once its link is gone.
\<close>

fun replay_step :: "status option \<Rightarrow> audit_kind \<Rightarrow> status option option" where
  "replay_step None AuditClaimed = Some (Some \<lparr>st_claim = ClaimActive, st_presence = PresenceAbsent\<rparr>)"
| "replay_step None _ = None"
| "replay_step (Some st) k =
     (if st = \<lparr>st_claim = ClaimActive, st_presence = PresenceAbsent\<rparr> \<and> k = AuditConnected
      then Some (Some \<lparr>st_claim = ClaimActive, st_presence = PresenceLive\<rparr>)
      else if st = \<lparr>st_claim = ClaimActive, st_presence = PresenceLive\<rparr> \<and> k \<in> {AuditSuperseded, AuditDisconnected}
      then Some (Some \<lparr>st_claim = ClaimActive, st_presence = PresenceAbsent\<rparr>)
      else if st = \<lparr>st_claim = ClaimActive, st_presence = PresenceAbsent\<rparr> \<and> k = AuditRevoked
      then Some (Some \<lparr>st_claim = ClaimRevoked, st_presence = PresenceAbsent\<rparr>)
      else None)"

fun replay :: "status option \<Rightarrow> audit_kind list \<Rightarrow> status option option" where
  "replay st [] = Some st"
| "replay st (k # ks) = (case replay_step st k of None \<Rightarrow> None | Some st' \<Rightarrow> replay st' ks)"

lemma replay_append:
  "replay st (ks @ ls) = (case replay st ks of None \<Rightarrow> None | Some st' \<Rightarrow> replay st' ls)"
  by (induction ks arbitrary: st) (auto split: option.split)

definition reachable_status :: "status \<Rightarrow> bool" where
  "reachable_status st \<longleftrightarrow> \<not> (st_claim st = ClaimRevoked \<and> st_presence st = PresenceLive)"

lemma status_cases:
  obtains "st = \<lparr>st_claim = ClaimActive, st_presence = PresenceAbsent\<rparr>"
  | "st = \<lparr>st_claim = ClaimActive, st_presence = PresenceLive\<rparr>"
  | "st = \<lparr>st_claim = ClaimRevoked, st_presence = PresenceAbsent\<rparr>"
  | "st = \<lparr>st_claim = ClaimRevoked, st_presence = PresenceLive\<rparr>"
  by (cases st) (metis claim_state.exhaust presence.exhaust)

lemma transition_outcome:
  assumes "reachable_status st"
  shows "\<exists>out. transition st ev = Some out \<and> reachable_status (out_status out) \<and>
    replay (Some st) (out_audit out) = Some (Some (out_status out)) \<and>
    (out_err out \<noteq> None \<longrightarrow> out_status out = st \<and> out_audit out = [])"
  using assms
  by (cases st rule: status_cases; cases ev)
     (simp_all add: transition_def revoked_transition_def accepted_def refused_with_def reachable_status_def)

lemma transition_connect:
  "transition \<lparr>st_claim = c, st_presence = p\<rparr> EventConnect = Some out \<Longrightarrow> out_err out = None \<Longrightarrow>
     c = ClaimActive \<and> out_status out = \<lparr>st_claim = ClaimActive, st_presence = PresenceLive\<rparr>"
  by (cases c; cases p)
     (auto simp: transition_def revoked_transition_def accepted_def refused_with_def)

lemma transition_revoke:
  "transition \<lparr>st_claim = c, st_presence = p\<rparr> EventRevoke = Some out \<Longrightarrow> out_err out = None \<Longrightarrow>
     c = ClaimActive \<and> out_status out = \<lparr>st_claim = ClaimRevoked, st_presence = PresenceAbsent\<rparr>"
  by (cases c; cases p)
     (auto simp: transition_def revoked_transition_def accepted_def refused_with_def)

lemma transition_lost:
  "transition \<lparr>st_claim = ClaimActive, st_presence = PresenceLive\<rparr> EventLinkLost
     = Some (accepted ClaimActive PresenceAbsent [AuditDisconnected])"
  by (simp add: transition_def)

section \<open>A claim only ever moves forward\<close>

text \<open>The states of a claim in the order in which it can be in them.\<close>

instantiation claim_state :: linorder
begin

definition less_eq_claim_state :: "claim_state \<Rightarrow> claim_state \<Rightarrow> bool" where
  "less_eq_claim_state c d \<longleftrightarrow> c = ClaimActive \<or> d = ClaimRevoked"

definition less_claim_state :: "claim_state \<Rightarrow> claim_state \<Rightarrow> bool" where
  "less_claim_state c d \<longleftrightarrow> c = ClaimActive \<and> d = ClaimRevoked"

instance
proof
  fix x y z :: claim_state
  show "x < y \<longleftrightarrow> x \<le> y \<and> \<not> y \<le> x" "x \<le> x" "x \<le> y \<or> y \<le> x"
    by (cases x; cases y; simp add: less_claim_state_def less_eq_claim_state_def)+
  show "x \<le> y \<Longrightarrow> y \<le> z \<Longrightarrow> x \<le> z" "x \<le> y \<Longrightarrow> y \<le> x \<Longrightarrow> x = y"
    by (cases x; cases y; simp add: less_eq_claim_state_def)+
qed

end

lemma transition_forward: "transition st ev = Some out \<Longrightarrow> st_claim st \<le> st_claim (out_status out)"
  by (cases st rule: status_cases; cases ev)
     (auto simp: transition_def revoked_transition_def accepted_def refused_with_def less_eq_claim_state_def)

text \<open>The statuses a sequence of events leads through, up to a panic.\<close>

primrec lifecycle :: "event list \<Rightarrow> status \<Rightarrow> status list" where
  "lifecycle [] st = [st]"
| "lifecycle (ev # evs) st =
     st # (case transition st ev of None \<Rightarrow> [] | Some out \<Rightarrow> lifecycle evs (out_status out))"

lemma lifecycle_after: "later \<in> set (lifecycle evs st) \<Longrightarrow> st_claim st \<le> st_claim later"
proof (induction evs arbitrary: st)
  case (Cons ev evs)
  show ?case
  proof (cases "later = st")
    case False
    with Cons.prems obtain out where out: "transition st ev = Some out" "later \<in> set (lifecycle evs (out_status out))"
      by (cases "transition st ev") auto
    show ?thesis using transition_forward [OF out(1)] Cons.IH [OF out(2)] by (rule order_trans)
  qed simp
qed simp

lemma lifecycle_sorted: "sorted (map st_claim (lifecycle evs st))"
proof (induction evs arbitrary: st)
  case (Cons ev evs)
  have "\<forall>later \<in> set (lifecycle (ev # evs) st). st_claim st \<le> st_claim later" using lifecycle_after by blast
  with Cons.IH show ?case by (simp split: option.split)
qed simp

text \<open>
  C16: the lifecycle table is total, closed and truthful. From every status except a revoked
  claim with a live link no event panics, the next status is again not that one, the audit rows
  of the outcome are a history that leads from the old status to the new one, and an outcome that
  carries an error changes nothing and audits nothing; and that one status always panics.
\<close>

theorem transition_total_truthful:
  "if reachable_status st
   then \<exists>out. transition st ev = Some out \<and> reachable_status (out_status out) \<and>
     replay (Some st) (out_audit out) = Some (Some (out_status out)) \<and>
     (out_err out = None \<or> out_status out = st \<and> out_audit out = []) \<and> ev \<in> set events
   else transition st ev = None"
proof (cases "reachable_status st")
  case True
  moreover have "ev \<in> set events" by (cases ev) (simp_all add: events_def)
  ultimately show ?thesis using transition_outcome [OF True, of ev] by auto
next
  case False
  then show ?thesis by (simp add: reachable_status_def transition_def revoked_transition_def)
qed

end
