(* ===== verification/Tunnel_Claim.thy ===== *)
theory Tunnel_Claim
  imports Tunnel_Lifecycle
begin

text \<open>
  Claims, credentials and hosts of the ingress tunnel: \<^verbatim>\<open>internal/tunnel/claim.go\<close> and
  \<^verbatim>\<open>host.go\<close>. \<^verbatim>\<open>encoding/base64\<close> (the unpadded URL alphabet) and \<^verbatim>\<open>net.SplitHostPort\<close> are
  written out; SHA-256 and the part of \<^verbatim>\<open>strings.ToLower\<close> that needs the Unicode tables (a string
  with a byte outside ASCII) are parameters.
\<close>

record claim =
  cl_subdomain :: string
  cl_token_hash :: string
  cl_revision :: int
  cl_revoked :: bool
  cl_created_at :: int
  cl_revoked_at :: int

definition claim_state_of :: "claim \<Rightarrow> claim_state" where
  "claim_state_of c = (if cl_revoked c then ClaimRevoked else ClaimActive)"

section \<open>Labels\<close>

definition token_prefix :: string where
  "token_prefix = ''rtk_''"

definition token_bytes :: nat where
  "token_bytes = 32"

definition max_label_length :: nat where
  "max_label_length = 63"

definition reserved_subdomains :: "string list" where
  "reserved_subdomains = [''www'', ''control'', ''admin'', ''api'']"

definition label_rune :: "nat \<Rightarrow> bool" where
  "label_rune r \<longleftrightarrow> (97 \<le> r \<and> r \<le> 122) \<or> (48 \<le> r \<and> r \<le> 57) \<or> r = 45"

definition validate_label :: "string \<Rightarrow> tunnel_error check" where
  "validate_label label =
     and_then (when_err (label = [] \<or> length label > max_label_length)
       (TInvalid ''subdomain must be 1 to 63 characters''))
    (and_then (when_err (has_prefix label ''-'' \<or> has_suffix label ''-'')
       (TInvalid ''subdomain must not start or end with a hyphen''))
    (first_error 0 (\<lambda>_ r. when_err (\<not> label_rune r)
       (TInvalid ''subdomain may contain only lowercase letters, digits, and hyphens'')) (runes label)))"

definition validate_subdomain :: "string \<Rightarrow> tunnel_error check" where
  "validate_subdomain subdomain =
     and_then (validate_label subdomain)
       (when_err (subdomain \<in> set reserved_subdomains) (TInvalid ''subdomain is reserved''))"

definition label_byte :: "char \<Rightarrow> bool" where
  "label_byte c \<longleftrightarrow> (CHR ''a'' \<le> c \<and> c \<le> CHR ''z'') \<or> (CHR ''0'' \<le> c \<and> c \<le> CHR ''9'') \<or> c = CHR ''-''"

definition valid_label :: "string \<Rightarrow> bool" where
  "valid_label l \<longleftrightarrow> l \<noteq> [] \<and> length l \<le> 63 \<and> hd l \<noteq> CHR ''-'' \<and> last l \<noteq> CHR ''-'' \<and> (\<forall>c \<in> set l. label_byte c)"

lemma label_rune_byte: "label_rune (byte c) \<longleftrightarrow> label_byte c"
proof -
  have "byte c = 45 \<longleftrightarrow> c = CHR ''-''" using byte_inject [of c "CHR ''-''"] by (simp add: byte_def)
  then show ?thesis by (simp add: label_rune_def label_byte_def less_eq_char_def byte_def)
qed

lemma validate_label_None [check_simps]: "validate_label l = None \<longleftrightarrow> valid_label l"
proof (cases "l = []")
  case False
  have "(\<forall>r \<in> set (runes l). label_rune r) \<longleftrightarrow> (\<forall>c \<in> set l. label_byte c)"
    unfolding label_rune_byte [symmetric] by (rule runes_all_ascii) (auto simp: label_rune_def)
  then show ?thesis
    by (auto simp: validate_label_def check_simps valid_label_def max_label_length_def has_prefix_single has_suffix_single False)
qed (simp add: validate_label_def valid_label_def check_simps)

section \<open>Credentials\<close>

definition b64_char :: "nat \<Rightarrow> char" where
  "b64_char n = char_of (if n < 26 then 65 + n else if n < 52 then 71 + n else if n < 62 then n - 4
     else if n = 62 then 45 else 95)"

definition b64_value :: "char \<Rightarrow> nat option" where
  "b64_value c =
     (let b = byte c in
      if 65 \<le> b \<and> b \<le> 90 then Some (b - 65) else if 97 \<le> b \<and> b \<le> 122 then Some (b - 71)
      else if 48 \<le> b \<and> b \<le> 57 then Some (b + 4) else if b = 45 then Some 62
      else if b = 95 then Some 63 else None)"

text \<open>\<^verbatim>\<open>base64.RawURLEncoding.EncodeToString\<close>\<close>

fun b64_encode :: "string \<Rightarrow> string" where
  "b64_encode [] = []"
| "b64_encode [a] = [b64_char (byte a div 4), b64_char (byte a mod 4 * 16)]"
| "b64_encode [a, b] =
     [b64_char (byte a div 4), b64_char (byte a mod 4 * 16 + byte b div 16), b64_char (byte b mod 16 * 4)]"
| "b64_encode (a # b # c # s) =
     [b64_char (byte a div 4), b64_char (byte a mod 4 * 16 + byte b div 16),
      b64_char (byte b mod 16 * 4 + byte c div 64), b64_char (byte c mod 64)] @ b64_encode s"

text \<open>
  \<^verbatim>\<open>base64.RawURLEncoding.DecodeString\<close>: line ends are skipped, a single left-over character is
  an error, and the unused low bits of the last character are not looked at.
\<close>

fun b64_groups :: "nat list \<Rightarrow> string option" where
  "b64_groups [] = Some []"
| "b64_groups [a] = None"
| "b64_groups [a, b] = Some [char_of (a * 4 + b div 16)]"
| "b64_groups [a, b, c] = Some [char_of (a * 4 + b div 16), char_of (b mod 16 * 16 + c div 4)]"
| "b64_groups (a # b # c # d # s) =
     (case b64_groups s of None \<Rightarrow> None | Some t \<Rightarrow>
        Some (char_of (a * 4 + b div 16) # char_of (b mod 16 * 16 + c div 4) #
              char_of (c mod 4 * 64 + d) # t))"

definition b64_decode :: "string \<Rightarrow> string option" where
  "b64_decode s =
     (let vs = map b64_value (filter (\<lambda>c. c \<noteq> CHR 0x0A \<and> c \<noteq> CHR 0x0D) s)
      in if None \<in> set vs then None else b64_groups (map the vs))"

text \<open>\<^verbatim>\<open>io.ReadFull\<close> of a reader that has the bytes \<open>random\<close> to give.\<close>

definition new_token :: "string \<Rightarrow> tunnel_error + string" where
  "new_token random =
     (if length random < token_bytes then Inl (TInternal ''draw agent token'')
      else Inr (token_prefix @ b64_encode (take token_bytes random)))"

definition hash_token :: "digest \<Rightarrow> string \<Rightarrow> string" where
  "hash_token sha256 token = hex_encode (sha256 token)"

definition validate_token :: "string \<Rightarrow> tunnel_error check" where
  "validate_token token =
     (if \<not> has_prefix token token_prefix then Some (TUnauthorized ''malformed agent token'')
      else case b64_decode (trim_prefix token token_prefix) of
        None \<Rightarrow> Some (TUnauthorized ''malformed agent token'')
      | Some raw \<Rightarrow> when_err (length raw \<noteq> token_bytes) (TUnauthorized ''malformed agent token''))"

lemma byte_b64: "n < 64 \<Longrightarrow> byte (b64_char n) =
  (if n < 26 then 65 + n else if n < 52 then 71 + n else if n < 62 then n - 4 else if n = 62 then 45 else 95)"
  by (simp add: byte_def b64_char_def take_bit_eq_mod)

lemma b64_value_char: "n < 64 \<Longrightarrow> b64_value (b64_char n) = Some n"
  unfolding b64_value_def Let_def byte_b64 by (simp split: if_splits) presburger

lemma b64_char_not_newline: "n < 64 \<Longrightarrow> b64_char n \<noteq> CHR 0x0A \<and> b64_char n \<noteq> CHR 0x0D"
proof -
  assume n: "n < 64"
  have "byte (CHR 0x0A) = 10" "byte (CHR 0x0D) = 13" by (simp_all add: byte_def)
  with n byte_b64 [OF n] show ?thesis by (auto split: if_splits)
qed

fun b64_sextets :: "string \<Rightarrow> nat list" where
  "b64_sextets [] = []"
| "b64_sextets [a] = [byte a div 4, byte a mod 4 * 16]"
| "b64_sextets [a, b] = [byte a div 4, byte a mod 4 * 16 + byte b div 16, byte b mod 16 * 4]"
| "b64_sextets (a # b # c # s) =
     [byte a div 4, byte a mod 4 * 16 + byte b div 16, byte b mod 16 * 4 + byte c div 64, byte c mod 64]
       @ b64_sextets s"

lemma b64_encode_sextets: "b64_encode s = map b64_char (b64_sextets s)"
  by (induction s rule: b64_encode.induct) simp_all

lemma sextet_bounds: "n \<in> set (b64_sextets s) \<Longrightarrow> n < 64"
proof (induction s rule: b64_sextets.induct)
  case (2 a)
  then show ?case using byte_less [of a] by auto
next
  case (3 a b)
  then show ?case using byte_less [of a] byte_less [of b] by auto
next
  case (4 a b c s)
  then show ?case using byte_less [of a] byte_less [of b] byte_less [of c] by auto
qed simp

lemma char_of_byte [simp]: "char_of (byte c) = c"
  by (simp add: byte_def)

lemma b64_groups_sextets: "b64_groups (b64_sextets s) = Some s"
proof (induction s rule: b64_sextets.induct)
  case (2 a)
  have "byte a div 4 * 4 + byte a mod 4 * 16 div 16 = byte a" by simp
  then show ?case by simp
next
  case (3 a b)
  have "byte a div 4 * 4 + (byte a mod 4 * 16 + byte b div 16) div 16 = byte a"
    "(byte a mod 4 * 16 + byte b div 16) mod 16 * 16 + byte b mod 16 * 4 div 4 = byte b"
    using byte_less [of b] by (simp_all add: less_mult_imp_div_less)
  then show ?case by simp
next
  case (4 a b c s)
  have "byte a div 4 * 4 + (byte a mod 4 * 16 + byte b div 16) div 16 = byte a"
    "(byte a mod 4 * 16 + byte b div 16) mod 16 * 16 + (byte b mod 16 * 4 + byte c div 64) div 4 = byte b"
    "(byte b mod 16 * 4 + byte c div 64) mod 4 * 64 + byte c mod 64 = byte c"
    using byte_less [of b] byte_less [of c] by (simp_all add: less_mult_imp_div_less)
  with 4 show ?case by simp
qed simp

lemma b64_roundtrip: "b64_decode (b64_encode s) = Some s"
proof -
  have keep: "filter (\<lambda>c. c \<noteq> CHR 0x0A \<and> c \<noteq> CHR 0x0D) (map b64_char (b64_sextets s))
      = map b64_char (b64_sextets s)"
    using b64_char_not_newline sextet_bounds by (intro filter_True) auto
  have "map b64_value (map b64_char (b64_sextets s)) = map Some (b64_sextets s)"
    using b64_value_char sextet_bounds by auto
  then have vals: "map b64_value (b64_encode s) = map Some (b64_sextets s)"
    by (simp only: b64_encode_sextets)
  have "map the (map Some xs) = xs" for xs :: "nat list" by (simp add: comp_def)
  with vals show ?thesis
    unfolding b64_decode_def keep [folded b64_encode_sextets] Let_def
    by (simp only: b64_groups_sextets) auto
qed

lemma new_token_valid: "new_token random = Inr token \<Longrightarrow> validate_token token = None"
proof -
  have "has_prefix (token_prefix @ t) token_prefix" for t by (simp add: has_prefix_def)
  then show "new_token random = Inr token \<Longrightarrow> validate_token token = None"
    by (auto simp: new_token_def validate_token_def trim_prefix_append b64_roundtrip split: if_splits)
qed

text \<open>
  a credential that was drawn is accepted and carries its randomness. Whatever \<^verbatim>\<open>NewToken\<close>
  issues passes \<^verbatim>\<open>ValidateToken\<close> and decodes to exactly the 32 bytes read, so two tokens are equal
  only if the bytes drawn were; with fewer than 32 bytes to read no token is issued.
\<close>

theorem new_token_roundtrip:
  "case new_token random of
     Inr token \<Rightarrow> validate_token token = None \<and>
       b64_decode (trim_prefix token token_prefix) = Some (take 32 random) \<and> 32 \<le> length random
   | Inl e \<Rightarrow> e = TInternal ''draw agent token'' \<and> length random < 32"
proof (cases "length random < token_bytes")
  case False
  have "has_prefix (token_prefix @ t) token_prefix" for t by (simp add: has_prefix_def)
  with False show ?thesis
    by (simp add: new_token_def validate_token_def trim_prefix_append b64_roundtrip token_bytes_def)
qed (simp add: new_token_def token_bytes_def)

section \<open>Hosts\<close>

definition lower_char :: "char \<Rightarrow> char" where
  "lower_char c = (if 65 \<le> byte c \<and> byte c \<le> 90 then char_of (byte c + 32) else c)"

text \<open>\<^verbatim>\<open>strings.ToLower\<close>: an ASCII string is mapped byte by byte.\<close>

definition to_lower :: "(string \<Rightarrow> string) \<Rightarrow> string \<Rightarrow> string" where
  "to_lower unicode s = (if list_all (\<lambda>c. byte c < 128) s then map lower_char s else unicode s)"

definition last_colon :: "string \<Rightarrow> nat" where
  "last_colon s = length s - Suc (length (takeWhile (\<lambda>c. c \<noteq> CHR '':'') (rev s)))"

text \<open>\<^verbatim>\<open>net.SplitHostPort\<close>, the host part; \<open>None\<close> is its error.\<close>

definition split_host :: "string \<Rightarrow> string option" where
  "split_host s =
     (if \<not> contains_byte s CHR '':'' then None
      else let i = last_colon s in
      if hd s = CHR ''['' then
        (if \<not> contains_byte s CHR '']'' then None
         else let close = length (takeWhile (\<lambda>c. c \<noteq> CHR '']'') s) in
         if close + 1 \<noteq> i then None
         else if contains_byte (drop 1 s) CHR ''['' then None
         else if contains_byte (drop (close + 1) s) CHR '']'' then None
         else Some (take (close - 1) (drop 1 s)))
      else if contains_byte (take i s) CHR '':'' then None
      else if contains_byte s CHR ''['' then None
      else if contains_byte s CHR '']'' then None
      else Some (take i s))"

definition host_without_port :: "string \<Rightarrow> string" where
  "host_without_port host =
     (if \<not> contains_byte host CHR '':'' then host
      else case split_host host of None \<Rightarrow> host | Some name \<Rightarrow> name)"

definition host_subdomain :: "(string \<Rightarrow> string) \<Rightarrow> string \<Rightarrow> string \<Rightarrow> string option" where
  "host_subdomain unicode host domain =
     (let name = to_lower unicode (trim_suffix (host_without_port host) ''.'');
          suffix = ''.'' @ to_lower unicode (trim_suffix domain ''.'')
      in if \<not> has_suffix name suffix then None
         else let label = trim_suffix name suffix in
         if label = [] \<or> contains_byte label CHR ''.'' then None
         else if validate_label label \<noteq> None then None
         else Some label)"

lemma host_names_label_iff:
  "host_subdomain unicode host domain = Some l \<longleftrightarrow>
     valid_label l \<and>
     to_lower unicode (trim_suffix (host_without_port host) ''.'')
       = l @ ''.'' @ to_lower unicode (trim_suffix domain ''.'')"
proof -
  let ?name = "to_lower unicode (trim_suffix (host_without_port host) ''.'')"
  let ?suffix = "''.'' @ to_lower unicode (trim_suffix domain ''.'')"
  have valid: "l \<noteq> [] \<and> \<not> contains_byte l CHR ''.'' \<and> validate_label l = None" if "valid_label l"
    using that by (auto simp: valid_label_def validate_label_None contains_byte_def label_byte_def)
  show ?thesis
  proof
    assume "host_subdomain unicode host domain = Some l"
    then have suf: "has_suffix ?name ?suffix" and l: "l = trim_suffix ?name ?suffix" "validate_label l = None"
      by (auto simp: host_subdomain_def Let_def split: if_splits)
    from suf obtain t where "?name = t @ ?suffix" "trim_suffix ?name ?suffix = t" by (rule has_suffixE)
    with l show "valid_label l \<and> ?name = l @ ?suffix" by (simp add: validate_label_None)
  next
    assume "valid_label l \<and> ?name = l @ ?suffix"
    with valid show "host_subdomain unicode host domain = Some l"
      by (simp add: host_subdomain_def Let_def has_suffix_def suffixI trim_suffix_append del: append_Cons)
  qed
qed

text \<open>
  a host resolves to at most the one label it names. Resolution succeeds with a label exactly
  when the host, without port and trailing dot and in lower case, is that label, a dot and the
  tunnel domain, and the label is well-formed: never for the apex, nested labels, other domains,
  an empty host or a malformed label.
\<close>

theorem host_names_label:
  "host_subdomain unicode host domain = Some l \<longleftrightarrow>
     valid_label l \<and>
     to_lower unicode (trim_suffix (host_without_port host) ''.'')
       = l @ ''.'' @ to_lower unicode (trim_suffix domain ''.'')"
  by (rule host_names_label_iff)

section \<open>Ways to write one host\<close>

lemma lower_char_label: "label_byte c \<Longrightarrow> lower_char c = c"
  by (auto simp: lower_char_def label_byte_def less_eq_char_def byte_def)

lemma host_without_port_plain: "CHR '':'' \<notin> set h \<Longrightarrow> host_without_port h = h"
  by (simp add: host_without_port_def contains_byte_def)

lemma host_without_port_port:
  assumes "set h \<inter> {CHR '':'', CHR ''['', CHR '']''} = {}" and "set p \<inter> {CHR '':'', CHR ''['', CHR '']''} = {}"
    and "h \<noteq> []"
  shows "host_without_port (h @ '':'' @ p) = h"
proof -
  have "takeWhile (\<lambda>c. c \<noteq> CHR '':'') (rev p @ CHR '':'' # rev h) = rev p"
    using assms(2) by (simp add: takeWhile_tail takeWhile_append2) (metis (no_types, lifting) IntI empty_iff insertI1 set_rev takeWhile_eq_all_conv)
  then have last: "last_colon (h @ '':'' @ p) = length h"
    by (simp add: last_colon_def)
  have "hd (h @ '':'' @ p) \<noteq> CHR ''[''" using assms(1,3) by (cases h) auto
  with assms last show ?thesis
    by (auto simp: host_without_port_def split_host_def contains_byte_def Let_def)
qed

text \<open>
  case, port and a trailing dot do not matter. A well-formed label in any letter case, below a
  lower-case ASCII domain, with or without the root dot and with or without a port, resolves to
  that label in lower case.
\<close>

theorem host_spellings:
  assumes "valid_label (map lower_char m)" and "\<forall>c \<in> set (m @ d). byte c < 128"
    and "map lower_char d = d" and "d \<noteq> []" and "last d \<noteq> CHR ''.''"
    and "set (m @ d) \<inter> {CHR '':'', CHR ''['', CHR '']''} = {}"
    and "set p \<inter> {CHR '':'', CHR ''['', CHR '']''} = {}"
    and "dot \<in> {'''', ''.''}" and "port \<in> {'''', '':'' @ p}"
  shows "host_subdomain unicode (m @ ''.'' @ d @ dot @ port) d = Some (map lower_char m)"
proof -
  let ?h = "m @ ''.'' @ d @ dot"
  have clean: "set ?h \<inter> {CHR '':'', CHR ''['', CHR '']''} = {}" using assms(6,8) by auto
  have "host_without_port (?h @ port) = ?h"
  proof (cases "port = ''''")
    case True
    then show ?thesis using clean host_without_port_plain [of ?h] by auto
  next
    case False
    then show ?thesis using assms(7,9) clean host_without_port_port [of ?h p] by auto
  qed
  moreover have no_dot: "\<not> has_suffix (s @ d) ''.''" for s
    using assms(4,5) by (simp add: has_suffix_single)
  have "trim_suffix ?h ''.'' = m @ ''.'' @ d"
  proof (cases "dot = ''''")
    case True
    with no_dot [of "m @ ''.''"] show ?thesis by (simp add: trim_suffix_def)
  next
    case False
    with assms(8) trim_suffix_append [of "m @ ''.'' @ d" "''.''"] show ?thesis by simp
  qed
  moreover have "trim_suffix d ''.'' = d" using no_dot [of "[]"] by (simp add: trim_suffix_def)
  moreover have "to_lower unicode (m @ ''.'' @ d) = map lower_char m @ ''.'' @ d"
    using assms(2,3) by (auto simp: to_lower_def list_all_iff byte_def lower_char_def)
  moreover have "to_lower unicode d = d" using assms(2,3) by (auto simp: to_lower_def list_all_iff)
  ultimately show ?thesis
    using assms(1) by (simp add: host_names_label_iff)
qed

theorem host_spellings_witness:
  "host_subdomain id ''ACME.tunnel.test.:8443'' ''tunnel.test'' = Some ''acme''"
proof -
  have "host_subdomain id (''ACME'' @ ''.'' @ ''tunnel.test'' @ ''.'' @ ('':'' @ ''8443'')) ''tunnel.test''
      = Some (map lower_char ''ACME'')"
  proof (rule host_spellings [where p = "''8443''"])
    show "valid_label (map lower_char ''ACME'')" by code_simp
    show "map lower_char ''tunnel.test'' = ''tunnel.test''" by code_simp
  qed (simp_all add: byte_def)
  moreover have "map lower_char ''ACME'' = ''acme''" by code_simp
  ultimately show ?thesis by simp
qed

end
