(* ===== verification/Tunnel_Registry.thy ===== *)
theory Tunnel_Registry
  imports Tunnel_Claim
begin

text \<open>
  The routing table: \<^verbatim>\<open>internal/tunnel/registry.go\<close>. A link is a name \<open>'l\<close>; each method is atomic
  under the table's mutex. A method that changes the table returns it with its result.
\<close>

datatype close_reason = CloseSuperseded | CloseRevoked | CloseShutdown

record 'l attachment =
  att_link :: 'l
  att_generation :: "64 word"

type_synonym 'l registry = "(string, 'l attachment) go_map"

definition new_registry :: "'l registry" where
  "new_registry = []"

definition registry_attach :: "string \<Rightarrow> 'l \<Rightarrow> 64 word \<Rightarrow> 'l registry \<Rightarrow> 'l registry \<times> 'l option" where
  "registry_attach subdomain link generation r =
     (let previous = map_get r subdomain;
          r' = map_put subdomain \<lparr>att_link = link, att_generation = generation\<rparr> r
      in (r', case previous of None \<Rightarrow> None | Some p \<Rightarrow> Some (att_link p)))"

definition registry_matches :: "string \<Rightarrow> 64 word \<Rightarrow> 'l registry \<Rightarrow> bool" where
  "registry_matches subdomain generation r =
     (case map_get r subdomain of None \<Rightarrow> False | Some current \<Rightarrow> att_generation current = generation)"

definition registry_detach :: "string \<Rightarrow> 64 word \<Rightarrow> 'l registry \<Rightarrow> 'l registry \<times> bool" where
  "registry_detach subdomain generation r =
     (case map_get r subdomain of
        None \<Rightarrow> (r, False)
      | Some current \<Rightarrow>
          if att_generation current \<noteq> generation then (r, False)
          else (map_delete subdomain r, True))"

definition registry_evict :: "string \<Rightarrow> 'l registry \<Rightarrow> 'l registry \<times> 'l option" where
  "registry_evict subdomain r =
     (case map_get r subdomain of
        None \<Rightarrow> (r, None)
      | Some current \<Rightarrow> (map_delete subdomain r, Some (att_link current)))"

definition registry_lookup :: "string \<Rightarrow> 'l registry \<Rightarrow> 'l option" where
  "registry_lookup subdomain r = map_option att_link (map_get r subdomain)"

definition registry_presence :: "string \<Rightarrow> 'l registry \<Rightarrow> presence" where
  "registry_presence subdomain r =
     (if registry_lookup subdomain r \<noteq> None then PresenceLive else PresenceAbsent)"

definition registry_live :: "'l registry \<Rightarrow> string list" where
  "registry_live r = map_keys r"

lemma registry_presence_iff [simp]:
  "registry_presence sub r = PresenceLive \<longleftrightarrow> map_get r sub \<noteq> None"
  "registry_presence sub r = PresenceAbsent \<longleftrightarrow> map_get r sub = None"
  by (auto simp: registry_presence_def registry_lookup_def)

lemma registry_attach_simps [simp]:
  "fst (registry_attach sub l g r) = map_put sub \<lparr>att_link = l, att_generation = g\<rparr> r"
  "snd (registry_attach sub l g r) = registry_lookup sub r"
  by (auto simp: registry_attach_def registry_lookup_def Let_def split: option.split)

lemma registry_evict_simps [simp]:
  "map_get (fst (registry_evict sub r)) sub' = (if sub' = sub then None else map_get r sub')"
  "snd (registry_evict sub r) = registry_lookup sub r"
  by (auto simp: registry_evict_def registry_lookup_def split: option.split)

lemma registry_detach_get:
  "map_get (fst (registry_detach sub g r)) sub' =
     (if sub' = sub \<and> registry_matches sub g r then None else map_get r sub')"
  "snd (registry_detach sub g r) = registry_matches sub g r"
  by (auto simp: registry_detach_def registry_matches_def split: option.split)

lemma registry_live_iff: "sub \<in> set (registry_live r) \<longleftrightarrow> map_get r sub \<noteq> None"
  by (auto simp: registry_live_def map_keys_def map_get_def map_of_eq_None_iff)

end
