(* ===== verification/Tunnel_Store.thy ===== *)
theory Tunnel_Store
  imports Tunnel_Claim
begin

text \<open>
  The durable authority of the tunnel. First the interface \<^verbatim>\<open>tunnel.Store\<close> of
  \<^verbatim>\<open>internal/tunnel/tunnels.go\<close> as a record of operations (what a Go interface value holds) and
  its contract, the locale \<open>claim_store\<close>, over an abstract ledger of claims and audit rows; then
  \<^verbatim>\<open>internal/store/sqlite\<close> (\<^verbatim>\<open>sqlite.go\<close>, \<^verbatim>\<open>claims.go\<close>, \<^verbatim>\<open>audit.go\<close>), whose operations meet it.
  The tables are lists of rows in insertion order, a transaction works on a copy that \<^verbatim>\<open>Commit\<close>
  installs, and \<open>io\<close> names the database call that fails, if one does. The fixed-width time
  layout is the parameter \<open>codec\<close>.
\<close>

section \<open>The interface\<close>

record ('io, 'st) claim_ops =
  insert_claim :: "'io \<Rightarrow> claim \<Rightarrow> tunnel_audit \<Rightarrow> 'st \<Rightarrow> 'st \<times> tunnel_error option"
  claim_by_hash :: "'io \<Rightarrow> string \<Rightarrow> 'st \<Rightarrow> tunnel_error + claim"
  claim_by_subdomain :: "'io \<Rightarrow> string \<Rightarrow> 'st \<Rightarrow> tunnel_error + claim"
  revoke_claim :: "'io \<Rightarrow> string \<Rightarrow> int \<Rightarrow> int \<Rightarrow> tunnel_audit list \<Rightarrow> 'st \<Rightarrow> 'st \<times> (tunnel_error + claim)"
  append_rows :: "'io \<Rightarrow> tunnel_audit list \<Rightarrow> 'st \<Rightarrow> 'st \<times> tunnel_error option"
  list_claims :: "'io \<Rightarrow> 'st \<Rightarrow> tunnel_error + claim list"

record claim_ledger =
  claims_of :: "string \<Rightarrow> claim option"
  rows_of :: "tunnel_audit list"

text \<open>The zero \<^verbatim>\<open>time.Time\<close>, of a claim that has not been revoked.\<close>

definition zero_time :: int where
  "zero_time = - 62135596800000000000"

definition fresh_claim :: "claim \<Rightarrow> claim" where
  "fresh_claim c = c\<lparr>cl_revoked := False, cl_revoked_at := zero_time\<rparr>"

definition revoked_claim :: "int \<Rightarrow> claim \<Rightarrow> claim" where
  "revoked_claim at c = c\<lparr>cl_revision := cl_revision c + 1, cl_revoked := True, cl_revoked_at := at\<rparr>"

definition wf_claims :: "claim_ledger \<Rightarrow> bool" where
  "wf_claims L \<longleftrightarrow>
     (\<forall>sub c. claims_of L sub = Some c \<longrightarrow> cl_subdomain c = sub) \<and>
     (\<forall>a b c d. claims_of L a = Some c \<and> claims_of L b = Some d \<and> cl_token_hash c = cl_token_hash d \<longrightarrow> a = b)"

definition internal_error :: "tunnel_error \<Rightarrow> bool" where
  "internal_error e \<longleftrightarrow> (\<exists>m. e = TInternal m)"

locale claim_store =
  fixes S :: "('io, 'st) claim_ops"
    and ledger :: "'st \<Rightarrow> claim_ledger"
    and ok :: "'st \<Rightarrow> bool"
  assumes ok_wf: "ok s \<Longrightarrow> wf_claims (ledger s)"
    and insert_spec: "ok s \<Longrightarrow> cl_revision c = 1 \<Longrightarrow> insert_claim S io c row s = (s', q) \<Longrightarrow> ok s' \<and>
      ((q = None \<and> claims_of (ledger s) (cl_subdomain c) = None \<and>
        ledger s' = \<lparr>claims_of = (claims_of (ledger s)) (cl_subdomain c \<mapsto> fresh_claim c),
                     rows_of = rows_of (ledger s) @ [row]\<rparr>) \<or>
       (ledger s' = ledger s \<and> (\<exists>e. q = Some e \<and> (internal_error e \<or> (\<exists>m. e = TConflict m)))))"
    and by_subdomain_spec: "ok s \<Longrightarrow> claim_by_subdomain S io sub s = r \<Longrightarrow>
      (case r of Inr c \<Rightarrow> claims_of (ledger s) sub = Some c
       | Inl e \<Rightarrow> internal_error e \<or> (\<exists>m. e = TNotFound m) \<and> claims_of (ledger s) sub = None)"
    and by_hash_spec: "ok s \<Longrightarrow> claim_by_hash S io h s = r \<Longrightarrow>
      (case r of Inr c \<Rightarrow> claims_of (ledger s) (cl_subdomain c) = Some c \<and> cl_token_hash c = h
       | Inl e \<Rightarrow> internal_error e \<or>
           (\<exists>m. e = TNotFound m) \<and> (\<forall>sub c. claims_of (ledger s) sub = Some c \<longrightarrow> cl_token_hash c \<noteq> h))"
    and revoke_spec: "ok s \<Longrightarrow> revoke_claim S io sub x at rows s = (s', r) \<Longrightarrow> ok s' \<and>
      ((\<exists>c. claims_of (ledger s) sub = Some c \<and> cl_revision c = x \<and> \<not> cl_revoked c \<and>
          r = Inr (revoked_claim at c) \<and>
          ledger s' = \<lparr>claims_of = (claims_of (ledger s)) (sub \<mapsto> revoked_claim at c),
                       rows_of = rows_of (ledger s) @ rows\<rparr>) \<or>
       (ledger s' = ledger s \<and> (\<exists>e. r = Inl e \<and> (internal_error e \<or> (\<exists>m. e = TConflict m)))))"
    and append_spec: "ok s \<Longrightarrow> append_rows S io rows s = (s', q) \<Longrightarrow> ok s' \<and>
      ((q = None \<and> ledger s' = (ledger s)\<lparr>rows_of := rows_of (ledger s) @ rows\<rparr>) \<or>
       (ledger s' = ledger s \<and> (\<exists>e. q = Some e \<and> internal_error e)))"
    and list_spec: "ok s \<Longrightarrow> list_claims S io s = Inr cs \<Longrightarrow>
      distinct (map cl_subdomain cs) \<and> set cs = {c. claims_of (ledger s) (cl_subdomain c) = Some c}"

section \<open>The tables\<close>

record 't time_codec =
  tc_format :: "int \<Rightarrow> 't"
  tc_parse :: "'t \<Rightarrow> int option"

record 't claim_row =
  crow_subdomain :: string
  crow_token_hash :: string
  crow_revision :: int
  crow_revoked :: int
  crow_created_at :: 't
  crow_revoked_at :: "'t option"

record 't tunnel_row =
  trow_sequence :: int
  trow_at :: 't
  trow_subdomain :: string
  trow_kind :: audit_kind
  trow_actor :: string
  trow_detail :: string

record 't tunnel_database =
  claims_table :: "'t claim_row list"
  rows_table :: "'t tunnel_row list"
  rows_autoincrement :: int

datatype tunnel_call =
    TBegin | TInsertClaim | TInsertAudit nat | TUpdateClaim | TRowsAffected
  | TSelectClaim | TCommit | TQuery | TScan nat | TIterate

type_synonym tunnel_io = "tunnel_call option"

definition empty_tunnel_database :: "'t tunnel_database" where
  "empty_tunnel_database = \<lparr>claims_table = [], rows_table = [], rows_autoincrement = 0\<rparr>"

fun insert_audit ::
  "'t time_codec \<Rightarrow> tunnel_io \<Rightarrow> nat \<Rightarrow> tunnel_audit list \<Rightarrow> 't tunnel_database \<Rightarrow>
   tunnel_error + 't tunnel_database" where
  "insert_audit C io i [] tx = Inr tx"
| "insert_audit C io i (entry # entries) tx =
     (if io = Some (TInsertAudit i) \<or> rows_autoincrement tx \<ge> max_int64
      then Inl (TInternal ''append audit'')
      else insert_audit C io (Suc i) entries
        (tx\<lparr>rows_table := rows_table tx @
             [\<lparr>trow_sequence = rows_autoincrement tx + 1, trow_at = tc_format C (ta_at entry),
               trow_subdomain = ta_subdomain entry, trow_kind = ta_kind entry,
               trow_actor = ta_actor entry, trow_detail = ta_detail entry\<rparr>],
           rows_autoincrement := rows_autoincrement tx + 1\<rparr>))"

text \<open>
  \<^verbatim>\<open>Scan\<close> into an \<^verbatim>\<open>int\<close> fails on a number out of its range, which is where SQLite's
  \<^verbatim>\<open>revision + 1\<close> would leave the integers.
\<close>

definition scan_claim :: "'t time_codec \<Rightarrow> tunnel_io \<Rightarrow> 't claim_row option \<Rightarrow> tunnel_error + claim" where
  "scan_claim C io row =
     (if io = Some TSelectClaim then Inl (TInternal ''scan claim'')
      else case row of
        None \<Rightarrow> Inl (TNotFound ''claim'')
      | Some r \<Rightarrow>
        if crow_revision r > max_int64 then Inl (TInternal ''scan claim'')
        else (case tc_parse C (crow_created_at r) of
           None \<Rightarrow> Inl (TInternal ''parse claim created_at'')
         | Some created \<Rightarrow>
           let c = \<lparr>cl_subdomain = crow_subdomain r, cl_token_hash = crow_token_hash r,
                    cl_revision = crow_revision r, cl_revoked = (crow_revoked r = 1),
                    cl_created_at = created, cl_revoked_at = zero_time\<rparr>
           in case crow_revoked_at r of
                None \<Rightarrow> Inr c
              | Some at \<Rightarrow>
                (case tc_parse C at of
                   None \<Rightarrow> Inl (TInternal ''parse claim revoked_at'')
                 | Some t \<Rightarrow> Inr (c\<lparr>cl_revoked_at := t\<rparr>))))"

definition find_claim :: "'t claim_row list \<Rightarrow> string \<Rightarrow> 't claim_row option" where
  "find_claim rows sub = List.find (\<lambda>r. crow_subdomain r = sub) rows"

definition tsql_insert ::
  "'t time_codec \<Rightarrow> tunnel_io \<Rightarrow> claim \<Rightarrow> tunnel_audit \<Rightarrow> 't tunnel_database \<Rightarrow>
   't tunnel_database \<times> tunnel_error option" where
  "tsql_insert C io c entry db =
     (if io = Some TBegin then (db, Some (TInternal ''begin claim insert''))
      else if io = Some TInsertClaim then (db, Some (TInternal ''insert claim''))
      else if list_ex (\<lambda>r. crow_subdomain r = cl_subdomain c \<or> crow_token_hash r = cl_token_hash c)
                (claims_table db)
      then (db, Some (TConflict ''subdomain is already claimed''))
      else
        let tx = db\<lparr>claims_table := claims_table db @
              [\<lparr>crow_subdomain = cl_subdomain c, crow_token_hash = cl_token_hash c,
                crow_revision = cl_revision c, crow_revoked = 0,
                crow_created_at = tc_format C (cl_created_at c), crow_revoked_at = None\<rparr>]\<rparr>
        in case insert_audit C io 0 [entry] tx of
             Inl e \<Rightarrow> (db, Some e)
           | Inr tx2 \<Rightarrow>
               if io = Some TCommit then (db, Some (TInternal ''commit claim insert''))
               else (tx2, None))"

definition tsql_by_hash :: "'t time_codec \<Rightarrow> tunnel_io \<Rightarrow> string \<Rightarrow> 't tunnel_database \<Rightarrow> tunnel_error + claim" where
  "tsql_by_hash C io h db = scan_claim C io (List.find (\<lambda>r. crow_token_hash r = h) (claims_table db))"

definition tsql_by_subdomain ::
  "'t time_codec \<Rightarrow> tunnel_io \<Rightarrow> string \<Rightarrow> 't tunnel_database \<Rightarrow> tunnel_error + claim" where
  "tsql_by_subdomain C io sub db = scan_claim C io (find_claim (claims_table db) sub)"

definition revoke_row :: "'t time_codec \<Rightarrow> int \<Rightarrow> 't claim_row \<Rightarrow> 't claim_row" where
  "revoke_row C at r = r\<lparr>crow_revoked := 1, crow_revision := crow_revision r + 1,
     crow_revoked_at := Some (tc_format C at)\<rparr>"

definition tsql_revoke ::
  "'t time_codec \<Rightarrow> tunnel_io \<Rightarrow> string \<Rightarrow> int \<Rightarrow> int \<Rightarrow> tunnel_audit list \<Rightarrow> 't tunnel_database \<Rightarrow>
   't tunnel_database \<times> (tunnel_error + claim)" where
  "tsql_revoke C io sub expected at entries db =
     (if io = Some TBegin then (db, Inl (TInternal ''begin claim revoke''))
      else if io = Some TUpdateClaim then (db, Inl (TInternal ''revoke claim''))
      else
        let hit = (\<lambda>r. crow_subdomain r = sub \<and> crow_revision r = expected \<and> crow_revoked r = 0);
            tx = db\<lparr>claims_table := map (\<lambda>r. if hit r then revoke_row C at r else r) (claims_table db)\<rparr>
        in if io = Some TRowsAffected then (db, Inl (TInternal ''revoke claim rows''))
           else if length (filter hit (claims_table db)) \<noteq> 1
           then (db, Inl (TConflict ''claim changed underneath the revoke''))
           else case insert_audit C io 0 entries tx of
             Inl e \<Rightarrow> (db, Inl e)
           | Inr tx2 \<Rightarrow>
             (case scan_claim C io (find_claim (claims_table tx2) sub) of
                Inl e \<Rightarrow> (db, Inl e)
              | Inr c \<Rightarrow>
                  if io = Some TCommit then (db, Inl (TInternal ''commit claim revoke''))
                  else (tx2, Inr c)))"

definition tsql_append ::
  "'t time_codec \<Rightarrow> tunnel_io \<Rightarrow> tunnel_audit list \<Rightarrow> 't tunnel_database \<Rightarrow>
   't tunnel_database \<times> tunnel_error option" where
  "tsql_append C io entries db =
     (if io = Some TBegin then (db, Some (TInternal ''begin audit append''))
      else case insert_audit C io 0 entries db of
        Inl e \<Rightarrow> (db, Some e)
      | Inr tx \<Rightarrow>
          if io = Some TCommit then (db, Some (TInternal ''commit audit append'')) else (tx, None))"

fun scan_claims ::
  "'t time_codec \<Rightarrow> tunnel_io \<Rightarrow> nat \<Rightarrow> 't claim_row list \<Rightarrow> claim list \<Rightarrow> tunnel_error + claim list" where
  "scan_claims C io i [] acc =
     (if io = Some TIterate then Inl (TInternal ''iterate claims'') else Inr acc)"
| "scan_claims C io i (r # rs) acc =
     (if io = Some (TScan i) then Inl (TInternal ''scan claim'')
      else case scan_claim C None (Some r) of
        Inl e \<Rightarrow> Inl e
      | Inr c \<Rightarrow> scan_claims C io (Suc i) rs (acc @ [c]))"

text \<open>\<^verbatim>\<open>ORDER BY created_at, subdomain\<close>\<close>

definition tsql_list ::
  "('t::linorder) time_codec \<Rightarrow> tunnel_io \<Rightarrow> 't tunnel_database \<Rightarrow> tunnel_error + claim list" where
  "tsql_list C io db =
     (if io = Some TQuery then Inl (TInternal ''list claims'')
      else scan_claims C io 0
        (sort_key crow_created_at (sort_key crow_subdomain (claims_table db))) [])"

definition row_audit :: "'t time_codec \<Rightarrow> 't tunnel_row \<Rightarrow> tunnel_error + int \<times> tunnel_audit" where
  "row_audit C r =
     (case tc_parse C (trow_at r) of
        None \<Rightarrow> Inl (TInternal ''parse audit at'')
      | Some t \<Rightarrow> Inr (trow_sequence r, \<lparr>ta_at = t, ta_subdomain = trow_subdomain r,
          ta_kind = trow_kind r, ta_actor = trow_actor r, ta_detail = trow_detail r\<rparr>))"

fun scan_audits ::
  "'t time_codec \<Rightarrow> tunnel_io \<Rightarrow> nat \<Rightarrow> 't tunnel_row list \<Rightarrow> (int \<times> tunnel_audit) list \<Rightarrow>
   tunnel_error + (int \<times> tunnel_audit) list" where
  "scan_audits C io i [] acc =
     (if io = Some TIterate then Inl (TInternal ''iterate audit'') else Inr acc)"
| "scan_audits C io i (r # rs) acc =
     (if io = Some (TScan i) then Inl (TInternal ''scan audit'')
      else case row_audit C r of
        Inl e \<Rightarrow> Inl e
      | Inr x \<Rightarrow> scan_audits C io (Suc i) rs (acc @ [x]))"

text \<open>\<^verbatim>\<open>ORDER BY sequence DESC LIMIT ?\<close>, where a negative limit is none.\<close>

definition tsql_audit ::
  "'t time_codec \<Rightarrow> tunnel_io \<Rightarrow> int \<Rightarrow> 't tunnel_database \<Rightarrow> tunnel_error + (int \<times> tunnel_audit) list" where
  "tsql_audit C io limit db =
     (if io = Some TQuery then Inl (TInternal ''read audit'')
      else let newest_first = rev (sort_key trow_sequence (rows_table db))
      in scan_audits C io 0 (if limit < 0 then newest_first else take (nat limit) newest_first) [])"

definition tsql_ops :: "('t::linorder) time_codec \<Rightarrow> (tunnel_io, 't tunnel_database) claim_ops" where
  "tsql_ops C = \<lparr>insert_claim = tsql_insert C, claim_by_hash = tsql_by_hash C,
     claim_by_subdomain = tsql_by_subdomain C, revoke_claim = tsql_revoke C,
     append_rows = tsql_append C, list_claims = tsql_list C\<rparr>"

section \<open>The tables as a ledger\<close>

definition row_claim :: "'t time_codec \<Rightarrow> 't claim_row \<Rightarrow> claim" where
  "row_claim C r =
     \<lparr>cl_subdomain = crow_subdomain r, cl_token_hash = crow_token_hash r,
      cl_revision = crow_revision r, cl_revoked = (crow_revoked r = 1),
      cl_created_at = the (tc_parse C (crow_created_at r)),
      cl_revoked_at = (case crow_revoked_at r of None \<Rightarrow> zero_time | Some at \<Rightarrow> the (tc_parse C at))\<rparr>"

definition row_entry :: "'t time_codec \<Rightarrow> 't tunnel_row \<Rightarrow> tunnel_audit" where
  "row_entry C r = \<lparr>ta_at = the (tc_parse C (trow_at r)), ta_subdomain = trow_subdomain r,
     ta_kind = trow_kind r, ta_actor = trow_actor r, ta_detail = trow_detail r\<rparr>"

definition tsql_ledger :: "'t time_codec \<Rightarrow> 't tunnel_database \<Rightarrow> claim_ledger" where
  "tsql_ledger C db =
     \<lparr>claims_of = (\<lambda>sub. map_option (row_claim C) (find_claim (claims_table db) sub)),
      rows_of = map (row_entry C) (rows_table db)\<rparr>"

definition row_fine :: "'t time_codec \<Rightarrow> 't claim_row \<Rightarrow> bool" where
  "row_fine C r \<longleftrightarrow> tc_parse C (crow_created_at r) \<noteq> None \<and> crow_revision r \<le> max_int64 \<and>
     crow_revoked r \<in> {0, 1} \<and> (\<forall>at. crow_revoked_at r = Some at \<longrightarrow> tc_parse C at \<noteq> None) \<and>
     (crow_revoked r = 0 \<longrightarrow> crow_revoked_at r = None)"

definition rows_fine :: "'t time_codec \<Rightarrow> 't tunnel_database \<Rightarrow> bool" where
  "rows_fine C db \<longleftrightarrow> (\<forall>r \<in> set (rows_table db). tc_parse C (trow_at r) \<noteq> None) \<and>
     map trow_sequence (rows_table db) = map int [1..<Suc (length (rows_table db))] \<and>
     rows_autoincrement db = int (length (rows_table db)) \<and> rows_autoincrement db \<le> max_int64"

definition tsql_ok :: "'t time_codec \<Rightarrow> 't tunnel_database \<Rightarrow> bool" where
  "tsql_ok C db \<longleftrightarrow> (\<forall>t. tc_parse C (tc_format C t) = Some t) \<and>
     distinct (map crow_subdomain (claims_table db)) \<and> distinct (map crow_token_hash (claims_table db)) \<and>
     (\<forall>r \<in> set (claims_table db). row_fine C r) \<and> rows_fine C db"

lemma find_claim_simps [simp]:
  "find_claim [] sub = None"
  "find_claim (r # rows) sub = (if crow_subdomain r = sub then Some r else find_claim rows sub)"
  by (simp_all add: find_claim_def)

lemma find_claim_Some: "find_claim rows sub = Some r \<Longrightarrow> r \<in> set rows \<and> crow_subdomain r = sub"
  by (induction rows) (auto split: if_splits)

lemma find_claim_None: "find_claim rows sub = None \<longleftrightarrow> sub \<notin> crow_subdomain ` set rows"
  by (induction rows) auto

lemma find_claim_snoc:
  "find_claim (rows @ [r]) sub =
     (case find_claim rows sub of None \<Rightarrow> if crow_subdomain r = sub then Some r else None | Some q \<Rightarrow> Some q)"
  by (induction rows) auto

lemma find_claim_in: "distinct (map crow_subdomain rows) \<Longrightarrow> r \<in> set rows \<Longrightarrow> find_claim rows (crow_subdomain r) = Some r"
  by (induction rows) (auto simp: image_iff)

lemma find_claim_map:
  "(\<And>r. crow_subdomain (g r) = crow_subdomain r) \<Longrightarrow>
     find_claim (map g rows) sub = map_option g (find_claim rows sub)"
  by (induction rows) auto

lemma row_claim_fields [simp]:
  "cl_subdomain (row_claim C r) = crow_subdomain r" "cl_token_hash (row_claim C r) = crow_token_hash r"
  "cl_revision (row_claim C r) = crow_revision r" "cl_revoked (row_claim C r) = (crow_revoked r = 1)"
  by (simp_all add: row_claim_def)

lemma scan_claim_row:
  "row_fine C r \<Longrightarrow> scan_claim C io (Some r) =
     (if io = Some TSelectClaim then Inl (TInternal ''scan claim'') else Inr (row_claim C r))"
  by (auto simp: scan_claim_def row_fine_def row_claim_def Let_def split: option.split)

lemma internal_error_TInternal [simp]: "internal_error (TInternal m)"
  by (simp add: internal_error_def)

lemma scan_claim_error: "scan_claim C io (Some r) = Inl e \<Longrightarrow> internal_error e"
  by (auto simp: scan_claim_def Let_def split: if_splits option.splits)

lemma scan_claim_big:
  "io = Some TSelectClaim \<or> crow_revision r > max_int64 \<Longrightarrow> scan_claim C io (Some r) = Inl (TInternal ''scan claim'')"
  by (auto simp: scan_claim_def)

lemma insert_audit_claims: "insert_audit C io i es tx = Inr tx2 \<Longrightarrow> claims_table tx2 = claims_table tx"
  by (induction C io i es tx rule: insert_audit.induct) (auto split: if_splits)

lemma insert_audit_error: "insert_audit C io i es tx = Inl e \<Longrightarrow> internal_error e"
  by (induction C io i es tx rule: insert_audit.induct) (auto simp: internal_error_def split: if_splits)

lemma insert_audit_rows:
  assumes "\<forall>t. tc_parse C (tc_format C t) = Some t"
  shows "insert_audit C io i es tx = Inr tx2 \<Longrightarrow> rows_fine C tx \<Longrightarrow>
    rows_fine C tx2 \<and> map (row_entry C) (rows_table tx2) = map (row_entry C) (rows_table tx) @ es"
proof (induction es arbitrary: i tx)
  case (Cons entry es)
  let ?tx = "tx\<lparr>rows_table := rows_table tx @
             [\<lparr>trow_sequence = rows_autoincrement tx + 1, trow_at = tc_format C (ta_at entry),
               trow_subdomain = ta_subdomain entry, trow_kind = ta_kind entry,
               trow_actor = ta_actor entry, trow_detail = ta_detail entry\<rparr>],
           rows_autoincrement := rows_autoincrement tx + 1\<rparr>"
  have step: "insert_audit C io (Suc i) es ?tx = Inr tx2" "rows_autoincrement tx < max_int64"
    using Cons.prems(1) by (auto split: if_splits)
  have "rows_fine C ?tx" using Cons.prems(2) step(2) assms by (auto simp: rows_fine_def)
  from Cons.IH [OF step(1) this] assms show ?case by (simp add: row_entry_def)
qed simp

lemma tsql_ok_row: "tsql_ok C db \<Longrightarrow> r \<in> set (claims_table db) \<Longrightarrow> row_fine C r"
  by (simp add: tsql_ok_def)

lemma tsql_wf: "tsql_ok C db \<Longrightarrow> wf_claims (tsql_ledger C db)"
  unfolding wf_claims_def
proof (intro conjI allI impI)
  fix a b c d
  assume ok: "tsql_ok C db" and cd: "claims_of (tsql_ledger C db) a = Some c \<and>
    claims_of (tsql_ledger C db) b = Some d \<and> cl_token_hash c = cl_token_hash d"
  then obtain q r where "find_claim (claims_table db) a = Some q" "find_claim (claims_table db) b = Some r"
    "crow_token_hash q = crow_token_hash r" by (auto simp: tsql_ledger_def)
  moreover from this ok have "q = r"
    by (auto simp: tsql_ok_def distinct_map inj_on_def dest!: find_claim_Some)
  ultimately show "a = b" by (auto dest!: find_claim_Some)
qed (auto simp: tsql_ledger_def dest!: find_claim_Some)

lemma tsql_by_subdomain_spec:
  assumes "tsql_ok C db" and "tsql_by_subdomain C io sub db = r"
  shows "case r of Inr c \<Rightarrow> claims_of (tsql_ledger C db) sub = Some c
    | Inl e \<Rightarrow> internal_error e \<or> (\<exists>m. e = TNotFound m) \<and> claims_of (tsql_ledger C db) sub = None"
proof (cases "find_claim (claims_table db) sub")
  case None
  with assms(2) show ?thesis
    by (auto simp: tsql_by_subdomain_def scan_claim_def tsql_ledger_def internal_error_def)
next
  case (Some q)
  with assms scan_claim_row [OF tsql_ok_row [OF assms(1)], of q io] find_claim_Some [OF Some] show ?thesis
    by (auto simp: tsql_by_subdomain_def tsql_ledger_def internal_error_def)
qed

lemma tsql_by_hash_spec:
  assumes "tsql_ok C db" and "tsql_by_hash C io h db = r"
  shows "case r of Inr c \<Rightarrow> claims_of (tsql_ledger C db) (cl_subdomain c) = Some c \<and> cl_token_hash c = h
    | Inl e \<Rightarrow> internal_error e \<or>
        (\<exists>m. e = TNotFound m) \<and> (\<forall>sub c. claims_of (tsql_ledger C db) sub = Some c \<longrightarrow> cl_token_hash c \<noteq> h)"
proof (cases "List.find (\<lambda>r. crow_token_hash r = h) (claims_table db)")
  case None
  then have no: "h \<notin> crow_token_hash ` set (claims_table db)" by (auto simp: find_None_iff)
  have "cl_token_hash c \<noteq> h" if c: "claims_of (tsql_ledger C db) sub = Some c" for sub c
  proof -
    obtain q where "find_claim (claims_table db) sub = Some q" "c = row_claim C q"
      using c by (auto simp: tsql_ledger_def)
    with no find_claim_Some show ?thesis by fastforce
  qed
  with None assms(2) show ?thesis
    by (auto simp: tsql_by_hash_def scan_claim_def internal_error_def)
next
  case (Some q)
  then have q: "q \<in> set (claims_table db)" "crow_token_hash q = h" by (auto simp: find_Some_iff)
  moreover have "find_claim (claims_table db) (crow_subdomain q) = Some q"
    using assms(1) q(1) by (intro find_claim_in) (simp add: tsql_ok_def)
  ultimately show ?thesis
    using assms Some scan_claim_row [OF tsql_ok_row [OF assms(1) q(1)], of io]
    by (auto simp: tsql_by_hash_def tsql_ledger_def internal_error_def)
qed

lemma tsql_by_hash_found:
  assumes ok: "tsql_ok C db" and d: "claims_of (tsql_ledger C db) sub = Some d"
  shows "tsql_by_hash C None (cl_token_hash d) db = Inr d"
proof -
  obtain r where r: "find_claim (claims_table db) sub = Some r" "d = row_claim C r"
    using d by (auto simp: tsql_ledger_def)
  then have mem: "r \<in> set (claims_table db)" using find_claim_Some by blast
  then obtain q where q: "List.find (\<lambda>q. crow_token_hash q = cl_token_hash d) (claims_table db) = Some q"
    using r(2) by (cases "List.find (\<lambda>q. crow_token_hash q = cl_token_hash d) (claims_table db)")
      (auto simp: find_None_iff)
  then have "q \<in> set (claims_table db)" "crow_token_hash q = crow_token_hash r"
    using r(2) by (auto simp: find_Some_iff)
  with mem ok have "q = r" by (auto simp: tsql_ok_def distinct_map inj_on_def)
  with q r(2) scan_claim_row [OF tsql_ok_row [OF ok mem], of None] show ?thesis
    by (simp add: tsql_by_hash_def)
qed

lemma tsql_append_spec:
  assumes "tsql_ok C db" and "tsql_append C io es db = (db', q)"
  shows "tsql_ok C db' \<and>
    ((q = None \<and> tsql_ledger C db' = (tsql_ledger C db)\<lparr>rows_of := rows_of (tsql_ledger C db) @ es\<rparr>) \<or>
     (tsql_ledger C db' = tsql_ledger C db \<and> (\<exists>e. q = Some e \<and> internal_error e)))"
proof (cases "insert_audit C io 0 es db")
  case (Inl e)
  with assms insert_audit_error [OF Inl] show ?thesis
    by (auto simp: tsql_append_def internal_error_def split: if_splits)
next
  case (Inr tx)
  have rt: "\<forall>t. tc_parse C (tc_format C t) = Some t" and fine: "rows_fine C db"
    using assms(1) by (simp_all add: tsql_ok_def)
  note tx = insert_audit_claims [OF Inr] insert_audit_rows [OF rt Inr fine]
  show ?thesis
  proof (cases "io = Some TBegin \<or> io = Some TCommit")
    case True
    with assms Inr show ?thesis by (auto simp: tsql_append_def internal_error_def)
  next
    case False
    with assms(2) Inr have "db' = tx" "q = None" by (auto simp: tsql_append_def)
    with assms(1) tx show ?thesis by (simp add: tsql_ok_def tsql_ledger_def)
  qed
qed

lemma tsql_insert_spec:
  assumes ok: "tsql_ok C db" and rev: "cl_revision c = 1" and ins: "tsql_insert C io c row db = (db', q)"
  shows "tsql_ok C db' \<and>
    ((q = None \<and> claims_of (tsql_ledger C db) (cl_subdomain c) = None \<and>
      tsql_ledger C db' =
        \<lparr>claims_of = (claims_of (tsql_ledger C db)) (cl_subdomain c \<mapsto> fresh_claim c),
         rows_of = rows_of (tsql_ledger C db) @ [row]\<rparr>) \<or>
     (tsql_ledger C db' = tsql_ledger C db \<and>
      (\<exists>e. q = Some e \<and> (internal_error e \<or> (\<exists>m. e = TConflict m)))))"
proof (cases "q = None")
  case False
  then have "db' = db \<and> (\<exists>e. q = Some e \<and> (internal_error e \<or> (\<exists>m. e = TConflict m)))"
    using ins insert_audit_error
    by (auto simp: tsql_insert_def Let_def internal_error_def split: if_splits sum.splits)
  with ok show ?thesis by auto
next
  case True
  let ?r = "\<lparr>crow_subdomain = cl_subdomain c, crow_token_hash = cl_token_hash c,
     crow_revision = cl_revision c, crow_revoked = 0,
     crow_created_at = tc_format C (cl_created_at c), crow_revoked_at = None\<rparr>"
  let ?tx = "db\<lparr>claims_table := claims_table db @ [?r]\<rparr>"
  from True ins have new: "\<forall>r \<in> set (claims_table db). crow_subdomain r \<noteq> cl_subdomain c \<and> crow_token_hash r \<noteq> cl_token_hash c"
    and tx: "insert_audit C io 0 [row] ?tx = Inr db'"
    by (auto simp: tsql_insert_def Let_def list_ex_iff split: if_splits sum.splits)
  have rt: "\<forall>t. tc_parse C (tc_format C t) = Some t" and fine: "rows_fine C ?tx"
    using ok by (simp_all add: tsql_ok_def rows_fine_def)
  note out = insert_audit_claims [OF tx] insert_audit_rows [OF rt tx fine]
  have "row_fine C ?r" using rt rev by (simp add: row_fine_def max_int64_def)
  with ok new out have "tsql_ok C db'" by (auto simp: tsql_ok_def)
  moreover have none: "find_claim (claims_table db) (cl_subdomain c) = None"
    using new by (auto simp: find_claim_None)
  moreover have "row_claim C ?r = fresh_claim c"
    using rt by (cases c) (simp add: row_claim_def fresh_claim_def)
  ultimately show ?thesis
    using True out by (auto simp: tsql_ledger_def find_claim_snoc fun_eq_iff split: option.split)
qed

lemma tsql_revoke_spec:
  assumes ok: "tsql_ok C db" and rev: "tsql_revoke C io sub x at es db = (db', r)"
  shows "tsql_ok C db' \<and>
    ((\<exists>c. claims_of (tsql_ledger C db) sub = Some c \<and> cl_revision c = x \<and> \<not> cl_revoked c \<and>
        r = Inr (revoked_claim at c) \<and>
        tsql_ledger C db' =
          \<lparr>claims_of = (claims_of (tsql_ledger C db)) (sub \<mapsto> revoked_claim at c),
           rows_of = rows_of (tsql_ledger C db) @ es\<rparr>) \<or>
     (tsql_ledger C db' = tsql_ledger C db \<and>
      (\<exists>e. r = Inl e \<and> (internal_error e \<or> (\<exists>m. e = TConflict m)))))"
proof -
  let ?hit = "\<lambda>r. crow_subdomain r = sub \<and> crow_revision r = x \<and> crow_revoked r = 0"
  let ?g = "\<lambda>r. if ?hit r then revoke_row C at r else r"
  let ?tx = "db\<lparr>claims_table := map ?g (claims_table db)\<rparr>"
  have rt: "\<forall>t. tc_parse C (tc_format C t) = Some t" and fine: "rows_fine C ?tx"
    and dist: "distinct (map crow_subdomain (claims_table db))"
    using ok by (simp_all add: tsql_ok_def rows_fine_def)
  have same [simp]: "crow_subdomain (?g r) = crow_subdomain r" "crow_token_hash (?g r) = crow_token_hash r" for r
    by (simp_all add: revoke_row_def)
  show ?thesis
  proof (cases "length (filter ?hit (claims_table db)) = 1")
    case False
    with rev ok show ?thesis by (auto simp: tsql_revoke_def Let_def internal_error_def split: if_splits)
  next
    case True
    then have "filter ?hit (claims_table db) \<noteq> []" by auto
    then obtain q where q: "q \<in> set (claims_table db)" "?hit q" by (auto simp: filter_empty_conv)
    have find: "find_claim (claims_table db) sub = Some q" using find_claim_in [OF dist q(1)] q(2) by simp
    have qf: "row_fine C q" by (rule tsql_ok_row [OF ok q(1)])
    show ?thesis
    proof (cases "insert_audit C io 0 es ?tx")
      case (Inl e)
      with rev ok True insert_audit_error [OF Inl] show ?thesis
        by (auto simp: tsql_revoke_def Let_def internal_error_def split: if_splits)
    next
      case (Inr tx2)
      note out = insert_audit_claims [OF Inr] insert_audit_rows [OF rt Inr fine]
      have find2: "find_claim (claims_table tx2) sub = Some (revoke_row C at q)"
        using find_claim_map [of ?g "claims_table db" sub] find q(2) out by simp
      show ?thesis
      proof (cases "io \<in> {Some TBegin, Some TUpdateClaim, Some TRowsAffected, Some TCommit, Some TSelectClaim}
          \<or> crow_revision (revoke_row C at q) > max_int64")
        case True
        obtain sc where sc: "scan_claim C io (find_claim (claims_table tx2) sub) = sc"
          and err: "\<forall>e. sc = Inl e \<longrightarrow> internal_error e"
          and bad: "io = Some TSelectClaim \<or> crow_revision (revoke_row C at q) > max_int64 \<longrightarrow>
            sc = Inl (TInternal ''scan claim'')"
          using scan_claim_error scan_claim_big find2 by metis
        from True have "db' = db \<and> (\<exists>e. r = Inl e \<and> internal_error e)"
          using rev [unfolded tsql_revoke_def Let_def Inr sum.case sc] err bad
            \<open>length (filter ?hit (claims_table db)) = 1\<close>
          by (cases sc) (auto split: if_splits)
        with ok show ?thesis by auto
      next
        case False
        then have fine2: "row_fine C (revoke_row C at q)"
          using qf rt by (auto simp: row_fine_def revoke_row_def)
        have claim: "row_claim C (revoke_row C at q) = revoked_claim at (row_claim C q)"
          using rt by (simp add: row_claim_def revoke_row_def revoked_claim_def)
        from False rev Inr find2 True scan_claim_row [OF fine2, of io]
        have "db' = tx2" "r = Inr (revoked_claim at (row_claim C q))"
          by (auto simp: tsql_revoke_def Let_def claim)
        moreover have "tsql_ok C tx2"
        proof -
          have tab: "claims_table tx2 = map ?g (claims_table db)" using out(1) by simp
          have "row_fine C (?g p)" if "p \<in> set (claims_table db)" for p
          proof (cases "?hit p")
            case True
            then have "p = q" using find_claim_in [OF dist that] find by simp
            with True fine2 show ?thesis by simp
          qed (use tsql_ok_row [OF ok that] in auto)
          then have "\<forall>r \<in> set (claims_table tx2). row_fine C r" unfolding tab set_map by blast
          moreover have "map crow_subdomain (claims_table tx2) = map crow_subdomain (claims_table db)"
            "map crow_token_hash (claims_table tx2) = map crow_token_hash (claims_table db)"
            unfolding tab map_map comp_def by (simp_all only: same)
          ultimately show ?thesis using ok out(2) by (simp add: tsql_ok_def)
        qed
        moreover have "claims_of (tsql_ledger C tx2) =
            (claims_of (tsql_ledger C db)) (sub \<mapsto> revoked_claim at (row_claim C q))"
        proof
          fix sub'
          have "?g p = p" if "find_claim (claims_table db) sub' = Some p" "sub' \<noteq> sub" for p
            using find_claim_Some [OF that(1)] that(2) by simp
          then show "claims_of (tsql_ledger C tx2) sub' =
            ((claims_of (tsql_ledger C db)) (sub \<mapsto> revoked_claim at (row_claim C q))) sub'"
            using find_claim_map [of ?g "claims_table db" sub'] find q(2) out claim
            by (cases "find_claim (claims_table db) sub'") (auto simp: tsql_ledger_def)
        qed
        ultimately show ?thesis using find q(2) out by (auto simp: tsql_ledger_def)
      qed
    qed
  qed
qed

lemma scan_claims_Inr:
  "scan_claims C io i rows acc = Inr cs \<Longrightarrow> \<forall>r \<in> set rows. row_fine C r \<Longrightarrow> cs = acc @ map (row_claim C) rows"
proof (induction rows arbitrary: i acc)
  case (Cons r rows)
  then have "scan_claims C io (Suc i) rows (acc @ [row_claim C r]) = Inr cs"
    using scan_claim_row [of C r None] by (auto split: if_splits)
  from Cons.IH [OF this] Cons.prems(2) show ?case by simp
qed (auto split: if_splits)

lemma tsql_list_Inr:
  assumes ok: "tsql_ok C db" and "tsql_list C io db = Inr cs"
  shows "cs = map (row_claim C) (sort_key crow_created_at (sort_key crow_subdomain (claims_table db)))"
proof -
  have "scan_claims C io 0 (sort_key crow_created_at (sort_key crow_subdomain (claims_table db))) [] = Inr cs"
    using assms(2) by (auto simp: tsql_list_def split: if_splits)
  from scan_claims_Inr [OF this] ok show ?thesis by (simp add: tsql_ok_def)
qed

lemma tsql_list_spec:
  assumes ok: "tsql_ok C db" and list: "tsql_list C io db = Inr cs"
  shows "distinct (map cl_subdomain cs) \<and> set cs = {c. claims_of (tsql_ledger C db) (cl_subdomain c) = Some c}"
proof
  have dist: "distinct (map crow_subdomain (claims_table db))" using ok by (simp add: tsql_ok_def)
  let ?rows = "sort_key crow_created_at (sort_key crow_subdomain (claims_table db))"
  have cs: "cs = map (row_claim C) ?rows" by (rule tsql_list_Inr [OF ok list])
  have "map cl_subdomain cs = map crow_subdomain ?rows" by (simp add: cs)
  moreover have "distinct (map crow_subdomain ?rows)"
    using dist by (metis distinct_map distinct_sort set_sort)
  ultimately show "distinct (map cl_subdomain cs)" by simp
  show "set cs = {c. claims_of (tsql_ledger C db) (cl_subdomain c) = Some c}"
  proof (intro set_eqI iffI)
    fix c
    assume "c \<in> set cs"
    with cs obtain r where "r \<in> set (claims_table db)" "c = row_claim C r" by auto
    with find_claim_in [OF dist this(1)] show "c \<in> {c. claims_of (tsql_ledger C db) (cl_subdomain c) = Some c}"
      by (simp add: tsql_ledger_def)
  next
    fix c
    assume "c \<in> {c. claims_of (tsql_ledger C db) (cl_subdomain c) = Some c}"
    then obtain r where "find_claim (claims_table db) (cl_subdomain c) = Some r" "c = row_claim C r"
      by (auto simp: tsql_ledger_def)
    with find_claim_Some show "c \<in> set cs" by (fastforce simp: cs)
  qed
qed

interpretation tsql: claim_store "tsql_ops C" "tsql_ledger C" "tsql_ok C" for C :: "('t::linorder) time_codec"
proof (unfold_locales, goal_cases)
  case 1
  then show ?case by (rule tsql_wf)
next
  case (2 s c io row s' q)
  then show ?case using tsql_insert_spec by (simp add: tsql_ops_def)
next
  case (3 s io sub r)
  then show ?case using tsql_by_subdomain_spec by (simp add: tsql_ops_def)
next
  case (4 s io h r)
  then show ?case using tsql_by_hash_spec by (simp add: tsql_ops_def)
next
  case (5 s io sub x at rows s' r)
  then show ?case using tsql_revoke_spec by (simp add: tsql_ops_def)
next
  case (6 s io rows s' q)
  then show ?case using tsql_append_spec by (simp add: tsql_ops_def)
next
  case (7 s io cs)
  then show ?case using tsql_list_spec by (simp add: tsql_ops_def)
qed

text \<open>
  C17: the claim store is atomic and its writes are conditional. Whatever driver call fails, an
  insertion, a revocation or an append either did exactly what the ledger's step says, with its
  audit rows, or left the ledger as it was and returned an error; an insertion takes only a free
  subdomain, and a revocation only an active claim at the expected revision, which it advances.
\<close>

theorem claim_store_atomic:
  assumes "tsql_ok C db" and "cl_revision c = 1"
  shows "(case tsql_insert C io c row db of (db', q) \<Rightarrow> tsql_ok C db' \<and>
      (q = None \<and> claims_of (tsql_ledger C db) (cl_subdomain c) = None \<and> tsql_ledger C db' =
         \<lparr>claims_of = (claims_of (tsql_ledger C db)) (cl_subdomain c \<mapsto> fresh_claim c),
          rows_of = rows_of (tsql_ledger C db) @ [row]\<rparr> \<or>
       tsql_ledger C db' = tsql_ledger C db \<and> (\<exists>e. q = Some e))) \<and>
    (case tsql_revoke C io sub x at rows db of (db', r) \<Rightarrow> tsql_ok C db' \<and>
      ((\<exists>d. claims_of (tsql_ledger C db) sub = Some d \<and> cl_revision d = x \<and> \<not> cl_revoked d \<and>
          r = Inr (revoked_claim at d) \<and> tsql_ledger C db' =
            \<lparr>claims_of = (claims_of (tsql_ledger C db)) (sub \<mapsto> revoked_claim at d),
             rows_of = rows_of (tsql_ledger C db) @ rows\<rparr>) \<or>
       tsql_ledger C db' = tsql_ledger C db \<and> (\<exists>e. r = Inl e))) \<and>
    (case tsql_append C io rows db of (db', q) \<Rightarrow> tsql_ok C db' \<and>
      (q = None \<and> tsql_ledger C db' = (tsql_ledger C db)\<lparr>rows_of := rows_of (tsql_ledger C db) @ rows\<rparr> \<or>
       tsql_ledger C db' = tsql_ledger C db \<and> (\<exists>e. q = Some e)))"
  using tsql_insert_spec [OF assms, of io row] tsql_revoke_spec [OF assms(1), of io sub x at rows]
    tsql_append_spec [OF assms(1), of io rows]
  by (cases "tsql_insert C io c row db"; cases "tsql_revoke C io sub x at rows db";
      cases "tsql_append C io rows db") auto

theorem claim_store_atomic_witness:
  "tsql_ledger \<lparr>tc_format = id, tc_parse = Some\<rparr>
     (fst (tsql_append \<lparr>tc_format = id, tc_parse = Some\<rparr> (Some TCommit) [] empty_tunnel_database))
   = tsql_ledger \<lparr>tc_format = id, tc_parse = Some\<rparr> empty_tunnel_database"
proof -
  let ?C = "\<lparr>tc_format = id, tc_parse = Some\<rparr> :: int time_codec"
  have ok: "tsql_ok ?C empty_tunnel_database"
    by (simp add: tsql_ok_def empty_tunnel_database_def rows_fine_def max_int64_def)
  obtain db' q where out: "tsql_append ?C (Some TCommit) [] empty_tunnel_database = (db', q)" by fastforce
  let ?c = "\<lparr>cl_subdomain = [], cl_token_hash = [], cl_revision = 1, cl_revoked = False,
    cl_created_at = 0, cl_revoked_at = 0\<rparr>"
  from claim_store_atomic [OF ok, where c = ?c and io = "Some TCommit" and rows = "[]"] out show ?thesis by auto
qed

end
