(* ===== verification/Tunnel_Service.thy ===== *)
theory Tunnel_Service
  imports Tunnel_Registry Tunnel_Store
begin

text \<open>
  The policy of the tunnel: \<^verbatim>\<open>Service\<close> of \<^verbatim>\<open>internal/tunnel/tunnels.go\<close>, over any store (a value
  of \<^verbatim>\<open>tunnel.Store\<close>, the record \<open>S\<close> of its operations) and the routing table. Every method but
  \<^verbatim>\<open>Claim\<close> holds the service mutex, and \<^verbatim>\<open>Claim\<close> touches only the store, once, so each is one
  atomic step; \<^verbatim>\<open>Attach\<close> takes any claim value, so an \<^verbatim>\<open>Authenticate\<close> may be arbitrarily stale by
  then. The clock's readings and the randomness are arguments; \<open>ts_closed\<close> collects the links
  the service has closed, with the reason. \<open>None\<close> is a panic.
\<close>

record ('l, 'st) tunnel_service =
  ts_generation :: "64 word"
  ts_superseded :: "(string, int) go_map"
  ts_store :: 'st
  ts_registry :: "'l registry"
  ts_actor :: string
  ts_closed :: "('l \<times> close_reason) list"

record connection =
  conn_subdomain :: string
  conn_generation :: "64 word"

definition supersede_cooldown :: int where
  "supersede_cooldown = 60 * 1000000000"

definition new_tunnel_service ::
  "'st \<Rightarrow> 'l registry \<Rightarrow> string \<Rightarrow> tunnel_error + ('l, 'st) tunnel_service" where
  "new_tunnel_service st r actor =
     (if blank actor then Inl (TInternal ''management actor is required'')
      else Inr \<lparr>ts_generation = 0, ts_superseded = [], ts_store = st, ts_registry = r,
        ts_actor = actor, ts_closed = []\<rparr>)"

definition audit_entries :: "audit_kind list \<Rightarrow> string \<Rightarrow> int \<Rightarrow> string \<Rightarrow> string \<Rightarrow> tunnel_audit list" where
  "audit_entries kinds sub at actor detail =
     map (\<lambda>kind. \<lparr>ta_at = at, ta_subdomain = sub, ta_kind = kind, ta_actor = actor, ta_detail = detail\<rparr>) kinds"

section \<open>Operations\<close>

definition claim_tunnel ::
  "('io, 'st) claim_ops \<Rightarrow> digest \<Rightarrow> 'io \<Rightarrow> string \<Rightarrow> int \<Rightarrow> string \<Rightarrow> ('l, 'st) tunnel_service \<Rightarrow>
   ('l, 'st) tunnel_service \<times> (tunnel_error + claim \<times> string)" where
  "claim_tunnel S sha256 io random now sub s =
     (case validate_subdomain sub of
        Some e \<Rightarrow> (s, Inl e)
      | None \<Rightarrow>
        (case new_token random of
           Inl e \<Rightarrow> (s, Inl e)
         | Inr token \<Rightarrow>
           let c = \<lparr>cl_subdomain = sub, cl_token_hash = hash_token sha256 token, cl_revision = 1,
                    cl_revoked = False, cl_created_at = now, cl_revoked_at = zero_time\<rparr>;
               entry = \<lparr>ta_at = now, ta_subdomain = sub, ta_kind = AuditClaimed, ta_actor = ts_actor s,
                        ta_detail = ''revision 1''\<rparr>
           in case insert_claim S io c entry (ts_store s) of
                (st, Some e) \<Rightarrow> (s\<lparr>ts_store := st\<rparr>, Inl e)
              | (st, None) \<Rightarrow> (s\<lparr>ts_store := st\<rparr>, Inr (c, token))))"

definition close_link ::
  "'l \<Rightarrow> close_reason \<Rightarrow> ('l, 'st) tunnel_service \<Rightarrow> ('l, 'st) tunnel_service" where
  "close_link link reason s = s\<lparr>ts_closed := ts_closed s @ [(link, reason)]\<rparr>"

definition revoke_tunnel ::
  "('io, 'st) claim_ops \<Rightarrow> 'io \<Rightarrow> 'io \<Rightarrow> int \<Rightarrow> string \<Rightarrow> int \<Rightarrow> ('l, 'st) tunnel_service \<Rightarrow>
   (('l, 'st) tunnel_service \<times> (tunnel_error + claim)) option" where
  "revoke_tunnel S io1 io2 now sub expected s =
     (case claim_by_subdomain S io1 sub (ts_store s) of
        Inl e \<Rightarrow> Some (s, Inl e)
      | Inr c \<Rightarrow>
        if cl_revision c \<noteq> expected then Some (s, Inl (TConflict ''expected revision''))
        else
          (case transition \<lparr>st_claim = claim_state_of c,
                            st_presence = registry_presence sub (ts_registry s)\<rparr> EventRevoke of
             None \<Rightarrow> None
           | Some out \<Rightarrow>
             (case out_err out of
                Some e \<Rightarrow> Some (s, Inl e)
              | None \<Rightarrow>
                (case revoke_claim S io2 sub expected now
                        (audit_entries (out_audit out) sub now (ts_actor s)
                          (''revision '' @ itoa (wrap64 (cl_revision c + 1)))) (ts_store s) of
                   (st, Inl e) \<Rightarrow> Some (s\<lparr>ts_store := st\<rparr>, Inl e)
                 | (st, Inr revoked) \<Rightarrow>
                   (let (r, link) = registry_evict sub (ts_registry s);
                        s1 = s\<lparr>ts_store := st, ts_registry := r\<rparr>
                    in case link of
                         None \<Rightarrow> Some (s1, Inr revoked)
                       | Some l \<Rightarrow>
                           Some (close_link l CloseRevoked
                             (s1\<lparr>ts_superseded := map_delete sub (ts_superseded s1)\<rparr>), Inr revoked))))))"

text \<open>\<^verbatim>\<open>takeoverAllowed\<close>, at the clock reading \<open>now\<close>.\<close>

definition takeover_allowed :: "int \<Rightarrow> string \<Rightarrow> ('l, 'st) tunnel_service \<Rightarrow> tunnel_error check" where
  "takeover_allowed now sub s =
     (if registry_presence sub (ts_registry s) \<noteq> PresenceLive then None
      else case map_get (ts_superseded s) sub of
        None \<Rightarrow> None
      | Some since \<Rightarrow>
          if now - since \<ge> supersede_cooldown then None
          else Some (TConflict ''another agent took over recently''))"

definition authenticate ::
  "('io, 'st) claim_ops \<Rightarrow> digest \<Rightarrow> 'io \<Rightarrow> int \<Rightarrow> string \<Rightarrow> ('l, 'st) tunnel_service \<Rightarrow>
   tunnel_error + claim" where
  "authenticate S sha256 io now token s =
     (case validate_token token of
        Some e \<Rightarrow> Inl e
      | None \<Rightarrow>
        (case claim_by_hash S io (hash_token sha256 token) (ts_store s) of
           Inl (TNotFound _) \<Rightarrow> Inl (TUnauthorized ''unknown agent token'')
         | Inl e \<Rightarrow> Inl e
         | Inr c \<Rightarrow>
           if cl_revoked c then Inl (TUnauthorized ''agent token was revoked'')
           else (case takeover_allowed now (cl_subdomain c) s of Some e \<Rightarrow> Inl e | None \<Rightarrow> Inr c)))"

definition word_text :: "64 word \<Rightarrow> string" where
  "word_text w = itoa (uint w)"

definition attach_link ::
  "('io, 'st) claim_ops \<Rightarrow> 'io \<Rightarrow> 'io \<Rightarrow> int \<Rightarrow> int \<Rightarrow> int \<Rightarrow> claim \<Rightarrow> 'l option \<Rightarrow>
   ('l, 'st) tunnel_service \<Rightarrow> (('l, 'st) tunnel_service \<times> (tunnel_error + connection)) option" where
  "attach_link S io1 io2 t0 t1 t2 c link s =
     (case link of None \<Rightarrow> Some (s, Inl (TInternal ''link is required''))
      | Some l \<Rightarrow>
        let sub = cl_subdomain c in
        (case claim_by_subdomain S io1 sub (ts_store s) of
           Inl e \<Rightarrow> Some (s, Inl e)
         | Inr current \<Rightarrow>
           if cl_token_hash current \<noteq> cl_token_hash c
           then Some (s, Inl (TUnauthorized ''claim was reissued''))
           else
             (case takeover_allowed t0 sub s of
                Some e \<Rightarrow> Some (s, Inl e)
              | None \<Rightarrow>
                (case transition \<lparr>st_claim = claim_state_of current,
                                  st_presence = registry_presence sub (ts_registry s)\<rparr> EventConnect of
                   None \<Rightarrow> None
                 | Some out \<Rightarrow>
                   (case out_err out of
                      Some e \<Rightarrow> Some (s, Inl e)
                    | None \<Rightarrow>
                      let generation = ts_generation s + 1 in
                      (case append_rows S io2
                              (audit_entries (out_audit out) sub t1 (agent_actor sub)
                                (''generation '' @ word_text generation)) (ts_store s) of
                         (st, Some e) \<Rightarrow> Some (s\<lparr>ts_store := st\<rparr>, Inl e)
                       | (st, None) \<Rightarrow>
                         let (r, previous) = registry_attach sub l generation (ts_registry s);
                             s1 = s\<lparr>ts_store := st, ts_generation := generation, ts_registry := r\<rparr>;
                             s2 = (case previous of
                                     None \<Rightarrow> s1
                                   | Some p \<Rightarrow> close_link p CloseSuperseded
                                       (s1\<lparr>ts_superseded := map_put sub t2 (ts_superseded s1)\<rparr>))
                         in Some (s2, Inr \<lparr>conn_subdomain = sub, conn_generation = generation\<rparr>)))))))"

definition lost_link ::
  "('io, 'st) claim_ops \<Rightarrow> 'io \<Rightarrow> int \<Rightarrow> connection \<Rightarrow> ('l, 'st) tunnel_service \<Rightarrow>
   (('l, 'st) tunnel_service \<times> tunnel_error option) option" where
  "lost_link S io now conn s =
     (let sub = conn_subdomain conn; generation = conn_generation conn in
      if \<not> registry_matches sub generation (ts_registry s) then Some (s, None)
      else
        (case transition \<lparr>st_claim = ClaimActive, st_presence = PresenceLive\<rparr> EventLinkLost of
           None \<Rightarrow> None
         | Some out \<Rightarrow>
           (case append_rows S io
                   (audit_entries (out_audit out) sub now (agent_actor sub)
                     (''generation '' @ word_text generation)) (ts_store s) of
              (st, Some e) \<Rightarrow> Some (s\<lparr>ts_store := st\<rparr>, Some e)
            | (st, None) \<Rightarrow>
                Some (s\<lparr>ts_store := st,
                        ts_registry := fst (registry_detach sub generation (ts_registry s)),
                        ts_superseded := map_delete sub (ts_superseded s)\<rparr>, None))))"

record tunnel_view =
  view_subdomain :: string
  view_revision :: int
  view_state :: claim_state
  view_presence :: presence
  view_created_at :: int
  view_revoked_at :: int

definition list_tunnels ::
  "('io, 'st) claim_ops \<Rightarrow> 'io \<Rightarrow> ('l, 'st) tunnel_service \<Rightarrow> tunnel_error + tunnel_view list" where
  "list_tunnels S io s =
     (case list_claims S io (ts_store s) of
        Inl e \<Rightarrow> Inl e
      | Inr cs \<Rightarrow>
        let live = registry_live (ts_registry s) in
        Inr (map (\<lambda>c. \<lparr>view_subdomain = cl_subdomain c, view_revision = cl_revision c,
               view_state = claim_state_of c,
               view_presence = (if cl_subdomain c \<in> set live then PresenceLive else PresenceAbsent),
               view_created_at = cl_created_at c, view_revoked_at = cl_revoked_at c\<rparr>) cs))"

section \<open>Runs\<close>

text \<open>
  Any method, called with any arguments, any clock and randomness, any database call failing; and
  the states a process reaches in \<open>n\<close> such steps from its start with an empty routing table.
\<close>

inductive tunnel_step ::
  "('io, 'st) claim_ops \<Rightarrow> digest \<Rightarrow> ('l, 'st) tunnel_service \<Rightarrow> ('l, 'st) tunnel_service \<Rightarrow> bool"
  for S sha256 where
  claim: "claim_tunnel S sha256 io random now sub s = (s', r) \<Longrightarrow> tunnel_step S sha256 s s'"
| revoke: "revoke_tunnel S io1 io2 now sub x s = Some (s', r) \<Longrightarrow> tunnel_step S sha256 s s'"
| attach: "attach_link S io1 io2 t0 t1 t2 c link s = Some (s', q) \<Longrightarrow> tunnel_step S sha256 s s'"
| lost: "lost_link S io now conn s = Some (s', e) \<Longrightarrow> tunnel_step S sha256 s s'"

inductive tunnel_reach ::
  "('io, 'st) claim_ops \<Rightarrow> digest \<Rightarrow> ('l, 'st) tunnel_service \<Rightarrow> nat \<Rightarrow> ('l, 'st) tunnel_service \<Rightarrow> bool"
  for S sha256 s0 where
  here: "tunnel_reach S sha256 s0 0 s0"
| further: "tunnel_reach S sha256 s0 n s \<Longrightarrow> tunnel_step S sha256 s s' \<Longrightarrow> tunnel_reach S sha256 s0 (Suc n) s'"

definition tunnel_start :: "'st \<Rightarrow> string \<Rightarrow> ('l, 'st) tunnel_service" where
  "tunnel_start st actor = \<lparr>ts_generation = 0, ts_superseded = [], ts_store = st, ts_registry = [],
     ts_actor = actor, ts_closed = []\<rparr>"

lemma new_tunnel_service_start:
  "new_tunnel_service st new_registry actor = Inr s \<Longrightarrow> s = tunnel_start st actor"
  by (auto simp: new_tunnel_service_def new_registry_def tunnel_start_def split: if_splits)

section \<open>What each operation does\<close>

context claim_store
begin

abbreviation L :: "('l, 'st) tunnel_service \<Rightarrow> claim_ledger" where
  "L s \<equiv> ledger (ts_store s)"

definition audited :: "audit_kind list \<Rightarrow> string \<Rightarrow> tunnel_audit list \<Rightarrow> bool" where
  "audited kinds sub rows \<longleftrightarrow> map ta_kind rows = kinds \<and> (\<forall>r \<in> set rows. ta_subdomain r = sub)"

text \<open>Nothing but the store's bytes changed, and its ledger did not.\<close>

definition unchanged :: "('l, 'st) tunnel_service \<Rightarrow> ('l, 'st) tunnel_service \<Rightarrow> bool" where
  "unchanged s s' \<longleftrightarrow> ok (ts_store s') \<and> L s' = L s \<and> (\<exists>st. s' = s\<lparr>ts_store := st\<rparr>)"

lemma unchanged_refl: "ok (ts_store s) \<Longrightarrow> unchanged s s"
  by (auto simp: unchanged_def intro: exI [of _ "ts_store s"])

lemma audited_entries [simp]: "audited kinds sub (audit_entries kinds sub at actor detail)"
  by (auto simp: audited_def audit_entries_def comp_def)

lemma claim_outcome:
  assumes "ok (ts_store s)" and "claim_tunnel S sha256 io random now sub s = (s', r)"
  shows "(unchanged s s' \<and> (\<exists>e. r = Inl e)) \<or>
    (\<exists>token c rows. r = Inr (c, token) \<and> new_token random = Inr token \<and> validate_subdomain sub = None \<and>
      ok (ts_store s') \<and> cl_subdomain c = sub \<and> cl_token_hash c = hash_token sha256 token \<and> \<not> cl_revoked c \<and>
      claims_of (L s) sub = None \<and> audited [AuditClaimed] sub rows \<and>
      s' = s\<lparr>ts_store := ts_store s'\<rparr> \<and>
      L s' = \<lparr>claims_of = (claims_of (L s)) (sub \<mapsto> c), rows_of = rows_of (L s) @ rows\<rparr>)"
proof (cases "validate_subdomain sub = None \<and> (\<exists>token. new_token random = Inr token)")
  case False
  with assms show ?thesis
    by (cases "new_token random") (auto simp: claim_tunnel_def intro!: unchanged_refl split: option.splits)
next
  case True
  then obtain token where tok: "validate_subdomain sub = None" "new_token random = Inr token" by blast
  let ?c = "\<lparr>cl_subdomain = sub, cl_token_hash = hash_token sha256 token, cl_revision = 1,
    cl_revoked = False, cl_created_at = now, cl_revoked_at = zero_time\<rparr>"
  let ?row = "\<lparr>ta_at = now, ta_subdomain = sub, ta_kind = AuditClaimed, ta_actor = ts_actor s,
    ta_detail = ''revision 1''\<rparr>"
  obtain st q where ins: "insert_claim S io ?c ?row (ts_store s) = (st, q)" by fastforce
  have fresh: "fresh_claim ?c = ?c" by (simp add: fresh_claim_def)
  from assms(2) tok ins have s': "s' = s\<lparr>ts_store := st\<rparr>"
    and r: "r = (case q of Some e \<Rightarrow> Inl e | None \<Rightarrow> Inr (?c, token))"
    by (auto simp: claim_tunnel_def split: option.splits)
  have "audited [AuditClaimed] sub [?row]" by (simp add: audited_def)
  then show ?thesis
    using insert_spec [OF assms(1) _ ins] fresh tok unfolding s' r
    by (auto simp: unchanged_def)
qed

lemma revoke_outcome:
  assumes "ok (ts_store s)"
    and "map_get (ts_registry s) sub \<noteq> None \<longrightarrow>
      (\<forall>c. claims_of (L s) sub = Some c \<longrightarrow> \<not> cl_revoked c)"
  shows "\<exists>s' r. revoke_tunnel S io1 io2 now sub x s = Some (s', r) \<and>
    ((unchanged s s' \<and> (\<exists>e. r = Inl e)) \<or>
     (\<exists>c rows kinds. claims_of (L s) sub = Some c \<and> cl_revision c = x \<and> \<not> cl_revoked c \<and>
       r = Inr (revoked_claim now c) \<and> ok (ts_store s') \<and>
       L s' = \<lparr>claims_of = (claims_of (L s)) (sub \<mapsto> revoked_claim now c), rows_of = rows_of (L s) @ rows\<rparr> \<and>
       audited kinds sub rows \<and>
       kinds = (if map_get (ts_registry s) sub = None then [AuditRevoked] else [AuditDisconnected, AuditRevoked]) \<and>
       (\<forall>sub'. map_get (ts_registry s') sub' = (if sub' = sub then None else map_get (ts_registry s) sub')) \<and>
       (\<forall>sub'. map_get (ts_superseded s') sub' =
          (if sub' = sub \<and> map_get (ts_registry s) sub \<noteq> None then None else map_get (ts_superseded s) sub')) \<and>
       ts_generation s' = ts_generation s \<and>
       ts_closed s' = ts_closed s @ (case map_get (ts_registry s) sub of None \<Rightarrow> []
         | Some a \<Rightarrow> [(att_link a, CloseRevoked)])))"
proof (cases "claim_by_subdomain S io1 sub (ts_store s)")
  case (Inl e)
  with assms(1) show ?thesis by (auto simp: revoke_tunnel_def intro: unchanged_refl)
next
  case (Inr c)
  then have c: "claims_of (L s) sub = Some c" using by_subdomain_spec [OF assms(1) Inr] by simp
  show ?thesis
  proof (cases "cl_revision c \<noteq> x \<or> cl_revoked c")
    case True
    with Inr c assms show ?thesis
      by (cases "map_get (ts_registry s) sub")
         (auto simp: revoke_tunnel_def claim_state_of_def transition_def revoked_transition_def
           refused_with_def registry_presence_def registry_lookup_def intro: unchanged_refl)
  next
    case False
    define kinds where "kinds = (if map_get (ts_registry s) sub = None then [AuditRevoked]
      else [AuditDisconnected, AuditRevoked])"
    have tr: "transition \<lparr>st_claim = claim_state_of c, st_presence = registry_presence sub (ts_registry s)\<rparr>
        EventRevoke = Some (accepted ClaimRevoked PresenceAbsent kinds)"
      using False by (auto simp: claim_state_of_def transition_def kinds_def registry_presence_def registry_lookup_def)
    define rows where "rows = audit_entries kinds sub now (ts_actor s)
      (''revision '' @ itoa (wrap64 (cl_revision c + 1)))"
    obtain st r where rv: "revoke_claim S io2 sub x now rows (ts_store s) = (st, r)" by fastforce
    have aud: "audited kinds sub rows" by (simp add: rows_def)
    show ?thesis
    proof (cases r)
      case (Inl e)
      with revoke_spec [OF assms(1) rv] Inr False tr rv show ?thesis
        by (auto simp: revoke_tunnel_def accepted_def rows_def unchanged_def)
    next
      case rInr: (Inr rc)
      with revoke_spec [OF assms(1) rv] c have "ok st" "rc = revoked_claim now c"
        "ledger st = \<lparr>claims_of = (claims_of (L s)) (sub \<mapsto> revoked_claim now c), rows_of = rows_of (L s) @ rows\<rparr>"
        by auto
      note store = this
      let ?s1 = "s\<lparr>ts_store := st, ts_registry := fst (registry_evict sub (ts_registry s))\<rparr>"
      let ?s2 = "case registry_lookup sub (ts_registry s) of None \<Rightarrow> ?s1 | Some l \<Rightarrow>
        close_link l CloseRevoked (?s1\<lparr>ts_superseded := map_delete sub (ts_superseded ?s1)\<rparr>)"
      have "revoke_tunnel S io1 io2 now sub x s = Some (?s2, Inr rc)"
        using Inr False tr rv rInr
        by (simp add: revoke_tunnel_def accepted_def rows_def Let_def split_beta split: option.split)
      moreover have "ts_store ?s2 = st" "ts_generation ?s2 = ts_generation s"
        "ts_registry ?s2 = fst (registry_evict sub (ts_registry s))"
        "ts_closed ?s2 = ts_closed s @ (case map_get (ts_registry s) sub of None \<Rightarrow> []
         | Some a \<Rightarrow> [(att_link a, CloseRevoked)])"
        "map_get (ts_superseded ?s2) sub' =
          (if sub' = sub \<and> map_get (ts_registry s) sub \<noteq> None then None else map_get (ts_superseded s) sub')"
        for sub'
        by (auto simp: close_link_def registry_lookup_def split: option.split)
      ultimately show ?thesis
        using store c False aud kinds_def by (intro exI [of _ ?s2] exI [of _ "Inr rc"]) auto
    qed
  qed
qed

lemma attach_outcome:
  assumes "ok (ts_store s)"
    and "map_get (ts_registry s) (cl_subdomain c) \<noteq> None \<longrightarrow>
      (\<forall>d. claims_of (L s) (cl_subdomain c) = Some d \<longrightarrow> \<not> cl_revoked d)"
  shows "\<exists>s' q. attach_link S io1 io2 t0 t1 t2 c link s = Some (s', q) \<and>
    ((unchanged s s' \<and> (\<exists>e. q = Inl e)) \<or>
     (\<exists>l d rows kinds. link = Some l \<and> claims_of (L s) (cl_subdomain c) = Some d \<and> \<not> cl_revoked d \<and>
       cl_token_hash d = cl_token_hash c \<and> takeover_allowed t0 (cl_subdomain c) s = None \<and>
       q = Inr \<lparr>conn_subdomain = cl_subdomain c, conn_generation = ts_generation s + 1\<rparr> \<and>
       ok (ts_store s') \<and> L s' = (L s)\<lparr>rows_of := rows_of (L s) @ rows\<rparr> \<and>
       audited kinds (cl_subdomain c) rows \<and>
       kinds = (if map_get (ts_registry s) (cl_subdomain c) = None then [AuditConnected]
         else [AuditSuperseded, AuditConnected]) \<and>
       ts_registry s' = map_put (cl_subdomain c) \<lparr>att_link = l, att_generation = ts_generation s + 1\<rparr> (ts_registry s) \<and>
       (\<forall>sub'. map_get (ts_superseded s') sub' =
          (if sub' = cl_subdomain c \<and> map_get (ts_registry s) (cl_subdomain c) \<noteq> None then Some t2
           else map_get (ts_superseded s) sub')) \<and>
       ts_generation s' = ts_generation s + 1 \<and>
       ts_closed s' = ts_closed s @ (case map_get (ts_registry s) (cl_subdomain c) of None \<Rightarrow> []
         | Some a \<Rightarrow> [(att_link a, CloseSuperseded)])))"
proof (cases "link = None \<or> (\<exists>e. claim_by_subdomain S io1 (cl_subdomain c) (ts_store s) = Inl e)")
  case True
  with assms(1) show ?thesis
    by (cases link) (auto simp: attach_link_def Let_def intro!: unchanged_refl)
next
  case False
  let ?sub = "cl_subdomain c"
  from False obtain l d where l: "link = Some l" and d: "claim_by_subdomain S io1 ?sub (ts_store s) = Inr d"
    by (metis option.exhaust sum.exhaust)
  have cd: "claims_of (L s) ?sub = Some d" using by_subdomain_spec [OF assms(1) d] by simp
  show ?thesis
  proof (cases "cl_token_hash d \<noteq> cl_token_hash c \<or> takeover_allowed t0 ?sub s \<noteq> None \<or> cl_revoked d")
    case True
    with l d cd assms show ?thesis
      by (cases "map_get (ts_registry s) ?sub")
         (auto simp: attach_link_def Let_def claim_state_of_def transition_def revoked_transition_def
           refused_with_def registry_presence_def registry_lookup_def intro!: unchanged_refl split: option.split)
  next
    case False
    define kinds where "kinds = (if map_get (ts_registry s) ?sub = None then [AuditConnected]
      else [AuditSuperseded, AuditConnected])"
    have tr: "transition \<lparr>st_claim = claim_state_of d, st_presence = registry_presence ?sub (ts_registry s)\<rparr>
        EventConnect = Some (accepted ClaimActive PresenceLive kinds)"
      using False by (auto simp: claim_state_of_def transition_def kinds_def registry_presence_def registry_lookup_def)
    define rows where "rows = audit_entries kinds ?sub t1 (agent_actor ?sub)
      (''generation '' @ word_text (ts_generation s + 1))"
    obtain st q where app: "append_rows S io2 rows (ts_store s) = (st, q)" by fastforce
    note store = append_spec [OF assms(1) app]
    have aud: "audited kinds ?sub rows" by (simp add: rows_def)
    show ?thesis
    proof (cases q)
      case (Some e)
      with store l d False tr app show ?thesis
        by (auto simp: attach_link_def Let_def accepted_def rows_def unchanged_def)
    next
      case None
      let ?s1 = "s\<lparr>ts_store := st, ts_generation := ts_generation s + 1,
        ts_registry := fst (registry_attach ?sub l (ts_generation s + 1) (ts_registry s))\<rparr>"
      let ?s2 = "case registry_lookup ?sub (ts_registry s) of None \<Rightarrow> ?s1 | Some p \<Rightarrow>
        close_link p CloseSuperseded (?s1\<lparr>ts_superseded := map_put ?sub t2 (ts_superseded ?s1)\<rparr>)"
      let ?q = "Inr \<lparr>conn_subdomain = ?sub, conn_generation = ts_generation s + 1\<rparr>"
      have run: "attach_link S io1 io2 t0 t1 t2 c link s = Some (?s2, ?q)"
        using l d False tr app None
        by (simp add: attach_link_def accepted_def rows_def Let_def split_beta split: option.split)
      have fields: "ts_store ?s2 = st" "ts_generation ?s2 = ts_generation s + 1"
        "ts_registry ?s2 = map_put ?sub \<lparr>att_link = l, att_generation = ts_generation s + 1\<rparr> (ts_registry s)"
        "ts_closed ?s2 = ts_closed s @ (case map_get (ts_registry s) ?sub of None \<Rightarrow> []
         | Some a \<Rightarrow> [(att_link a, CloseSuperseded)])"
        "\<forall>sub'. map_get (ts_superseded ?s2) sub' =
          (if sub' = ?sub \<and> map_get (ts_registry s) ?sub \<noteq> None then Some t2 else map_get (ts_superseded s) sub')"
        by (auto simp: close_link_def registry_lookup_def split: option.split)
      from run show ?thesis
        using store None cd False aud kinds_def fields l
        by (intro exI [of _ ?s2] exI [of _ ?q] conjI disjI2 exI [of _ l] exI [of _ d] exI [of _ rows] exI [of _ kinds])
           simp_all
    qed
  qed
qed

lemma lost_outcome:
  assumes "ok (ts_store s)"
  shows "\<exists>s' e. lost_link S io now conn s = Some (s', e) \<and>
    ((unchanged s s' \<and> (e = None \<longrightarrow> s' = s \<and> \<not> registry_matches (conn_subdomain conn) (conn_generation conn) (ts_registry s))) \<or>
     (\<exists>rows. e = None \<and> registry_matches (conn_subdomain conn) (conn_generation conn) (ts_registry s) \<and>
       ok (ts_store s') \<and> L s' = (L s)\<lparr>rows_of := rows_of (L s) @ rows\<rparr> \<and>
       audited [AuditDisconnected] (conn_subdomain conn) rows \<and>
       (\<forall>sub'. map_get (ts_registry s') sub' =
          (if sub' = conn_subdomain conn then None else map_get (ts_registry s) sub')) \<and>
       (\<forall>sub'. map_get (ts_superseded s') sub' =
          (if sub' = conn_subdomain conn then None else map_get (ts_superseded s) sub')) \<and>
       ts_generation s' = ts_generation s \<and> ts_closed s' = ts_closed s))"
proof (cases "registry_matches (conn_subdomain conn) (conn_generation conn) (ts_registry s)")
  case False
  with assms show ?thesis by (auto simp: lost_link_def Let_def intro: unchanged_refl)
next
  case True
  let ?sub = "conn_subdomain conn"
  define rows where "rows = audit_entries [AuditDisconnected] ?sub now (agent_actor ?sub)
    (''generation '' @ word_text (conn_generation conn))"
  obtain st q where app: "append_rows S io rows (ts_store s) = (st, q)" by fastforce
  note store = append_spec [OF assms(1) app]
  have aud: "audited [AuditDisconnected] ?sub rows" by (simp add: rows_def)
  show ?thesis
  proof (cases q)
    case (Some e)
    with store True app show ?thesis
      by (auto simp: lost_link_def Let_def transition_lost accepted_def rows_def unchanged_def)
  next
    case None
    let ?s2 = "s\<lparr>ts_store := st,
      ts_registry := fst (registry_detach ?sub (conn_generation conn) (ts_registry s)),
      ts_superseded := map_delete ?sub (ts_superseded s)\<rparr>"
    have "lost_link S io now conn s = Some (?s2, None)"
      using True app None by (simp add: lost_link_def Let_def transition_lost accepted_def rows_def)
    then show ?thesis
      using store None aud True
      by (intro exI [of _ ?s2] exI [of _ None] conjI disjI2 exI [of _ rows]) (simp_all add: registry_detach_get)
  qed
qed

section \<open>The invariant\<close>

definition status_of :: "('l, 'st) tunnel_service \<Rightarrow> string \<Rightarrow> status option" where
  "status_of s sub = (case claims_of (L s) sub of None \<Rightarrow> None
     | Some c \<Rightarrow> Some \<lparr>st_claim = claim_state_of c, st_presence = registry_presence sub (ts_registry s)\<rparr>)"

definition start_status :: "claim_ledger \<Rightarrow> string \<Rightarrow> status option" where
  "start_status L0 sub = (case claims_of L0 sub of None \<Rightarrow> None
     | Some c \<Rightarrow> Some \<lparr>st_claim = claim_state_of c, st_presence = PresenceAbsent\<rparr>)"

definition kinds_for :: "string \<Rightarrow> tunnel_audit list \<Rightarrow> audit_kind list" where
  "kinds_for sub rows = map ta_kind (filter (\<lambda>r. ta_subdomain r = sub) rows)"

definition live_active :: "('l, 'st) tunnel_service \<Rightarrow> bool" where
  "live_active s \<longleftrightarrow> (\<forall>sub. map_get (ts_registry s) sub \<noteq> None \<longrightarrow>
     (\<exists>c. claims_of (L s) sub = Some c \<and> \<not> cl_revoked c))"

definition superseded_live :: "('l, 'st) tunnel_service \<Rightarrow> bool" where
  "superseded_live s \<longleftrightarrow>
     (\<forall>sub. map_get (ts_superseded s) sub \<noteq> None \<longrightarrow> map_get (ts_registry s) sub \<noteq> None)"

definition audit_replays :: "claim_ledger \<Rightarrow> ('l, 'st) tunnel_service \<Rightarrow> bool" where
  "audit_replays L0 s \<longleftrightarrow>
     (\<exists>new. rows_of (L s) = rows_of L0 @ new \<and>
        (\<forall>sub. replay (start_status L0 sub) (kinds_for sub new) = Some (status_of s sub)))"

definition tunnel_inv :: "claim_ledger \<Rightarrow> ('l, 'st) tunnel_service \<Rightarrow> bool" where
  "tunnel_inv L0 s \<longleftrightarrow> ok (ts_store s) \<and> live_active s \<and> superseded_live s \<and> audit_replays L0 s"

lemma kinds_for_append [simp]: "kinds_for sub (xs @ ys) = kinds_for sub xs @ kinds_for sub ys"
  by (simp add: kinds_for_def)

lemma kinds_for_audited:
  "audited kinds sub rows \<Longrightarrow> kinds_for sub' rows = (if sub' = sub then kinds else [])"
  by (auto simp: audited_def kinds_for_def filter_empty_conv)

lemma replay_extends:
  assumes "audit_replays L0 s" and "rows_of (L s') = rows_of (L s) @ rows" and "audited kinds sub rows"
    and "replay (status_of s sub) kinds = Some (status_of s' sub)"
    and "\<forall>sub'. sub' \<noteq> sub \<longrightarrow> status_of s' sub' = status_of s sub'"
  shows "audit_replays L0 s'"
proof -
  obtain new where new: "rows_of (L s) = rows_of L0 @ new"
    "\<forall>sub. replay (start_status L0 sub) (kinds_for sub new) = Some (status_of s sub)"
    using assms(1) by (auto simp: audit_replays_def)
  have "replay (start_status L0 sub') (kinds_for sub' (new @ rows)) = Some (status_of s' sub')" for sub'
    using new(2) assms(4,5) by (auto simp: replay_append kinds_for_audited [OF assms(3)])
  with new(1) assms(2) show ?thesis by (auto simp: audit_replays_def)
qed

lemma tunnel_inv_unchanged:
  assumes "tunnel_inv L0 s" and "unchanged s s'"
  shows "tunnel_inv L0 s'"
proof -
  obtain st where s': "s' = s\<lparr>ts_store := st\<rparr>" and ok: "ok st" "ledger st = L s"
    using assms(2) by (auto simp: unchanged_def)
  then have "status_of s' = status_of s" by (simp add: status_of_def fun_eq_iff split: option.split)
  with assms(1) s' ok show ?thesis
    by (simp add: tunnel_inv_def live_active_def superseded_live_def audit_replays_def)
qed

lemma live_activeD: "live_active s \<Longrightarrow> map_get (ts_registry s) sub \<noteq> None \<longrightarrow>
    (\<forall>c. claims_of (L s) sub = Some c \<longrightarrow> \<not> cl_revoked c)"
  by (force simp: live_active_def)

lemma tunnel_start_inv: "ok st \<Longrightarrow> tunnel_inv (ledger st) (tunnel_start st actor)"
  by (auto simp: tunnel_inv_def tunnel_start_def live_active_def superseded_live_def audit_replays_def
      start_status_def status_of_def kinds_for_def registry_presence_def registry_lookup_def split: option.split)

lemma claim_inv:
  assumes inv: "tunnel_inv L0 s" and run: "claim_tunnel S sha256 io random now sub s = (s', r)"
  shows "tunnel_inv L0 s'"
proof -
  have ok: "ok (ts_store s)" and live: "live_active s" and sup: "superseded_live s" and aud: "audit_replays L0 s"
    using inv by (simp_all add: tunnel_inv_def)
  from claim_outcome [OF ok run] show ?thesis
  proof (elim disjE exE conjE)
    assume "unchanged s s'"
    then show ?thesis by (rule tunnel_inv_unchanged [OF inv])
  next
    fix token c rows
    assume c: "\<not> cl_revoked c" "claims_of (L s) sub = None" and rows: "audited [AuditClaimed] sub rows"
      and s': "s' = s\<lparr>ts_store := ts_store s'\<rparr>" and ok': "ok (ts_store s')"
      and L': "L s' = \<lparr>claims_of = (claims_of (L s)) (sub \<mapsto> c), rows_of = rows_of (L s) @ rows\<rparr>"
    have reg: "ts_registry s' = ts_registry s" "ts_superseded s' = ts_superseded s"
      by (subst s', simp)+
    have absent: "map_get (ts_registry s) sub = None" using live c(2) by (force simp: live_active_def)
    then have "status_of s sub = None" "status_of s' sub = Some \<lparr>st_claim = ClaimActive, st_presence = PresenceAbsent\<rparr>"
      using c by (simp_all add: status_of_def L' reg claim_state_of_def registry_presence_def registry_lookup_def)
    moreover have "status_of s' sub' = status_of s sub'" if "sub' \<noteq> sub" for sub'
      using that by (simp add: status_of_def L' reg split: option.split)
    ultimately have "audit_replays L0 s'" using L' by (intro replay_extends [OF aud _ rows]) simp_all
    moreover have "live_active s'" using live absent by (auto simp: live_active_def reg L')
    ultimately show ?thesis using ok' sup by (simp add: tunnel_inv_def superseded_live_def reg)
  qed
qed

lemma revoke_inv:
  assumes inv: "tunnel_inv L0 s" and run: "revoke_tunnel S io1 io2 now sub x s = Some (s', r)"
  shows "tunnel_inv L0 s'"
proof -
  have ok: "ok (ts_store s)" and live: "live_active s" and sup: "superseded_live s" and aud: "audit_replays L0 s"
    using inv by (simp_all add: tunnel_inv_def)
  from revoke_outcome [OF ok live_activeD [OF live], of io1 io2 now sub x] run show ?thesis
  proof (elim exE conjE disjE, goal_cases)
    case (1 s1 r1 e)
    then have "unchanged s s'" by simp
    then show ?case by (rule tunnel_inv_unchanged [OF inv])
  next
    case (2 s1 r1 c rows kinds)
    then have s1: "s1 = s'" by simp
    note H = 2 [unfolded s1]
    have "status_of s sub = Some \<lparr>st_claim = ClaimActive, st_presence = registry_presence sub (ts_registry s)\<rparr>"
      using H by (simp add: status_of_def claim_state_of_def)
    moreover have "status_of s' sub = Some \<lparr>st_claim = ClaimRevoked, st_presence = PresenceAbsent\<rparr>"
      using H by (simp add: status_of_def claim_state_of_def revoked_claim_def registry_presence_def registry_lookup_def)
    moreover have "replay (Some \<lparr>st_claim = ClaimActive, st_presence = registry_presence sub (ts_registry s)\<rparr>) kinds
        = Some (Some \<lparr>st_claim = ClaimRevoked, st_presence = PresenceAbsent\<rparr>)"
      using H by (simp add: registry_presence_def registry_lookup_def)
    moreover have "status_of s' sub' = status_of s sub'" if "sub' \<noteq> sub" for sub'
      using H that by (simp add: status_of_def registry_presence_def registry_lookup_def split: option.split)
    ultimately have "audit_replays L0 s'" using H by (intro replay_extends [OF aud, where kinds = kinds and sub = sub]) simp_all
    moreover have "live_active s'" using live H by (auto simp: live_active_def)
    moreover have "superseded_live s'" using sup H by (auto simp: superseded_live_def)
    ultimately show ?case using H by (simp add: tunnel_inv_def)
  qed
qed

lemma attach_inv:
  assumes inv: "tunnel_inv L0 s" and run: "attach_link S io1 io2 t0 t1 t2 c link s = Some (s', q)"
  shows "tunnel_inv L0 s'"
proof -
  have ok: "ok (ts_store s)" and live: "live_active s" and sup: "superseded_live s" and aud: "audit_replays L0 s"
    using inv by (simp_all add: tunnel_inv_def)
  from attach_outcome [OF ok live_activeD [OF live], of io1 io2 t0 t1 t2 c link] run show ?thesis
  proof (elim exE conjE disjE, goal_cases)
    case (1 s1 r1 e)
    then have "unchanged s s'" by simp
    then show ?case by (rule tunnel_inv_unchanged [OF inv])
  next
    case (2 s1 r1 l d rows kinds)
    then have s1: "s1 = s'" by simp
    note H = 2 [unfolded s1]
    let ?sub = "cl_subdomain c"
    have "status_of s ?sub = Some \<lparr>st_claim = ClaimActive, st_presence = registry_presence ?sub (ts_registry s)\<rparr>"
      using H by (simp add: status_of_def claim_state_of_def)
    moreover have "status_of s' ?sub = Some \<lparr>st_claim = ClaimActive, st_presence = PresenceLive\<rparr>"
      using H by (simp add: status_of_def claim_state_of_def registry_presence_def registry_lookup_def)
    moreover have "replay (Some \<lparr>st_claim = ClaimActive, st_presence = registry_presence ?sub (ts_registry s)\<rparr>) kinds
        = Some (Some \<lparr>st_claim = ClaimActive, st_presence = PresenceLive\<rparr>)"
      using H by (simp add: registry_presence_def registry_lookup_def)
    moreover have "status_of s' sub' = status_of s sub'" if "sub' \<noteq> ?sub" for sub'
      using H that by (simp add: status_of_def registry_presence_def registry_lookup_def split: option.split)
    ultimately have "audit_replays L0 s'" using H by (intro replay_extends [OF aud, where kinds = kinds and sub = "cl_subdomain c"]) simp_all
    moreover have "live_active s'" using live H by (auto simp: live_active_def)
    moreover have "superseded_live s'" using sup H by (auto simp: superseded_live_def)
    ultimately show ?case using H by (simp add: tunnel_inv_def)
  qed
qed

lemma lost_inv:
  assumes inv: "tunnel_inv L0 s" and run: "lost_link S io now conn s = Some (s', e)"
  shows "tunnel_inv L0 s'"
proof -
  have ok: "ok (ts_store s)" and live: "live_active s" and sup: "superseded_live s" and aud: "audit_replays L0 s"
    using inv by (simp_all add: tunnel_inv_def)
  from lost_outcome [OF ok, of io now conn] run show ?thesis
  proof (elim exE conjE disjE, goal_cases)
    case (1 s1 r1)
    then have "unchanged s s'" by simp
    then show ?case by (rule tunnel_inv_unchanged [OF inv])
  next
    case (2 s1 r1 rows)
    then have s1: "s1 = s'" by simp
    note H = 2 [unfolded s1]
    let ?sub = "conn_subdomain conn"
    have here: "map_get (ts_registry s) ?sub \<noteq> None"
      using H by (auto simp: registry_matches_def split: option.splits)
    then obtain c where c: "claims_of (L s) ?sub = Some c" "\<not> cl_revoked c"
      using live by (auto simp: live_active_def)
    have "status_of s ?sub = Some \<lparr>st_claim = ClaimActive, st_presence = PresenceLive\<rparr>"
      using c here by (auto simp: status_of_def claim_state_of_def registry_presence_def registry_lookup_def)
    moreover have "status_of s' ?sub = Some \<lparr>st_claim = ClaimActive, st_presence = PresenceAbsent\<rparr>"
      using H c by (simp add: status_of_def claim_state_of_def registry_presence_def registry_lookup_def)
    moreover have "status_of s' sub' = status_of s sub'" if "sub' \<noteq> ?sub" for sub'
      using H that by (simp add: status_of_def registry_presence_def registry_lookup_def split: option.split)
    ultimately have "audit_replays L0 s'" using H by (intro replay_extends [OF aud, where kinds = "[AuditDisconnected]" and sub = ?sub]) simp_all
    moreover have "live_active s'" using live H by (auto simp: live_active_def)
    moreover have "superseded_live s'" using sup H by (auto simp: superseded_live_def)
    ultimately show ?case using H by (simp add: tunnel_inv_def)
  qed
qed

lemma step_inv: "tunnel_step S sha256 s s' \<Longrightarrow> tunnel_inv L0 s \<Longrightarrow> tunnel_inv L0 s'"
  by (induction rule: tunnel_step.induct) (auto intro: claim_inv revoke_inv attach_inv lost_inv)

lemma reach_inv: "tunnel_reach S sha256 s0 n s \<Longrightarrow> tunnel_inv L0 s0 \<Longrightarrow> tunnel_inv L0 s"
  by (induction rule: tunnel_reach.induct) (auto intro: step_inv)

section \<open>Generations\<close>

definition generations :: "nat \<Rightarrow> ('l, 'st) tunnel_service \<Rightarrow> bool" where
  "generations n s \<longleftrightarrow> unat (ts_generation s) \<le> n \<and>
     (\<forall>sub a. map_get (ts_registry s) sub = Some a \<longrightarrow> att_generation a \<le> ts_generation s)"

text \<open>What one step can do to the attachment of a subdomain, to its cooldown and to its claim.\<close>

lemma step_attachment:
  assumes inv: "tunnel_inv L0 s" and step: "tunnel_step S sha256 s s'"
  shows "ts_generation s' = ts_generation s \<and>
      (\<forall>sub. map_get (ts_registry s') sub \<in> {None, map_get (ts_registry s) sub} \<and>
        (map_get (ts_registry s') sub \<noteq> None \<longrightarrow> map_get (ts_superseded s') sub = map_get (ts_superseded s) sub)) \<or>
    (\<exists>sub0 l. ts_generation s' = ts_generation s + 1 \<and>
      (\<exists>d. claims_of (L s) sub0 = Some d \<and> \<not> cl_revoked d) \<and>
      (\<forall>sub. map_get (ts_registry s') sub = (if sub = sub0 then
          Some \<lparr>att_link = l, att_generation = ts_generation s + 1\<rparr> else map_get (ts_registry s) sub) \<and>
        (sub \<noteq> sub0 \<longrightarrow> map_get (ts_superseded s') sub = map_get (ts_superseded s) sub)))"
proof -
  have ok: "ok (ts_store s)" and live: "live_active s" using inv by (simp_all add: tunnel_inv_def)
  have same: ?thesis if "unchanged s s'" using that by (auto simp: unchanged_def)
  from step show ?thesis
  proof cases
    case (claim io random now sub r)
    from claim_outcome [OF ok claim] show ?thesis
    proof (elim disjE exE conjE)
      fix token c rows
      assume s': "s' = s\<lparr>ts_store := ts_store s'\<rparr>"
      have "ts_generation s' = ts_generation s" "ts_registry s' = ts_registry s" "ts_superseded s' = ts_superseded s"
        by (subst s', simp)+
      then show ?thesis by simp
    qed (rule same)
  next
    case (revoke io1 io2 now sub x r)
    from revoke_outcome [OF ok live_activeD [OF live], of io1 io2 now sub x] revoke same show ?thesis
      by (elim exE conjE disjE) auto
  next
    case (attach io1 io2 t0 t1 t2 c link q)
    from attach_outcome [OF ok live_activeD [OF live], of io1 io2 t0 t1 t2 c link] attach same show ?thesis
    proof (elim exE conjE disjE, goal_cases)
      case (2 s1 r1 l d rows kinds)
      then have s1: "s1 = s'" by simp
      note H = 2 [unfolded s1]
      show ?case using H by (intro disjI2 exI [of _ "cl_subdomain c"] exI [of _ l]) auto
    qed auto
  next
    case (lost io now conn e)
    from lost_outcome [OF ok, of io now conn] lost same show ?thesis
      by (elim exE conjE disjE) auto
  qed
qed

lemma word_succ: "unat (w :: 64 word) < 2 ^ 64 - 1 \<Longrightarrow> unat (w + 1) = unat w + 1"
  by (simp add: unat_word_ariths)

lemma reach_generations:
  assumes "tunnel_reach S sha256 s0 n s" and "tunnel_inv L0 s0" and "generations 0 s0" and "n < 2 ^ 64"
  shows "generations n s"
  using assms
proof (induction rule: tunnel_reach.induct)
  case (further n s s')
  then have gen: "generations n s" and inv: "tunnel_inv L0 s" using reach_inv by auto
  then have small: "unat (ts_generation s) < 2 ^ 64 - 1" using further.prems(3) by (auto simp: generations_def)
  have succ: "unat (ts_generation s + 1) = unat (ts_generation s) + 1" by (rule word_succ [OF small])
  then have less: "ts_generation s \<le> ts_generation s + 1" by (simp add: word_le_nat_alt)
  from step_attachment [OF inv further.hyps(2)] show ?case
  proof (elim disjE exE conjE)
    assume "ts_generation s' = ts_generation s" and same: "\<forall>sub. map_get (ts_registry s') sub \<in> {None, map_get (ts_registry s) sub} \<and>
      (map_get (ts_registry s') sub \<noteq> None \<longrightarrow> map_get (ts_superseded s') sub = map_get (ts_superseded s) sub)"
    with gen show ?case by (fastforce simp: generations_def)
  next
    fix sub0 l d
    assume g: "ts_generation s' = ts_generation s + 1"
      and reg: "\<forall>sub. map_get (ts_registry s') sub = (if sub = sub0 then
          Some \<lparr>att_link = l, att_generation = ts_generation s + 1\<rparr> else map_get (ts_registry s) sub) \<and>
        (sub \<noteq> sub0 \<longrightarrow> map_get (ts_superseded s') sub = map_get (ts_superseded s) sub)"
    show ?case
      unfolding generations_def g
    proof (intro conjI allI impI)
      show "unat (ts_generation s + 1) \<le> Suc n" using gen succ by (simp add: generations_def)
      fix sub a
      assume "map_get (ts_registry s') sub = Some a"
      then have "a = \<lparr>att_link = l, att_generation = ts_generation s + 1\<rparr> \<or> map_get (ts_registry s) sub = Some a"
        using reg by (cases "sub = sub0") auto
      then show "att_generation a \<le> ts_generation s + 1"
        using gen less by (auto simp: generations_def intro: order_trans)
    qed
  qed
qed simp

lemma reach_mono:
  assumes "tunnel_reach S sha256 s1 k s2" and "tunnel_inv L0 s1" and "unat (ts_generation s1) + k < 2 ^ 64"
  shows "ts_generation s1 \<le> ts_generation s2 \<and> unat (ts_generation s2) \<le> unat (ts_generation s1) + k"
  using assms
proof (induction rule: tunnel_reach.induct)
  case (further n s s')
  have inv: "tunnel_inv L0 s" using reach_inv [OF further.hyps(1) further.prems(1)] .
  have IH: "ts_generation s1 \<le> ts_generation s" "unat (ts_generation s) \<le> unat (ts_generation s1) + n"
    using further by auto
  have "unat (ts_generation s + 1) = unat (ts_generation s) + 1"
    using IH(2) further.prems(2) by (intro word_succ) simp
  with step_attachment [OF inv further.hyps(2)] IH show ?case
    by (elim disjE exE conjE) (auto simp: word_le_nat_alt)
qed simp

lemma reach_newer:
  assumes "tunnel_reach S sha256 s1 k s2" and "tunnel_inv L0 s1" and "unat (ts_generation s1) + k < 2 ^ 64"
    and "g \<le> ts_generation s1" and "\<forall>a. map_get (ts_registry s1) sub = Some a \<longrightarrow> g \<le> att_generation a"
  shows "\<forall>a. map_get (ts_registry s2) sub = Some a \<longrightarrow> g \<le> att_generation a"
  using assms
proof (induction rule: tunnel_reach.induct)
  case (further n s s')
  have inv: "tunnel_inv L0 s" using reach_inv [OF further.hyps(1) further.prems(1)] .
  have IH: "\<forall>a. map_get (ts_registry s) sub = Some a \<longrightarrow> g \<le> att_generation a"
    using further by auto
  have "g \<le> ts_generation s \<and> unat (ts_generation s) \<le> unat (ts_generation s1) + n"
    using reach_mono [OF further.hyps(1) further.prems(1)] further.prems(2,3) by auto
  then have up: "g \<le> ts_generation s + 1"
    using further.prems(2) word_succ [of "ts_generation s"] by (auto simp: word_le_nat_alt)
  from step_attachment [OF inv further.hyps(2)] show ?case
  proof (elim disjE exE conjE)
    assume "\<forall>sub. map_get (ts_registry s') sub \<in> {None, map_get (ts_registry s) sub} \<and>
      (map_get (ts_registry s') sub \<noteq> None \<longrightarrow> map_get (ts_superseded s') sub = map_get (ts_superseded s) sub)"
    then have "map_get (ts_registry s') sub \<in> {None, map_get (ts_registry s) sub}" by blast
    with IH show ?case by auto
  next
    fix sub0 l d
    assume reg: "\<forall>sub. map_get (ts_registry s') sub = (if sub = sub0 then
          Some \<lparr>att_link = l, att_generation = ts_generation s + 1\<rparr> else map_get (ts_registry s) sub) \<and>
        (sub \<noteq> sub0 \<longrightarrow> map_get (ts_superseded s') sub = map_get (ts_superseded s) sub)"
    then show ?case using IH up by (cases "sub = sub0") auto
  qed
qed simp

lemma reach_cooldown:
  assumes "tunnel_reach S sha256 s1 k s2" and "tunnel_inv L0 s1" and "unat (ts_generation s1) + k < 2 ^ 64"
    and "g \<le> ts_generation s1"
    and "\<forall>a. map_get (ts_registry s1) sub = Some a \<and> att_generation a = g \<longrightarrow> map_get (ts_superseded s1) sub = Some t"
  shows "\<forall>a. map_get (ts_registry s2) sub = Some a \<and> att_generation a = g \<longrightarrow> map_get (ts_superseded s2) sub = Some t"
  using assms
proof (induction rule: tunnel_reach.induct)
  case (further n s s')
  have inv: "tunnel_inv L0 s" using reach_inv [OF further.hyps(1) further.prems(1)] .
  have IH: "\<forall>a. map_get (ts_registry s) sub = Some a \<and> att_generation a = g \<longrightarrow> map_get (ts_superseded s) sub = Some t"
    using further by auto
  have "g \<le> ts_generation s \<and> unat (ts_generation s) \<le> unat (ts_generation s1) + n"
    using reach_mono [OF further.hyps(1) further.prems(1)] further.prems(2,3) by auto
  then have "g \<noteq> ts_generation s + 1"
    using further.prems(2) word_succ [of "ts_generation s"] by (auto simp: word_le_nat_alt)
  note fresh = this
  from step_attachment [OF inv further.hyps(2)] show ?case
  proof (elim disjE exE conjE)
    assume "\<forall>sub. map_get (ts_registry s') sub \<in> {None, map_get (ts_registry s) sub} \<and>
      (map_get (ts_registry s') sub \<noteq> None \<longrightarrow> map_get (ts_superseded s') sub = map_get (ts_superseded s) sub)"
    then have "map_get (ts_registry s') sub \<in> {None, map_get (ts_registry s) sub}"
      "map_get (ts_registry s') sub \<noteq> None \<longrightarrow> map_get (ts_superseded s') sub = map_get (ts_superseded s) sub"
      by blast+
    with IH show ?case by auto
  next
    fix sub0 l d
    assume "\<forall>sub. map_get (ts_registry s') sub = (if sub = sub0 then
          Some \<lparr>att_link = l, att_generation = ts_generation s + 1\<rparr> else map_get (ts_registry s) sub) \<and>
        (sub \<noteq> sub0 \<longrightarrow> map_get (ts_superseded s') sub = map_get (ts_superseded s) sub)"
    then show ?case using IH fresh by (cases "sub = sub0") auto
  qed
qed simp

section \<open>Claims over time\<close>

lemma step_claims:
  assumes inv: "tunnel_inv L0 s" and step: "tunnel_step S sha256 s s'"
  shows "claims_of (L s') sub = claims_of (L s) sub \<or> claims_of (L s) sub = None \<or>
    (\<exists>c now. claims_of (L s) sub = Some c \<and> \<not> cl_revoked c \<and> claims_of (L s') sub = Some (revoked_claim now c))"
proof -
  have ok: "ok (ts_store s)" and live: "live_active s" using inv by (simp_all add: tunnel_inv_def)
  from step show ?thesis
  proof cases
    case (claim io random now sub1 r)
    from claim_outcome [OF ok claim] show ?thesis
      by (cases "sub = sub1") (auto simp: unchanged_def)
  next
    case (revoke io1 io2 now sub1 x r)
    from revoke_outcome [OF ok live_activeD [OF live], of io1 io2 now sub1 x] revoke show ?thesis
      by (cases "sub = sub1") (auto simp: unchanged_def)
  next
    case (attach io1 io2 t0 t1 t2 c link q)
    from attach_outcome [OF ok live_activeD [OF live], of io1 io2 t0 t1 t2 c link] attach show ?thesis
      by (auto simp: unchanged_def)
  next
    case (lost io now conn e)
    from lost_outcome [OF ok, of io now conn] lost show ?thesis by (auto simp: unchanged_def)
  qed
qed

definition claim_kept :: "claim \<Rightarrow> claim \<Rightarrow> bool" where
  "claim_kept c d \<longleftrightarrow> cl_subdomain d = cl_subdomain c \<and> cl_token_hash d = cl_token_hash c \<and>
     (cl_revoked c \<longrightarrow> d = c)"

lemma reach_claim:
  assumes "tunnel_reach S sha256 s1 k s2" and "tunnel_inv L0 s1" and "claims_of (L s1) sub = Some c"
  shows "\<exists>d. claims_of (L s2) sub = Some d \<and> claim_kept c d"
  using assms
proof (induction rule: tunnel_reach.induct)
  case (further n s s')
  then obtain d where d: "claims_of (L s) sub = Some d" "claim_kept c d" by auto
  have "tunnel_inv L0 s" using reach_inv further by blast
  from step_claims [OF this further.hyps(2), of sub] d show ?case
    by (auto simp: claim_kept_def revoked_claim_def)
qed (simp add: claim_kept_def)

lemma authenticate_Inr:
  assumes "ok (ts_store s)" and "authenticate S sha256 io now token s = Inr c"
  shows "claims_of (L s) (cl_subdomain c) = Some c \<and> \<not> cl_revoked c \<and>
    cl_token_hash c = hash_token sha256 token \<and> takeover_allowed now (cl_subdomain c) s = None"
proof -
  obtain q where q: "claim_by_hash S io (hash_token sha256 token) (ts_store s) = q" by blast
  from assms(2) q have "q = Inr c" "\<not> cl_revoked c" "takeover_allowed now (cl_subdomain c) s = None"
    by (auto simp: authenticate_def split: option.splits sum.splits tunnel_error.splits if_splits)
  with by_hash_spec [OF assms(1) q] show ?thesis by simp
qed

end

end
