(* ===== verification/Tunnel_Policy.thy ===== *)
theory Tunnel_Policy
  imports Tunnel_Service
begin

text \<open>
  What the tunnel service guarantees over the SQLite store, in every state that any sequence of
  its operations reaches: the properties of the composition \<^verbatim>\<open>cmd/reaper-tunnel\<close> builds. \<open>L\<close>
  below is the ledger the database shows.
\<close>

abbreviation tledger ::
  "('t::linorder) time_codec \<Rightarrow> ('l, 't tunnel_database) tunnel_service \<Rightarrow> claim_ledger" where
  "tledger C s \<equiv> tsql_ledger C (ts_store s)"

definition status_at :: "claim_ledger \<Rightarrow> 'l registry \<Rightarrow> string \<Rightarrow> status option" where
  "status_at L r sub = (case claims_of L sub of None \<Rightarrow> None
     | Some c \<Rightarrow> Some \<lparr>st_claim = claim_state_of c, st_presence = registry_presence sub r\<rparr>)"

text \<open>When a process starts no link is attached.\<close>

definition boot_status :: "claim_ledger \<Rightarrow> string \<Rightarrow> status option" where
  "boot_status L sub = map_option
     (\<lambda>c. \<lparr>st_claim = claim_state_of c, st_presence = PresenceAbsent\<rparr>) (claims_of L sub)"

definition audit_kinds :: "string \<Rightarrow> tunnel_audit list \<Rightarrow> audit_kind list" where
  "audit_kinds sub rows = map ta_kind (filter (\<lambda>r. ta_subdomain r = sub) rows)"

lemma status_at_start: "tsql.start_status L0 sub = boot_status L0 sub"
  by (simp add: tsql.start_status_def boot_status_def split: option.split)

lemma status_at_now: "tsql.status_of C s sub = status_at (tledger C s) (ts_registry s) sub"
  by (simp add: tsql.status_of_def status_at_def)

lemma audit_kinds_for: "tsql.kinds_for sub rows = audit_kinds sub rows"
  by (simp add: tsql.kinds_for_def audit_kinds_def)

lemma reach_tunnel_inv:
  "tsql_ok C db \<Longrightarrow> tunnel_reach (tsql_ops C) sha256 (tunnel_start db actor) n s \<Longrightarrow>
     tsql.tunnel_inv C (tsql_ledger C db) s"
  using tsql.reach_inv tsql.tunnel_start_inv by blast

lemma reach_tunnel_generations:
  assumes "tsql_ok C db" and "tunnel_reach (tsql_ops C) sha256 (tunnel_start db actor) n s" and "n < 2 ^ 64"
  shows "unat (ts_generation s) \<le> n"
  using tsql.reach_generations [OF assms(2) tsql.tunnel_start_inv [OF assms(1)] _ assms(3)]
  by (simp add: tsql.generations_def tunnel_start_def)

section \<open>A sample run\<close>

definition plain_times :: "int time_codec" where
  "plain_times = \<lparr>tc_format = id, tc_parse = Some\<rparr>"

definition length_digest :: digest where
  "length_digest s = [of_nat (length s)]"

definition drawn :: string where
  "drawn = replicate 32 CHR ''x''"

type_synonym sample_service = "(nat, int tunnel_database) tunnel_service"

definition run0 :: sample_service where
  "run0 = tunnel_start empty_tunnel_database ''ops''"

definition run1 :: sample_service where
  "run1 = \<lparr>ts_generation = 0, ts_superseded = [],
     ts_store = \<lparr>claims_table =
         [\<lparr>crow_subdomain = ''acme'', crow_token_hash = ''2f'', crow_revision = 1, crow_revoked = 0, crow_created_at = 5, crow_revoked_at = None\<rparr>],
       rows_table =
         [\<lparr>trow_sequence = 1, trow_at = 5, trow_subdomain = ''acme'', trow_kind = AuditClaimed, trow_actor = ''ops'', trow_detail = ''revision 1''\<rparr>],
       rows_autoincrement = 1\<rparr>,
     ts_registry = [], ts_actor = ''ops'', ts_closed = []\<rparr>"

definition sample_claim :: claim where
  "sample_claim = \<lparr>cl_subdomain = ''acme'', cl_token_hash = ''2f'', cl_revision = 1, cl_revoked = False,
     cl_created_at = 5, cl_revoked_at = zero_time\<rparr>"

definition sample_attach :: "nat \<Rightarrow> int \<Rightarrow> sample_service \<Rightarrow> (sample_service \<times> (tunnel_error + connection)) option" where
  "sample_attach l t s = attach_link (tsql_ops plain_times) None None t t t sample_claim (Some l) s"

definition run2 :: sample_service where
  "run2 = \<lparr>ts_generation = 1, ts_superseded = [],
     ts_store = \<lparr>claims_table =
         [\<lparr>crow_subdomain = ''acme'', crow_token_hash = ''2f'', crow_revision = 1, crow_revoked = 0, crow_created_at = 5, crow_revoked_at = None\<rparr>],
       rows_table =
         [\<lparr>trow_sequence = 1, trow_at = 5, trow_subdomain = ''acme'', trow_kind = AuditClaimed, trow_actor = ''ops'', trow_detail = ''revision 1''\<rparr>,
          \<lparr>trow_sequence = 2, trow_at = 10, trow_subdomain = ''acme'', trow_kind = AuditConnected, trow_actor = ''agent:acme'', trow_detail = ''generation 1''\<rparr>],
       rows_autoincrement = 2\<rparr>,
     ts_registry = [(''acme'', \<lparr>att_link = 1, att_generation = 1\<rparr>)], ts_actor = ''ops'', ts_closed = []\<rparr>"

definition run3 :: sample_service where
  "run3 = \<lparr>ts_generation = 2, ts_superseded = [(''acme'', 20)],
     ts_store = \<lparr>claims_table =
         [\<lparr>crow_subdomain = ''acme'', crow_token_hash = ''2f'', crow_revision = 1, crow_revoked = 0, crow_created_at = 5, crow_revoked_at = None\<rparr>],
       rows_table =
         [\<lparr>trow_sequence = 1, trow_at = 5, trow_subdomain = ''acme'', trow_kind = AuditClaimed, trow_actor = ''ops'', trow_detail = ''revision 1''\<rparr>,
          \<lparr>trow_sequence = 2, trow_at = 10, trow_subdomain = ''acme'', trow_kind = AuditConnected, trow_actor = ''agent:acme'', trow_detail = ''generation 1''\<rparr>,
          \<lparr>trow_sequence = 3, trow_at = 20, trow_subdomain = ''acme'', trow_kind = AuditSuperseded, trow_actor = ''agent:acme'', trow_detail = ''generation 2''\<rparr>,
          \<lparr>trow_sequence = 4, trow_at = 20, trow_subdomain = ''acme'', trow_kind = AuditConnected, trow_actor = ''agent:acme'', trow_detail = ''generation 2''\<rparr>],
       rows_autoincrement = 4\<rparr>,
     ts_registry = [(''acme'', \<lparr>att_link = 2, att_generation = 2\<rparr>)], ts_actor = ''ops'', ts_closed = [(1, CloseSuperseded)]\<rparr>"

lemma tsql_empty_ok: "tsql_ok plain_times empty_tunnel_database"
  by (simp add: tsql_ok_def plain_times_def empty_tunnel_database_def rows_fine_def max_int64_def)

lemma drawn_token: "new_token drawn = Inr (token_prefix @ b64_encode drawn)"
  by (simp add: new_token_def drawn_def token_bytes_def)

lemma drawn_hash: "hash_token length_digest (token_prefix @ b64_encode drawn) = ''2f''"
  by code_simp

lemma claim1: "claim_tunnel (tsql_ops plain_times) length_digest None drawn 5 ''acme'' run0
    = (run1, Inr (sample_claim, token_prefix @ b64_encode drawn))"
proof -
  have "validate_subdomain ''acme'' = None" by code_simp
  moreover have "insert_claim (tsql_ops plain_times) None sample_claim
      \<lparr>ta_at = 5, ta_subdomain = ''acme'', ta_kind = AuditClaimed, ta_actor = ''ops'', ta_detail = ''revision 1''\<rparr>
      (ts_store run0) = (ts_store run1, None)" by code_simp
  ultimately show ?thesis
    by (simp add: claim_tunnel_def drawn_token drawn_hash sample_claim_def Let_def)
       (simp add: run0_def run1_def tunnel_start_def)
qed

lemma attach2: "sample_attach 1 10 run1 = Some (run2, Inr \<lparr>conn_subdomain = ''acme'', conn_generation = 1\<rparr>)"
  by code_simp

lemma attach3: "sample_attach 2 20 run2 = Some (run3, Inr \<lparr>conn_subdomain = ''acme'', conn_generation = 2\<rparr>)"
  by code_simp

lemma reach0: "tunnel_reach (tsql_ops plain_times) length_digest (tunnel_start empty_tunnel_database ''ops'') 0 run0"
  unfolding run0_def by (rule tunnel_reach.here)

lemma reach1: "tunnel_reach (tsql_ops plain_times) length_digest (tunnel_start empty_tunnel_database ''ops'') 1 run1"
  using tunnel_reach.further [OF reach0 tunnel_step.claim [OF claim1]] by simp

lemma reach2: "tunnel_reach (tsql_ops plain_times) length_digest (tunnel_start empty_tunnel_database ''ops'') 2 run2"
  using tunnel_reach.further [OF reach1 tunnel_step.attach [OF attach2 [unfolded sample_attach_def]]]
  by (simp add: numeral_2_eq_2)

lemma reach3: "tunnel_reach (tsql_ops plain_times) length_digest (tunnel_start empty_tunnel_database ''ops'') 3 run3"
  using tunnel_reach.further [OF reach2 tunnel_step.attach [OF attach3 [unfolded sample_attach_def]]]
  by (simp add: numeral_3_eq_3 numeral_2_eq_2)

section \<open>The routing table and the claims\<close>

text \<open>
  C18: the lifecycle table's panics are unreachable. In every reachable state no operation panics,
  whatever its arguments and whichever database calls fail, because a subdomain with a live link
  always has an active claim.
\<close>

theorem tunnel_never_panics:
  assumes "tsql_ok C db" and "tunnel_reach (tsql_ops C) sha256 (tunnel_start db actor) n s"
  shows "revoke_tunnel (tsql_ops C) io1 io2 now sub x s \<noteq> None \<and>
    attach_link (tsql_ops C) io1 io2 t0 t1 t2 c link s \<noteq> None \<and>
    lost_link (tsql_ops C) io1 now conn s \<noteq> None \<and>
    (\<forall>sub. map_get (ts_registry s) sub \<noteq> None \<longrightarrow>
       (\<exists>d. claims_of (tledger C s) sub = Some d \<and> \<not> cl_revoked d))"
proof -
  have inv: "tsql_ok C (ts_store s)" "tsql.live_active C s"
    using reach_tunnel_inv [OF assms] by (simp_all add: tsql.tunnel_inv_def)
  show ?thesis
    using tsql.revoke_outcome [OF inv(1) tsql.live_activeD [OF inv(2)], of io1 io2 now sub x]
      tsql.attach_outcome [OF inv(1) tsql.live_activeD [OF inv(2)], of io1 io2 t0 t1 t2 c link]
      tsql.lost_outcome [OF inv(1), of io1 now conn] inv(2)
    by (auto simp: tsql.live_active_def)
qed

theorem tunnel_never_panics_witness:
  "revoke_tunnel (tsql_ops plain_times) None None 30 ''acme'' 1 run3 \<noteq> None"
  using tunnel_never_panics [OF tsql_empty_ok reach3] by blast

text \<open>
  C19: the audit tells the whole truth. In every reachable state the rows this process appended,
  read in order for each subdomain from the state the process started in (no link attached), are
  a legal history that ends in exactly the subdomain's present claim state and presence; so no
  transition is unrecorded, recorded twice or recorded without having happened.
\<close>

theorem tunnel_audit_truthful:
  assumes "tsql_ok C db" and "tunnel_reach (tsql_ops C) sha256 (tunnel_start db actor) n s"
  shows "\<exists>new. rows_of (tledger C s) = rows_of (tsql_ledger C db) @ new \<and>
    (\<forall>sub. replay (boot_status (tsql_ledger C db) sub) (audit_kinds sub new)
       = Some (status_at (tledger C s) (ts_registry s) sub))"
  using reach_tunnel_inv [OF assms]
  by (auto simp: tsql.tunnel_inv_def tsql.audit_replays_def status_at_start status_at_now audit_kinds_for)

theorem tunnel_audit_truthful_witness:
  "audit_kinds ''acme'' (rows_of (tledger plain_times run3))
      = [AuditClaimed, AuditConnected, AuditSuperseded, AuditConnected] \<and>
   replay None (audit_kinds ''acme'' (rows_of (tledger plain_times run3)))
      = Some (Some \<lparr>st_claim = ClaimActive, st_presence = PresenceLive\<rparr>)"
proof
  have start: "boot_status (tsql_ledger plain_times empty_tunnel_database) ''acme'' = None"
    "rows_of (tsql_ledger plain_times empty_tunnel_database) = []"
    "status_at (tledger plain_times run3) (ts_registry run3) ''acme''
      = Some \<lparr>st_claim = ClaimActive, st_presence = PresenceLive\<rparr>"
    by code_simp+
  with tunnel_audit_truthful [OF tsql_empty_ok reach3]
  show "replay None (audit_kinds ''acme'' (rows_of (tledger plain_times run3)))
      = Some (Some \<lparr>st_claim = ClaimActive, st_presence = PresenceLive\<rparr>)"
    by (auto dest: spec [of _ "''acme''"])
  show "audit_kinds ''acme'' (rows_of (tledger plain_times run3))
      = [AuditClaimed, AuditConnected, AuditSuperseded, AuditConnected]"
    by code_simp
qed

section \<open>Credentials\<close>

text \<open>
  C20: a credential opens exactly the tunnel it was issued for. After \<^verbatim>\<open>Claim\<close> has returned a claim
  and its token, in every later state the claim is still there under the same hash; whatever
  \<^verbatim>\<open>Authenticate\<close> returns for the token is that subdomain's unrevoked claim; and as long as the
  claim is not revoked and no link is attached, it does return it when the database answers.
\<close>

theorem issued_credential:
  assumes "tsql_ok C db" and "tunnel_reach (tsql_ops C) sha256 (tunnel_start db actor) n s"
    and "claim_tunnel (tsql_ops C) sha256 io random now sub s = (s1, Inr (c, token))"
    and "tunnel_reach (tsql_ops C) sha256 s1 k s2"
  shows "\<exists>d. claims_of (tledger C s2) sub = Some d \<and> cl_token_hash d = hash_token sha256 token \<and>
    (\<forall>io' t e. authenticate (tsql_ops C) sha256 io' t token s2 = Inr e \<longrightarrow> e = d \<and> \<not> cl_revoked d) \<and>
    (\<not> cl_revoked d \<and> map_get (ts_registry s2) sub = None \<longrightarrow>
       (\<forall>t. authenticate (tsql_ops C) sha256 None t token s2 = Inr d))"
proof -
  have inv: "tsql.tunnel_inv C (tsql_ledger C db) s" by (rule reach_tunnel_inv [OF assms(1,2)])
  then have ok: "tsql_ok C (ts_store s)" by (simp add: tsql.tunnel_inv_def)
  have inv1: "tsql.tunnel_inv C (tsql_ledger C db) s1" by (rule tsql.claim_inv [OF inv assms(3)])
  from tsql.claim_outcome [OF ok assms(3)] have c: "claims_of (tledger C s1) sub = Some c"
    "cl_subdomain c = sub" "cl_token_hash c = hash_token sha256 token" and tok: "new_token random = Inr token"
    by auto
  obtain d where d: "claims_of (tledger C s2) sub = Some d" "tsql.claim_kept c d"
    using tsql.reach_claim [OF assms(4) inv1 c(1)] by blast
  have hash: "cl_token_hash d = hash_token sha256 token" "cl_subdomain d = sub"
    using d c by (auto simp: tsql.claim_kept_def)
  have ok2: "tsql_ok C (ts_store s2)" using tsql.reach_inv [OF assms(4) inv1] by (simp add: tsql.tunnel_inv_def)
  have only: "e = d \<and> \<not> cl_revoked d" if "authenticate (tsql_ops C) sha256 io' t token s2 = Inr e" for io' t e
  proof -
    from tsql.authenticate_Inr [OF ok2 that] have e: "claims_of (tledger C s2) (cl_subdomain e) = Some e"
      "\<not> cl_revoked e" "cl_token_hash e = hash_token sha256 token" by auto
    moreover from this d(1) hash tsql_wf [OF ok2] have "cl_subdomain e = sub" by (metis wf_claims_def)
    ultimately show ?thesis using d(1) by auto
  qed
  have "authenticate (tsql_ops C) sha256 None t token s2 = Inr d"
    if "\<not> cl_revoked d" "map_get (ts_registry s2) sub = None" for t
  proof -
    have "validate_token token = None" using new_token_valid tok by blast
    moreover have "tsql_by_hash C None (hash_token sha256 token) (ts_store s2) = Inr d"
      using tsql_by_hash_found [OF ok2 d(1)] hash by simp
    ultimately show ?thesis
      using that hash by (simp add: authenticate_def tsql_ops_def takeover_allowed_def registry_presence_def
          registry_lookup_def)
  qed
  with d(1) hash only show ?thesis by blast
qed

theorem issued_credential_witness:
  "authenticate (tsql_ops plain_times) length_digest None 9 (token_prefix @ b64_encode drawn) run1 = Inr sample_claim"
proof -
  have st: "claims_of (tledger plain_times run1) ''acme'' = Some sample_claim"
    "map_get (ts_registry run1) ''acme'' = None" "\<not> cl_revoked sample_claim"
    by code_simp+
  from issued_credential [OF tsql_empty_ok reach0 claim1 tunnel_reach.here] st show ?thesis by auto
qed

lemma revoked_claim_stays:
  assumes "tsql_ok C db" and "tunnel_reach (tsql_ops C) sha256 (tunnel_start db actor) n s"
    and "revoke_tunnel (tsql_ops C) io1 io2 now sub x s = Some (s1, Inr c)"
    and "tunnel_reach (tsql_ops C) sha256 s1 k s2"
  shows "cl_revoked c" and "claims_of (tledger C s2) sub = Some c" and "tsql_ok C (ts_store s2)"
    and "tsql.live_active C s2"
proof -
  have inv: "tsql.tunnel_inv C (tsql_ledger C db) s" by (rule reach_tunnel_inv [OF assms(1,2)])
  then have ok: "tsql_ok C (ts_store s)" "tsql.live_active C s" by (simp_all add: tsql.tunnel_inv_def)
  have inv1: "tsql.tunnel_inv C (tsql_ledger C db) s1" by (rule tsql.revoke_inv [OF inv assms(3)])
  have c: "claims_of (tledger C s1) sub = Some c" "cl_revoked c"
    using tsql.revoke_outcome [OF ok(1) tsql.live_activeD [OF ok(2)], of io1 io2 now sub x] assms(3)
    by (auto simp: revoked_claim_def)
  then show "cl_revoked c" "claims_of (tledger C s2) sub = Some c"
    using tsql.reach_claim [OF assms(4) inv1 c(1)] by (auto simp: tsql.claim_kept_def)
  have "tsql.tunnel_inv C (tsql_ledger C db) s2" by (rule tsql.reach_inv [OF assms(4) inv1])
  then show "tsql_ok C (ts_store s2)" "tsql.live_active C s2" by (simp_all add: tsql.tunnel_inv_def)
qed

text \<open>With no failure of the database a revoked credential is refused as such.\<close>

lemma revoked_unauthorized:
  assumes "tsql_ok C (ts_store s)" and "claims_of (tledger C s) sub = Some c" and "cl_revoked c"
    and "cl_token_hash c = hash_token sha256 token"
  shows "\<exists>m. authenticate (tsql_ops C) sha256 None t token s = Inl (TUnauthorized m)"
proof (cases "validate_token token")
  case None
  with tsql_by_hash_found [OF assms(1,2)] assms(3,4) show ?thesis
    by (simp add: authenticate_def tsql_ops_def)
next
  case (Some e)
  then show ?thesis by (auto simp: authenticate_def validate_token_def when_err_def and_then_def split: if_splits option.splits)
qed

text \<open>
  C21: revocation is final. In every state after a claim was revoked it is still there, revoked,
  exactly as it was; no link serves its subdomain; no attachment of any claim value for it
  succeeds; no credential authenticates to it; and no second revocation succeeds.
\<close>

theorem revoked_stays_out:
  assumes "tsql_ok C db" and "tunnel_reach (tsql_ops C) sha256 (tunnel_start db actor) n s"
    and "revoke_tunnel (tsql_ops C) io1 io2 now sub x s = Some (s1, Inr c)"
    and "tunnel_reach (tsql_ops C) sha256 s1 k s2"
  shows "cl_revoked c \<and> claims_of (tledger C s2) sub = Some c \<and> map_get (ts_registry s2) sub = None \<and>
    (cl_subdomain cl = sub \<longrightarrow>
      (\<exists>s3 e. attach_link (tsql_ops C) io3 io4 t0 t1 t2 cl link s2 = Some (s3, Inl e))) \<and>
    (\<forall>d. authenticate (tsql_ops C) sha256 io3 t0 token s2 = Inr d \<longrightarrow> cl_subdomain d \<noteq> sub) \<and>
    (\<exists>s3 e. revoke_tunnel (tsql_ops C) io3 io4 t0 sub y s2 = Some (s3, Inl e))"
proof -
  note c = revoked_claim_stays(1) [OF assms] and c2 = revoked_claim_stays(2) [OF assms]
    and ok2 = revoked_claim_stays(3,4) [OF assms]
  have out: "map_get (ts_registry s2) sub = None"
    using ok2(2) c2 c by (force simp: tsql.live_active_def)
  have att: "\<exists>s3 e. attach_link (tsql_ops C) io3 io4 t0 t1 t2 cl link s2 = Some (s3, Inl e)" if "cl_subdomain cl = sub"
    using tsql.attach_outcome [OF ok2(1) tsql.live_activeD [OF ok2(2)], of io3 io4 t0 t1 t2 cl link] c2 c that
    by auto
  have auth: "cl_subdomain d \<noteq> sub" if "authenticate (tsql_ops C) sha256 io3 t0 token s2 = Inr d" for d
    using tsql.authenticate_Inr [OF ok2(1) that] c2 c by auto
  have rev: "\<exists>s3 e. revoke_tunnel (tsql_ops C) io3 io4 t0 sub y s2 = Some (s3, Inl e)"
    using tsql.revoke_outcome [OF ok2(1) tsql.live_activeD [OF ok2(2)], of io3 io4 t0 sub y] c2 c
    by auto
  show ?thesis using c c2 out att auth rev by blast
qed

definition run4 :: sample_service where
  "run4 = fst (the (revoke_tunnel (tsql_ops plain_times) None None 30 ''acme'' 1 run3))"

theorem revoked_stays_out_witness:
  "ts_closed run4 = [(1, CloseSuperseded), (2, CloseRevoked)] \<and>
   (\<exists>s3 e. attach_link (tsql_ops plain_times) None None 99 99 99 sample_claim (Some 3) run4 = Some (s3, Inl e))"
proof
  show "ts_closed run4 = [(1, CloseSuperseded), (2, CloseRevoked)]" by code_simp
  have run: "revoke_tunnel (tsql_ops plain_times) None None 30 ''acme'' 1 run3 = Some (run4, Inr (revoked_claim 30 sample_claim))"
    by code_simp
  have "cl_subdomain sample_claim = ''acme''" by (simp add: sample_claim_def)
  with revoked_stays_out [OF tsql_empty_ok reach3 run tunnel_reach.here, of sample_claim None None 99 99 99 "Some 3"]
  show "\<exists>s3 e. attach_link (tsql_ops plain_times) None None 99 99 99 sample_claim (Some 3) run4 = Some (s3, Inl e)"
    by blast
qed

section \<open>Takeovers\<close>

lemma attached_registry:
  assumes "tsql_ok C db" and "tunnel_reach (tsql_ops C) sha256 (tunnel_start db actor) n s"
    and "attach_link (tsql_ops C) io1 io2 t0 t1 t2 c (Some l) s = Some (s', Inr conn)"
  shows "map_get (ts_registry s') (cl_subdomain c) = Some \<lparr>att_link = l, att_generation = conn_generation conn\<rparr>"
proof -
  have "tsql.tunnel_inv C (tsql_ledger C db) s" by (rule reach_tunnel_inv [OF assms(1,2)])
  then have ok: "tsql_ok C (ts_store s)" "tsql.live_active C s" by (simp_all add: tsql.tunnel_inv_def)
  from tsql.attach_outcome [OF ok(1) tsql.live_activeD [OF ok(2)], of io1 io2 t0 t1 t2 c "Some l"] assms(3)
  show ?thesis by auto
qed

text \<open>
  C22: a late loss report cannot take down another agent's link. Once a connection has been
  superseded, \<^verbatim>\<open>Lost\<close> of it changes nothing in any later state: no presence, no audit row, no
  cooldown; the generations of fewer than 2^64 operations never repeat.
\<close>

theorem stale_loss_ignored:
  assumes "tsql_ok C db" and "tunnel_reach (tsql_ops C) sha256 (tunnel_start db actor) n s"
    and "attach_link (tsql_ops C) io1 io2 t0 t1 t2 c link s = Some (s1, Inr conn)"
    and "tunnel_reach (tsql_ops C) sha256 s1 k s2"
    and "attach_link (tsql_ops C) io3 io4 t3 t4 t5 d link' s2 = Some (s3, Inr conn')"
    and "cl_subdomain d = cl_subdomain c"
    and "tunnel_reach (tsql_ops C) sha256 s3 m s4" and "n + k + m + 2 < 2 ^ 64"
  shows "lost_link (tsql_ops C) io now conn s4 = Some (s4, None)"
proof -
  let ?sub = "cl_subdomain c"
  note inv = reach_tunnel_inv [OF assms(1,2)]
  note inv1 = tsql.attach_inv [OF inv assms(3)]
  note inv2 = tsql.reach_inv [OF assms(4) inv1]
  note inv3 = tsql.attach_inv [OF inv2 assms(5)]
  have ok: "tsql_ok C (ts_store s)" "tsql.live_active C s" "tsql_ok C (ts_store s2)" "tsql.live_active C s2"
    using inv inv2 by (simp_all add: tsql.tunnel_inv_def)
  have a1: "conn = \<lparr>conn_subdomain = ?sub, conn_generation = ts_generation s + 1\<rparr>" "ts_generation s1 = ts_generation s + 1"
    using tsql.attach_outcome [OF ok(1) tsql.live_activeD [OF ok(2)], of io1 io2 t0 t1 t2 c link] assms(3) by auto
  obtain l where a3: "ts_generation s3 = ts_generation s2 + 1"
    "ts_registry s3 = map_put ?sub \<lparr>att_link = l, att_generation = ts_generation s2 + 1\<rparr> (ts_registry s2)"
    using tsql.attach_outcome [OF ok(3) tsql.live_activeD [OF ok(4)], of io3 io4 t3 t4 t5 d link'] assms(5,6) by auto
  have "unat (ts_generation s) \<le> n" using reach_tunnel_generations [OF assms(1,2)] assms(8) by simp
  then have g1: "unat (ts_generation s1) = unat (ts_generation s) + 1" "unat (ts_generation s1) \<le> n + 1"
    using a1(2) assms(8) tsql.word_succ [of "ts_generation s"] by auto
  then have g2: "ts_generation s1 \<le> ts_generation s2" "unat (ts_generation s2) \<le> n + 1 + k"
    using tsql.reach_mono [OF assms(4) inv1] assms(8) by auto
  then have g3: "unat (ts_generation s3) = unat (ts_generation s2) + 1"
    using a3(1) assms(8) tsql.word_succ [of "ts_generation s2"] by auto
  have "\<forall>a. map_get (ts_registry s4) ?sub = Some a \<longrightarrow> ts_generation s3 \<le> att_generation a"
    using tsql.reach_newer [OF assms(7) inv3, of "ts_generation s3" ?sub] g2(2) g3 assms(8) a3 by auto
  moreover have "ts_generation s + 1 < ts_generation s3"
    using g1 g2 g3 a1(2) by (simp add: word_le_nat_alt word_less_nat_alt)
  ultimately have "\<not> registry_matches ?sub (ts_generation s + 1) (ts_registry s4)"
    by (auto simp: registry_matches_def split: option.split)
  then show ?thesis by (simp add: lost_link_def a1(1))
qed

theorem stale_loss_ignored_witness:
  "lost_link (tsql_ops plain_times) None 40 \<lparr>conn_subdomain = ''acme'', conn_generation = 1\<rparr> run3 = Some (run3, None)"
  using stale_loss_ignored [OF tsql_empty_ok reach1 attach2 [unfolded sample_attach_def] tunnel_reach.here
      attach3 [unfolded sample_attach_def] refl tunnel_reach.here] by simp

text \<open>
  C23: two agents cannot fight over a claim. Once a takeover has succeeded, as long as the link
  that took over is attached, in any later state every further attachment for the subdomain whose
  clock is less than a minute past the takeover is refused, leaves routing and audit alone and
  closes no link.
\<close>

theorem takeover_cooldown:
  assumes "tsql_ok C db" and "tunnel_reach (tsql_ops C) sha256 (tunnel_start db actor) n s"
    and "attach_link (tsql_ops C) io1 io2 t0 t1 t2 c link s = Some (s1, Inr conn)"
    and "map_get (ts_registry s) (cl_subdomain c) \<noteq> None"
    and "tunnel_reach (tsql_ops C) sha256 s1 k s2"
    and "registry_matches (cl_subdomain c) (conn_generation conn) (ts_registry s2)"
    and "cl_subdomain d = cl_subdomain c" and "t3 < t2 + 60000000000" and "n + k + 1 < 2 ^ 64"
  shows "\<exists>s3 e. attach_link (tsql_ops C) io3 io4 t3 t4 t5 d link' s2 = Some (s3, Inl e) \<and>
    ts_registry s3 = ts_registry s2 \<and> tledger C s3 = tledger C s2 \<and> ts_closed s3 = ts_closed s2"
proof -
  let ?sub = "cl_subdomain c"
  note inv = reach_tunnel_inv [OF assms(1,2)]
  note inv1 = tsql.attach_inv [OF inv assms(3)]
  note inv2 = tsql.reach_inv [OF assms(5) inv1]
  have ok: "tsql_ok C (ts_store s)" "tsql.live_active C s" "tsql_ok C (ts_store s2)" "tsql.live_active C s2"
    using inv inv2 by (simp_all add: tsql.tunnel_inv_def)
  have a1: "conn_generation conn = ts_generation s1" "map_get (ts_superseded s1) ?sub = Some t2"
    "ts_generation s1 = ts_generation s + 1"
    using tsql.attach_outcome [OF ok(1) tsql.live_activeD [OF ok(2)], of io1 io2 t0 t1 t2 c link] assms(3,4) by auto
  have "unat (ts_generation s) \<le> n" using reach_tunnel_generations [OF assms(1,2)] assms(9) by simp
  then have g1: "unat (ts_generation s1) + k < 2 ^ 64"
    using a1(3) assms(9) tsql.word_succ [of "ts_generation s"] by auto
  have "map_get (ts_superseded s2) ?sub = Some t2"
    using tsql.reach_cooldown [OF assms(5) inv1 g1 order_refl, of ?sub t2] a1 assms(6)
    by (auto simp: registry_matches_def split: option.splits)
  moreover have "map_get (ts_registry s2) ?sub \<noteq> None" using assms(6) by (auto simp: registry_matches_def split: option.splits)
  ultimately have "takeover_allowed t3 ?sub s2 \<noteq> None"
    using assms(8) by (auto simp: takeover_allowed_def supersede_cooldown_def registry_presence_def registry_lookup_def)
  with tsql.attach_outcome [OF ok(3) tsql.live_activeD [OF ok(4)], of io3 io4 t3 t4 t5 d link'] assms(7)
  show ?thesis by (fastforce simp: tsql.unchanged_def)
qed

theorem takeover_cooldown_witness:
  "\<exists>s3 e. attach_link (tsql_ops plain_times) None None 50 50 50 sample_claim (Some 3) run3 = Some (s3, Inl e) \<and>
     ts_registry s3 = ts_registry run3"
proof -
  have live: "map_get (ts_registry run2) (cl_subdomain sample_claim) \<noteq> None"
    using attached_registry [OF tsql_empty_ok reach1 attach2 [unfolded sample_attach_def]] by simp
  have match: "registry_matches (cl_subdomain sample_claim)
      (conn_generation \<lparr>conn_subdomain = ''acme'', conn_generation = 2\<rparr>) (ts_registry run3)"
    using attached_registry [OF tsql_empty_ok reach2 attach3 [unfolded sample_attach_def]]
    by (simp add: registry_matches_def)
  from takeover_cooldown [OF tsql_empty_ok reach2 attach3 [unfolded sample_attach_def] live tunnel_reach.here match refl,
      of 50 None None 50 50 "Some 3"]
  show ?thesis by auto
qed

end
