(* ===== verification/Tunnel_Net.thy ===== *)
theory Tunnel_Net
  imports Tunnel_Claim
begin

text \<open>
  What the tunnel's HTTP components use of the standard library: request headers
  (\<^verbatim>\<open>net/http.Header\<close>), IP addresses (\<^verbatim>\<open>net.ParseIP\<close>, \<^verbatim>\<open>IP.IsLoopback\<close>) and the two helpers of
  \<^verbatim>\<open>httputil.ProxyRequest\<close>, \<^verbatim>\<open>SetURL\<close> and \<^verbatim>\<open>SetXForwarded\<close>.
\<close>

section \<open>Headers\<close>

type_synonym header = "(string, string list) go_map"

text \<open>\<^verbatim>\<open>validHeaderFieldByte\<close>: the bytes of an HTTP token.\<close>

definition token_byte :: "char \<Rightarrow> bool" where
  "token_byte c \<longleftrightarrow> 48 \<le> byte c \<and> byte c \<le> 57 \<or> 65 \<le> byte c \<and> byte c \<le> 90 \<or> 97 \<le> byte c \<and> byte c \<le> 122
     \<or> c \<in> set ''!#$%&*+-.^_|~'' \<or> byte c = 39 \<or> byte c = 96"

definition upper_char :: "char \<Rightarrow> char" where
  "upper_char c = (if 97 \<le> byte c \<and> byte c \<le> 122 then char_of (byte c - 32) else c)"

fun canonical_letters :: "bool \<Rightarrow> string \<Rightarrow> string" where
  "canonical_letters upper [] = []"
| "canonical_letters upper (c # cs) =
     (if upper then upper_char c else lower_char c) # canonical_letters (c = CHR ''-'') cs"

text \<open>\<^verbatim>\<open>textproto.CanonicalMIMEHeaderKey\<close>: a name with a byte that is not a token's stays as it is.\<close>

definition canonical_key :: "string \<Rightarrow> string" where
  "canonical_key s = (if list_all token_byte s then canonical_letters True s else s)"

definition header_values :: "header \<Rightarrow> string \<Rightarrow> string list" where
  "header_values h name = (case map_get h (canonical_key name) of None \<Rightarrow> [] | Some vs \<Rightarrow> vs)"

definition header_get :: "header \<Rightarrow> string \<Rightarrow> string" where
  "header_get h name = (case header_values h name of [] \<Rightarrow> [] | v # _ \<Rightarrow> v)"

definition header_set :: "string \<Rightarrow> string \<Rightarrow> header \<Rightarrow> header" where
  "header_set name v h = map_put (canonical_key name) [v] h"

definition header_add :: "string \<Rightarrow> string \<Rightarrow> header \<Rightarrow> header" where
  "header_add name v h = map_put (canonical_key name) (header_values h name @ [v]) h"

definition header_del :: "string \<Rightarrow> header \<Rightarrow> header" where
  "header_del name h = map_delete (canonical_key name) h"

text \<open>
  A header as a server's reader or a header's own methods build it: every key is a token in canonical
  spelling, and is there once.
\<close>

definition canonical_header :: "header \<Rightarrow> bool" where
  "canonical_header h \<longleftrightarrow> wf_map h
     \<and> list_all (\<lambda>(k, vs). list_all token_byte k \<and> canonical_key k = k) h"

lemma byte_char_of: "n < 256 \<Longrightarrow> byte (char_of n) = n"
  by (simp add: byte_def take_bit_eq_mod)

lemma byte_lower: "byte (lower_char c) = (if 65 \<le> byte c \<and> byte c \<le> 90 then byte c + 32 else byte c)"
  by (simp add: lower_char_def byte_char_of)

lemma byte_upper: "byte (upper_char c) = (if 97 \<le> byte c \<and> byte c \<le> 122 then byte c - 32 else byte c)"
  using byte_less [of c] by (auto simp: upper_char_def intro!: byte_char_of)

lemma lower_upper [simp]:
  "lower_char (upper_char c) = lower_char c" "upper_char (lower_char c) = upper_char c"
  "lower_char (lower_char c) = lower_char c" "upper_char (upper_char c) = upper_char c"
  by (auto simp: byte_lower byte_upper simp flip: byte_inject)

lemma lower_dash [simp]:
  "lower_char c = CHR ''-'' \<longleftrightarrow> c = CHR ''-''" "upper_char c = CHR ''-'' \<longleftrightarrow> c = CHR ''-''"
proof -
  have "byte CHR ''-'' = 45" by (simp add: byte_def)
  then show "lower_char c = CHR ''-'' \<longleftrightarrow> c = CHR ''-''" "upper_char c = CHR ''-'' \<longleftrightarrow> c = CHR ''-''"
    by (auto simp: byte_lower byte_upper simp flip: byte_inject)
qed

lemma canonical_letters_lower [simp]: "canonical_letters u (map lower_char s) = canonical_letters u s"
  by (induction u s rule: canonical_letters.induct) auto

lemma lower_canonical_letters [simp]: "map lower_char (canonical_letters u s) = map lower_char s"
  by (induction u s rule: canonical_letters.induct) auto

lemma token_byte_lower [simp]: "token_byte (lower_char c) \<longleftrightarrow> token_byte c"
proof (cases "65 \<le> byte c \<and> byte c \<le> 90")
  case True
  then have "97 \<le> byte (lower_char c) \<and> byte (lower_char c) \<le> 122" by (simp add: byte_lower)
  with True show ?thesis unfolding token_byte_def by blast
qed (auto simp: lower_char_def)

lemma canonical_letters_token [simp]: "list_all token_byte (canonical_letters u s) \<longleftrightarrow> list_all token_byte s"
proof (induction u s rule: canonical_letters.induct)
  case (2 upper c cs)
  have "token_byte (upper_char c) \<longleftrightarrow> token_byte c" by (metis lower_upper(1) token_byte_lower)
  with 2 show ?case by simp
qed simp

lemma canonical_key_token [simp]: "list_all token_byte (canonical_key s) \<longleftrightarrow> list_all token_byte s"
  by (simp add: canonical_key_def)

lemma canonical_letters_idem: "canonical_letters u (canonical_letters u s) = canonical_letters u s"
  by (metis canonical_letters_lower lower_canonical_letters)

lemma canonical_key_idem [simp]: "canonical_key (canonical_key s) = canonical_key s"
  by (simp add: canonical_key_def canonical_letters_idem)

lemma token_ascii: "token_byte c \<Longrightarrow> byte c < 128"
  by (auto simp: token_byte_def byte_def)

lemma to_lower_token: "list_all token_byte s \<Longrightarrow> to_lower unicode s = map lower_char s"
  using token_ascii by (auto simp: to_lower_def list_all_iff)

text \<open>Two tokens with one canonical spelling differ in letter case only, and conversely.\<close>

lemma canonical_key_lower:
  "list_all token_byte s \<Longrightarrow> list_all token_byte t \<Longrightarrow>
     canonical_key s = canonical_key t \<longleftrightarrow> map lower_char s = map lower_char t"
  unfolding canonical_key_def by (simp, metis canonical_letters_lower lower_canonical_letters)

lemma canonical_header_iff:
  "canonical_header h \<longleftrightarrow> wf_map h \<and> (\<forall>k vs. map_get h k = Some vs \<longrightarrow> list_all token_byte k \<and> canonical_key k = k)"
  unfolding canonical_header_def list_all_iff by (fastforce simp: map_get_Some_iff)

lemma canonical_header_get:
  "canonical_header h \<Longrightarrow> map_get h k = Some vs \<Longrightarrow> list_all token_byte k \<and> canonical_key k = k"
  by (simp add: canonical_header_iff)

lemma canonical_header_del [simp]: "canonical_header h \<Longrightarrow> canonical_header (header_del name h)"
  by (simp add: canonical_header_iff header_del_def)

lemma canonical_header_put [simp]:
  "canonical_header h \<Longrightarrow> list_all token_byte k \<Longrightarrow> canonical_header (map_put (canonical_key k) vs h)"
  by (simp add: canonical_header_iff)

lemma canonical_header_set [simp]:
  "canonical_header h \<Longrightarrow> list_all token_byte k \<Longrightarrow> canonical_header (header_set k v h)"
  by (simp add: header_set_def)

lemma canonical_header_add [simp]:
  "canonical_header h \<Longrightarrow> list_all token_byte k \<Longrightarrow> canonical_header (header_add k v h)"
  by (simp add: header_add_def)

lemma map_get_header_del [simp]:
  "map_get (header_del name h) k = (if k = canonical_key name then None else map_get h k)"
  by (simp add: header_del_def)

lemma map_get_header_set [simp]:
  "map_get (header_set name v h) k = (if k = canonical_key name then Some [v] else map_get h k)"
  by (simp add: header_set_def)

section \<open>Addresses\<close>

text \<open>
  \<^verbatim>\<open>netip.parseIPv4Fields\<close>: \<open>fs\<close> are the octets before the last dot, \<open>v\<close> the value and \<open>n\<close> the number
  of digits of the current one.
\<close>

fun ipv4_fields :: "nat list \<Rightarrow> nat \<Rightarrow> nat \<Rightarrow> string \<Rightarrow> nat list option" where
  "ipv4_fields fs v n [] = (if length fs < 3 then None else Some (fs @ [v]))"
| "ipv4_fields fs v n (c # cs) =
     (if is_digit c
      then (if n = 1 \<and> v = 0 then None
            else let v' = v * 10 + (byte c - 48) in
                 if v' > 255 then None else ipv4_fields fs v' (n + 1) cs)
      else if c = CHR ''.''
      then (if n = 0 \<or> cs = [] then None
            else if length fs = 3 then None
            else ipv4_fields (fs @ [v]) 0 0 cs)
      else None)"

definition hex_digit :: "char \<Rightarrow> nat option" where
  "hex_digit c =
     (if 48 \<le> byte c \<and> byte c \<le> 57 then Some (byte c - 48)
      else if 97 \<le> byte c \<and> byte c \<le> 102 then Some (byte c - 87)
      else if 65 \<le> byte c \<and> byte c \<le> 70 then Some (byte c - 55)
      else None)"

text \<open>
  The loop of \<^verbatim>\<open>netip.parseIPv6\<close>: \<open>n\<close> groups are still to come, \<open>ip\<close> are the bytes so far and \<open>ell\<close> is
  the place of the ellipsis.
\<close>

fun ipv6_groups :: "nat \<Rightarrow> nat list \<Rightarrow> nat option \<Rightarrow> string \<Rightarrow> (nat list \<times> nat option \<times> string) option" where
  "ipv6_groups 0 ip ell s = Some (ip, ell, s)"
| "ipv6_groups (Suc n) ip ell s =
     (let digits = takeWhile (\<lambda>c. hex_digit c \<noteq> None) s;
          rest = drop (length digits) s;
          acc = foldl (\<lambda>a c. a * 16 + the (hex_digit c)) 0 digits in
      if digits = [] \<or> length digits > 4 then None
      else if rest \<noteq> [] \<and> hd rest = CHR ''.''
      then (if ell = None \<and> length ip \<noteq> 12 then None
            else if length ip + 4 > 16 then None
            else case ipv4_fields [] 0 0 s of None \<Rightarrow> None | Some fs \<Rightarrow> Some (ip @ fs, ell, []))
      else let ip' = ip @ [acc div 256, acc mod 256] in
        case rest of
          [] \<Rightarrow> Some (ip', ell, [])
        | c # r \<Rightarrow>
            if c \<noteq> CHR '':'' \<or> r = [] then None
            else if hd r = CHR '':''
            then (if ell \<noteq> None then None
                  else if tl r = [] then Some (ip', Some (length ip'), [])
                  else ipv6_groups n ip' (Some (length ip')) (tl r))
            else ipv6_groups n ip' ell r)"

definition parse_ipv6 :: "string \<Rightarrow> nat list option" where
  "parse_ipv6 s =
     (if contains_byte s CHR ''%'' then None
      else let lead = has_prefix s ''::''; s0 = (if lead then drop 2 s else s) in
      if lead \<and> s0 = [] then Some (replicate 16 0)
      else case ipv6_groups 8 [] (if lead then Some 0 else None) s0 of
        None \<Rightarrow> None
      | Some (ip, ell, rest) \<Rightarrow>
          if rest \<noteq> [] then None
          else if length ip < 16
          then (case ell of None \<Rightarrow> None
                | Some e \<Rightarrow> Some (take e ip @ replicate (16 - length ip) 0 @ drop e ip))
          else if ell \<noteq> None then None else Some ip)"

text \<open>\<^verbatim>\<open>net.ParseIP\<close>: the sixteen bytes of an address; a zone is refused.\<close>

definition ipv4_mapped :: "nat list \<Rightarrow> nat list" where
  "ipv4_mapped fs = replicate 10 0 @ [255, 255] @ fs"

definition parse_ip :: "string \<Rightarrow> nat list option" where
  "parse_ip s =
     (case List.find (\<lambda>c. c \<in> set ''.:%'') s of
        None \<Rightarrow> None
      | Some c \<Rightarrow>
          if c = CHR ''.'' then map_option ipv4_mapped (ipv4_fields [] 0 0 s)
          else if c = CHR '':'' then parse_ipv6 s
          else None)"

text \<open>\<^verbatim>\<open>IP.IsLoopback\<close>: 127.0.0.0/8, written as such or mapped into IPv6, and ::1.\<close>

definition is_loopback :: "nat list \<Rightarrow> bool" where
  "is_loopback ip \<longleftrightarrow>
     (if take 12 ip = ipv4_mapped [] then ip ! 12 = 127 else ip = replicate 15 0 @ [1])"

text \<open>The host of an address with a port, when it is a loopback address.\<close>

definition loopback_address :: "string \<Rightarrow> bool" where
  "loopback_address address =
     (case split_host address of
        None \<Rightarrow> False
      | Some host \<Rightarrow> (case parse_ip host of None \<Rightarrow> False | Some ip \<Rightarrow> is_loopback ip))"

section \<open>Proxied requests\<close>

record url =
  url_scheme :: string
  url_host :: string
  url_path :: string
  url_query :: string

record request =
  rq_method :: string
  rq_host :: string
  rq_remote :: string
  rq_url :: url
  rq_header :: header

definition join_path_slash :: "string \<Rightarrow> string \<Rightarrow> string" where
  "join_path_slash a b =
     (if has_suffix a ''/'' \<and> has_prefix b ''/'' then a @ drop 1 b
      else if \<not> has_suffix a ''/'' \<and> \<not> has_prefix b ''/'' then a @ ''/'' @ b
      else a @ b)"

text \<open>\<^verbatim>\<open>ProxyRequest.SetURL\<close>, on the outgoing request.\<close>

definition set_url :: "url \<Rightarrow> request \<Rightarrow> request" where
  "set_url target out =
     out\<lparr>rq_url := \<lparr>url_scheme = url_scheme target, url_host = url_host target,
           url_path = join_path_slash (url_path target) (url_path (rq_url out)),
           url_query = (if url_query target = [] \<or> url_query (rq_url out) = []
             then url_query target @ url_query (rq_url out)
             else url_query target @ ''&'' @ url_query (rq_url out))\<rparr>,
         rq_host := []\<rparr>"

fun join_values :: "string list \<Rightarrow> string" where
  "join_values [] = []"
| "join_values [v] = v"
| "join_values (v # w # vs) = v @ '', '' @ join_values (w # vs)"

text \<open>\<^verbatim>\<open>ProxyRequest.SetXForwarded\<close>; \<open>tls\<close> says whether the incoming request came over TLS.\<close>

definition set_x_forwarded :: "bool \<Rightarrow> request \<Rightarrow> header \<Rightarrow> header" where
  "set_x_forwarded tls inr out =
     (let out1 = (case split_host (rq_remote inr) of
            None \<Rightarrow> header_del ''X-Forwarded-For'' out
          | Some ip \<Rightarrow>
              let prior = (case map_get out ''X-Forwarded-For'' of None \<Rightarrow> [] | Some vs \<Rightarrow> vs) in
              header_set ''X-Forwarded-For''
                (if prior \<noteq> [] then join_values prior @ '', '' @ ip else ip) out);
          out2 = header_set ''X-Forwarded-Host'' (rq_host inr) out1
      in header_set ''X-Forwarded-Proto'' (if tls then ''https'' else ''http'') out2)"

end
