(* ===== verification/Tunnel_Api.thy ===== *)
theory Tunnel_Api
  imports Tunnel_Policy Tunnel_Net Go_Http
begin

text \<open>
  The management and read planes of the tunnel: \<^verbatim>\<open>internal/api\<close> of the specimen, over the service and
  the SQLite store. A request is what the handlers read of it; its path is the cleaned path split at
  \<^verbatim>\<open>/\<close>. The JSON decoders and \<^verbatim>\<open>mime.ParseMediaType\<close> are parameters. \<open>None\<close> is a panic.
\<close>

section \<open>Requests and responses\<close>

record api_request =
  aq_method :: string
  aq_segments :: "string list"
  aq_header :: header
  aq_limit :: string
  aq_body :: string

record tunnel_json =
  read_claim :: "string \<Rightarrow> (string \<times> string) option"
  read_revoke :: "string \<Rightarrow> (int \<times> string) option"
  media_type :: "string \<Rightarrow> string option"

record tunnel_claimed =
  tc_subdomain :: string
  tc_token :: string
  tc_revision :: int
  tc_created_at :: int

record tunnel_response =
  tr_subdomain :: string
  tr_revision :: int
  tr_state :: claim_state
  tr_presence :: presence
  tr_created_at :: int
  tr_revoked_at :: "int option"

datatype tunnel_text = TTUnauthorized | TTContentType | TTDecode | TTInternal | TTPolicy tunnel_error

datatype tunnel_body =
    TBHealth
  | TBError tunnel_text
  | TBClaimed tunnel_claimed
  | TBTunnel tunnel_response
  | TBTunnels "tunnel_response list"
  | TBAudit "(int \<times> tunnel_audit) list"
  | TBNone

record tunnel_reply =
  tp_status :: int
  tp_body :: tunnel_body

definition write_tunnel_json :: "int \<Rightarrow> tunnel_body \<Rightarrow> tunnel_reply" where
  "write_tunnel_json status body = \<lparr>tp_status = status, tp_body = (if status = 204 then TBNone else body)\<rparr>"

definition write_policy_error :: "tunnel_error \<Rightarrow> tunnel_reply" where
  "write_policy_error err =
     (case err of
        TInvalid m \<Rightarrow> write_tunnel_json 400 (TBError (TTPolicy err))
      | TConflict m \<Rightarrow> write_tunnel_json 409 (TBError (TTPolicy err))
      | TRevoked m \<Rightarrow> write_tunnel_json 409 (TBError (TTPolicy err))
      | TNotFound m \<Rightarrow> write_tunnel_json 404 (TBError (TTPolicy err))
      | _ \<Rightarrow> write_tunnel_json 500 (TBError TTInternal))"

section \<open>The server\<close>

datatype tunnel_server_error = ServerParts | ServerTokens | ServerTokensDiffer

record tunnel_server =
  tsrv_admin :: string
  tsrv_read :: string

definition new_tunnel_server :: "bool \<Rightarrow> string \<Rightarrow> string \<Rightarrow> tunnel_server_error + tunnel_server" where
  "new_tunnel_server given admin reading =
     (if \<not> given then Inl ServerParts
      else if blank admin \<or> blank reading then Inl ServerTokens
      else if secure_equal admin reading then Inl ServerTokensDiffer
      else Inr \<lparr>tsrv_admin = admin, tsrv_read = reading\<rparr>)"

definition authorize_tunnel ::
  "string \<Rightarrow> api_request \<Rightarrow> ('s \<Rightarrow> ('s \<times> tunnel_reply) option) \<Rightarrow> 's \<Rightarrow> ('s \<times> tunnel_reply) option" where
  "authorize_tunnel token r next s =
     (if secure_equal (header_get (aq_header r) ''Authorization'') (''Bearer '' @ token) then next s
      else Some (s, write_tunnel_json 401 (TBError TTUnauthorized)))"

definition max_management_bytes :: nat where
  "max_management_bytes = 1048576"

definition decode_management :: "(string \<Rightarrow> ('a \<times> string) option) \<Rightarrow> string \<Rightarrow> 'a option" where
  "decode_management read body = strict_json max_management_bytes read body"

definition require_json :: "tunnel_json \<Rightarrow> api_request \<Rightarrow> bool" where
  "require_json J r \<longleftrightarrow> media_type J (header_get (aq_header r) ''Content-Type'') = Some ''application/json''"

section \<open>Handlers\<close>

definition view_response :: "tunnel_view \<Rightarrow> tunnel_response" where
  "view_response view =
     \<lparr>tr_subdomain = view_subdomain view, tr_revision = view_revision view, tr_state = view_state view,
      tr_presence = view_presence view, tr_created_at = view_created_at view,
      tr_revoked_at = (if view_revoked_at view \<noteq> zero_time then Some (view_revoked_at view) else None)\<rparr>"

definition api_claim ::
  "tunnel_json \<Rightarrow> ('io, 'st) claim_ops \<Rightarrow> digest \<Rightarrow> 'io \<Rightarrow> string \<Rightarrow> int \<Rightarrow> api_request \<Rightarrow>
   ('l, 'st) tunnel_service \<Rightarrow> ('l, 'st) tunnel_service \<times> tunnel_reply" where
  "api_claim J S sha256 io random now r s =
     (if \<not> require_json J r then (s, write_tunnel_json 415 (TBError TTContentType))
      else case decode_management (read_claim J) (aq_body r) of
        None \<Rightarrow> (s, write_tunnel_json 400 (TBError TTDecode))
      | Some subdomain \<Rightarrow>
          (case claim_tunnel S sha256 io random now subdomain s of
             (s', Inl e) \<Rightarrow> (s', write_policy_error e)
           | (s', Inr (c, token)) \<Rightarrow>
               (s', write_tunnel_json 201 (TBClaimed \<lparr>tc_subdomain = cl_subdomain c, tc_token = token,
                  tc_revision = cl_revision c, tc_created_at = cl_created_at c\<rparr>))))"

definition api_revoke ::
  "tunnel_json \<Rightarrow> ('io, 'st) claim_ops \<Rightarrow> 'io \<Rightarrow> 'io \<Rightarrow> int \<Rightarrow> api_request \<Rightarrow> string \<Rightarrow>
   ('l, 'st) tunnel_service \<Rightarrow> (('l, 'st) tunnel_service \<times> tunnel_reply) option" where
  "api_revoke J S io1 io2 now r subdomain s =
     (if \<not> require_json J r then Some (s, write_tunnel_json 415 (TBError TTContentType))
      else case decode_management (read_revoke J) (aq_body r) of
        None \<Rightarrow> Some (s, write_tunnel_json 400 (TBError TTDecode))
      | Some expected \<Rightarrow>
          (case revoke_tunnel S io1 io2 now subdomain expected s of
             None \<Rightarrow> None
           | Some (s', Inl e) \<Rightarrow> Some (s', write_policy_error e)
           | Some (s', Inr c) \<Rightarrow>
               Some (s', write_tunnel_json 200 (TBTunnel (view_response
                 \<lparr>view_subdomain = cl_subdomain c, view_revision = cl_revision c,
                  view_state = claim_state_of c, view_presence = PresenceAbsent,
                  view_created_at = cl_created_at c, view_revoked_at = cl_revoked_at c\<rparr>)))))"

definition api_list_tunnels ::
  "('io, 'st) claim_ops \<Rightarrow> 'io \<Rightarrow> ('l, 'st) tunnel_service \<Rightarrow> tunnel_reply" where
  "api_list_tunnels S io s =
     (case list_tunnels S io s of
        Inl e \<Rightarrow> write_policy_error e
      | Inr views \<Rightarrow> write_tunnel_json 200 (TBTunnels (map view_response views)))"

definition tunnel_audit_limit :: "string \<Rightarrow> tunnel_error + int" where
  "tunnel_audit_limit raw =
     (if raw = [] then Inr 50
      else case atoi raw of
        None \<Rightarrow> Inl (TInvalid ''limit must be an integer between 1 and 1000'')
      | Some limit \<Rightarrow>
          if limit < 1 \<or> limit > 1000 then Inl (TInvalid ''limit must be an integer between 1 and 1000'')
          else Inr limit)"

definition api_list_audit ::
  "('t::linorder) time_codec \<Rightarrow> tunnel_io \<Rightarrow> api_request \<Rightarrow> ('l, 't tunnel_database) tunnel_service \<Rightarrow> tunnel_reply" where
  "api_list_audit C io r s =
     (case tunnel_audit_limit (aq_limit r) of
        Inl e \<Rightarrow> write_tunnel_json 400 (TBError (TTPolicy e))
      | Inr limit \<Rightarrow>
          (case tsql_audit C io limit (ts_store s) of
             Inl e \<Rightarrow> write_policy_error e
           | Inr entries \<Rightarrow> write_tunnel_json 200 (TBAudit entries)))"

datatype tunnel_handler = HandleHealth | HandleClaim | HandleRevoke | HandleList | HandleAudit

definition tunnel_routes :: "(string \<times> segment_pattern list \<times> tunnel_handler) list" where
  "tunnel_routes =
     [(''GET'', [Lit ''healthz''], HandleHealth),
      (''POST'', [Lit ''v1'', Lit ''tunnels''], HandleClaim),
      (''POST'', [Lit ''v1'', Lit ''tunnels'', Wild, Lit ''revoke''], HandleRevoke),
      (''GET'', [Lit ''v1'', Lit ''tunnels''], HandleList),
      (''GET'', [Lit ''v1'', Lit ''audit''], HandleAudit)]"

text \<open>
  One request; \<open>io1\<close> and \<open>io2\<close> are the failures of the database calls it makes, \<open>random\<close> and \<open>now\<close>
  what the randomness and the clock yield.
\<close>

definition handle_tunnel ::
  "('t::linorder) time_codec \<Rightarrow> tunnel_json \<Rightarrow> digest \<Rightarrow> tunnel_server \<Rightarrow> tunnel_io \<Rightarrow> tunnel_io \<Rightarrow>
   string \<Rightarrow> int \<Rightarrow> api_request \<Rightarrow> ('l, 't tunnel_database) tunnel_service \<Rightarrow>
   (('l, 't tunnel_database) tunnel_service \<times> tunnel_reply) option" where
  "handle_tunnel C J sha256 srv io1 io2 random now r s =
     (case route_in tunnel_routes False (aq_method r) (aq_segments r) of
        NoRoute \<Rightarrow> Some (s, write_tunnel_json 404 TBNone)
      | MethodNotAllowed \<Rightarrow> Some (s, write_tunnel_json 405 TBNone)
      | Routed h vals \<Rightarrow>
        (case h of
           HandleHealth \<Rightarrow> Some (s, write_tunnel_json 200 TBHealth)
         | HandleClaim \<Rightarrow> authorize_tunnel (tsrv_admin srv) r
             (\<lambda>s. Some (api_claim J (tsql_ops C) sha256 io1 random now r s)) s
         | HandleRevoke \<Rightarrow> authorize_tunnel (tsrv_admin srv) r
             (\<lambda>s. api_revoke J (tsql_ops C) io1 io2 now r (vals ! 0) s) s
         | HandleList \<Rightarrow> authorize_tunnel (tsrv_read srv) r
             (\<lambda>s. Some (s, api_list_tunnels (tsql_ops C) io1 s)) s
         | HandleAudit \<Rightarrow> authorize_tunnel (tsrv_read srv) r
             (\<lambda>s. Some (s, api_list_audit C io1 r s)) s))"

lemma new_tunnel_server_Inr:
  "new_tunnel_server given admin reading = Inr srv \<longleftrightarrow>
     given \<and> \<not> blank admin \<and> \<not> blank reading \<and> admin \<noteq> reading
     \<and> srv = \<lparr>tsrv_admin = admin, tsrv_read = reading\<rparr>"
  by (auto simp: new_tunnel_server_def)

lemma tunnel_audit_limit_range: "tunnel_audit_limit raw = Inr limit \<Longrightarrow> 1 \<le> limit \<and> limit \<le> 1000"
  by (auto simp: tunnel_audit_limit_def split: if_splits option.splits)

definition presented :: "api_request \<Rightarrow> string" where
  "presented r = header_get (aq_header r) ''Authorization''"

lemma authorize_tunnel_eq:
  "authorize_tunnel token r next s =
     (if presented r = ''Bearer '' @ token then next s
      else Some (s, write_tunnel_json 401 (TBError TTUnauthorized)))"
  by (simp add: authorize_tunnel_def presented_def)

section \<open>The two authorities\<close>

text \<open>What a request that changes nothing looks like, and the two that change something.\<close>

definition api_read ::
  "('t::linorder) time_codec \<Rightarrow> ('l, 't tunnel_database) tunnel_service \<Rightarrow> api_request \<Rightarrow>
   ('l, 't tunnel_database) tunnel_service \<Rightarrow> tunnel_reply \<Rightarrow> bool" where
  "api_read C s r s' reply \<longleftrightarrow> tledger C s' = tledger C s \<and> ts_registry s' = ts_registry s
     \<and> (\<forall>claimed. tp_body reply \<noteq> TBClaimed claimed)
     \<and> (aq_method r = ''POST'' \<longrightarrow> tp_status reply \<notin> {200, 201})"

definition api_issued ::
  "('t::linorder) time_codec \<Rightarrow> digest \<Rightarrow> ('l, 't tunnel_database) tunnel_service \<Rightarrow>
   ('l, 't tunnel_database) tunnel_service \<Rightarrow> tunnel_reply \<Rightarrow> bool" where
  "api_issued C sha256 s s' reply \<longleftrightarrow> (\<exists>sub c token.
     reply = \<lparr>tp_status = 201, tp_body = TBClaimed \<lparr>tc_subdomain = sub, tc_token = token,
       tc_revision = cl_revision c, tc_created_at = cl_created_at c\<rparr>\<rparr>
     \<and> claims_of (tledger C s) sub = None \<and> cl_token_hash c = hash_token sha256 token \<and> \<not> cl_revoked c
     \<and> claims_of (tledger C s') = (claims_of (tledger C s)) (sub \<mapsto> c) \<and> ts_registry s' = ts_registry s)"

definition api_revoked ::
  "('t::linorder) time_codec \<Rightarrow> int \<Rightarrow> ('l, 't tunnel_database) tunnel_service \<Rightarrow>
   ('l, 't tunnel_database) tunnel_service \<Rightarrow> tunnel_reply \<Rightarrow> bool" where
  "api_revoked C now s s' reply \<longleftrightarrow> (\<exists>sub c.
     tp_status reply = 200 \<and> claims_of (tledger C s) sub = Some c \<and> \<not> cl_revoked c
     \<and> claims_of (tledger C s') = (claims_of (tledger C s)) (sub \<mapsto> revoked_claim now c)
     \<and> (\<forall>sub'. map_get (ts_registry s') sub' = (if sub' = sub then None else map_get (ts_registry s) sub')))"

lemma policy_error_reply:
  "tp_status (write_policy_error e) \<in> {400, 404, 409, 500}" "tp_body (write_policy_error e) \<noteq> TBClaimed claimed"
  by (cases e; simp add: write_policy_error_def write_tunnel_json_def)+

lemma api_read_error:
  "tledger C s' = tledger C s \<Longrightarrow> ts_registry s' = ts_registry s \<Longrightarrow> api_read C s r s' (write_policy_error e)"
  using policy_error_reply [of e] by (auto simp: api_read_def)

lemma api_read_refused:
  "status \<notin> {200, 201} \<Longrightarrow> api_read C s r s (write_tunnel_json status (TBError m))"
  by (auto simp: api_read_def write_tunnel_json_def)

lemma api_claim_effect:
  assumes ok: "tsql_ok C (ts_store s)" and out: "api_claim J (tsql_ops C) sha256 io random now r s = (s', reply)"
  shows "api_read C s r s' reply \<or> api_issued C sha256 s s' reply"
proof (cases "require_json J r \<and> decode_management (read_claim J) (aq_body r) \<noteq> None")
  case False
  with out show ?thesis by (auto simp: api_claim_def intro!: api_read_refused split: if_splits)
next
  case True
  then obtain sub where sub: "decode_management (read_claim J) (aq_body r) = Some sub" by blast
  obtain s1 res where cl: "claim_tunnel (tsql_ops C) sha256 io random now sub s = (s1, res)" by fastforce
  from tsql.claim_outcome [OF ok cl] show ?thesis
  proof (elim disjE conjE exE)
    fix e assume "tsql.unchanged C s s1" "res = Inl e"
    with out True sub cl show ?thesis
      by (auto simp: api_claim_def tsql.unchanged_def intro!: api_read_error)
  next
    fix token c rows
    assume res: "res = Inr (c, token)" and c: "cl_subdomain c = sub" "cl_token_hash c = hash_token sha256 token"
      "\<not> cl_revoked c" "claims_of (tledger C s) sub = None" and s1: "s1 = s\<lparr>ts_store := ts_store s1\<rparr>"
      and L: "tledger C s1 = \<lparr>claims_of = (claims_of (tledger C s)) (sub \<mapsto> c),
        rows_of = rows_of (tledger C s) @ rows\<rparr>"
    from out True sub cl res have s': "s' = s1" and reply: "reply = \<lparr>tp_status = 201,
        tp_body = TBClaimed \<lparr>tc_subdomain = cl_subdomain c, tc_token = token,
          tc_revision = cl_revision c, tc_created_at = cl_created_at c\<rparr>\<rparr>"
      by (auto simp: api_claim_def write_tunnel_json_def)
    have "ts_registry s1 = ts_registry s" by (subst s1) simp
    with c L show ?thesis unfolding s' reply api_issued_def by (intro disjI2 exI conjI) simp_all
  qed
qed

lemma api_revoke_effect:
  assumes ok: "tsql_ok C (ts_store s)" and live: "tsql.live_active C s"
  shows "\<exists>s' reply. api_revoke J (tsql_ops C) io1 io2 now r sub s = Some (s', reply)
    \<and> (api_read C s r s' reply \<or> api_revoked C now s s' reply)"
proof (cases "require_json J r \<and> decode_management (read_revoke J) (aq_body r) \<noteq> None")
  case False
  then show ?thesis by (auto simp: api_revoke_def intro!: api_read_refused split: option.split)
next
  case True
  then obtain x where x: "decode_management (read_revoke J) (aq_body r) = Some x" by blast
  obtain s1 res where rv: "revoke_tunnel (tsql_ops C) io1 io2 now sub x s = Some (s1, res)" and
    effect: "(tsql.unchanged C s s1 \<and> (\<exists>e. res = Inl e)) \<or>
      (\<exists>c. claims_of (tledger C s) sub = Some c \<and> \<not> cl_revoked c \<and> res = Inr (revoked_claim now c) \<and>
         claims_of (tledger C s1) = (claims_of (tledger C s)) (sub \<mapsto> revoked_claim now c) \<and>
         (\<forall>sub'. map_get (ts_registry s1) sub' = (if sub' = sub then None else map_get (ts_registry s) sub')))"
    using tsql.revoke_outcome [OF ok tsql.live_activeD [OF live], of io1 io2 now sub x] by force
  from effect show ?thesis
  proof (elim disjE conjE exE)
    fix e assume "tsql.unchanged C s s1" "res = Inl e"
    with True x rv show ?thesis
      by (auto simp: api_revoke_def tsql.unchanged_def intro!: api_read_error)
  next
    fix c assume c: "claims_of (tledger C s) sub = Some c" "\<not> cl_revoked c" "res = Inr (revoked_claim now c)"
      "claims_of (tledger C s1) = (claims_of (tledger C s)) (sub \<mapsto> revoked_claim now c)"
      "\<forall>sub'. map_get (ts_registry s1) sub' = (if sub' = sub then None else map_get (ts_registry s) sub')"
    have "api_revoked C now s s1 (write_tunnel_json 200 body)" for body
      unfolding api_revoked_def using c
      by (intro exI [of _ sub] exI [of _ c] conjI) (simp_all add: write_tunnel_json_def)
    with True x rv c(3) show ?thesis by (simp add: api_revoke_def)
  qed
qed

lemma api_read_list: "aq_method r \<noteq> ''POST'' \<Longrightarrow> api_read C s r s (api_list_tunnels S io s)"
  using policy_error_reply(2)
  by (auto simp: api_read_def api_list_tunnels_def write_tunnel_json_def split: sum.splits)

lemma api_read_audit: "aq_method r \<noteq> ''POST'' \<Longrightarrow> api_read C s r s (api_list_audit D io r s)"
  using policy_error_reply(2)
  by (auto simp: api_read_def api_list_audit_def write_tunnel_json_def split: sum.splits)

lemma tunnel_route_method:
  "route_in tunnel_routes False m xs = Routed h vals \<Longrightarrow>
     (if h \<in> {HandleClaim, HandleRevoke} then m = ''POST'' else m \<noteq> ''POST'')"
  by (drule route_in_mem) (auto simp: tunnel_routes_def serves_def)


text \<open>An operator claims a subdomain.\<close>

definition operator_json :: tunnel_json where
  "operator_json = \<lparr>read_claim = (\<lambda>body. Some (body, [])), read_revoke = (\<lambda>body. None),
     media_type = Some\<rparr>"

definition operator_request :: api_request where
  "operator_request = \<lparr>aq_method = ''POST'', aq_segments = [''v1'', ''tunnels''],
     aq_header = [(''Authorization'', [''Bearer a'']), (''Content-Type'', [''application/json''])],
     aq_limit = [], aq_body = ''acme''\<rparr>"

definition operator_server :: tunnel_server where
  "operator_server = \<lparr>tsrv_admin = ''a'', tsrv_read = ''r''\<rparr>"

lemma operator_server_new: "new_tunnel_server True ''a'' ''r'' = Inr operator_server"
  by (simp add: new_tunnel_server_Inr operator_server_def not_blank_ascii byte_def is_space_def)


end
