(* ===== verification/Tunnel_Edge.thy ===== *)
theory Tunnel_Edge
  imports Tunnel_Net Tunnel_Registry
begin

text \<open>
  The public edge: \<^verbatim>\<open>internal/edge/proxy.go\<close> and \<^verbatim>\<open>observe.go\<close>. The reverse proxy of the standard
  library, with the transport and the agent behind it, is a parameter: given the resolved route it
  makes some calls on the response writer and returns or panics.
\<close>

section \<open>The response recorder\<close>

text \<open>
  The calls a handler makes on its response writer; \<open>WSet\<close> sets a header. \<^verbatim>\<open>Write\<close> reports how many bytes the connection
  took; a hijack succeeds or fails.
\<close>

datatype writer_call = WSet string string | WHeader int | WWrite string | WFlush | WHijack bool

record recorder =
  rec_status :: int
  rec_bytes :: int
  rec_upgraded :: bool
  rec_wrote :: bool
  rec_passed :: "writer_call list"

definition new_recorder :: recorder where
  "new_recorder = \<lparr>rec_status = 0, rec_bytes = 0, rec_upgraded = False, rec_wrote = False, rec_passed = []\<rparr>"

definition informational :: "int \<Rightarrow> bool" where
  "informational status \<longleftrightarrow> status \<ge> 100 \<and> status < 200 \<and> status \<noteq> 101"

definition record_header :: "int \<Rightarrow> recorder \<Rightarrow> recorder" where
  "record_header status r =
     (let r1 = (if \<not> rec_wrote r \<and> \<not> informational status
          then r\<lparr>rec_status := status, rec_wrote := True\<rparr> else r)
      in r1\<lparr>rec_passed := rec_passed r1 @ [WHeader status]\<rparr>)"

definition record_write :: "(string \<Rightarrow> int) \<Rightarrow> string \<Rightarrow> recorder \<Rightarrow> recorder" where
  "record_write taken p r =
     (let r1 = (if \<not> rec_wrote r then r\<lparr>rec_status := 200, rec_wrote := True\<rparr> else r)
      in r1\<lparr>rec_passed := rec_passed r1 @ [WWrite p], rec_bytes := wrap64 (rec_bytes r1 + taken p)\<rparr>)"

definition record_set :: "string \<Rightarrow> string \<Rightarrow> recorder \<Rightarrow> recorder" where
  "record_set name v r = r\<lparr>rec_passed := rec_passed r @ [WSet name v]\<rparr>"

definition record_flush :: "recorder \<Rightarrow> recorder" where
  "record_flush r = r\<lparr>rec_passed := rec_passed r @ [WFlush]\<rparr>"

definition record_hijack :: "bool \<Rightarrow> recorder \<Rightarrow> recorder" where
  "record_hijack fine r =
     (let r1 = r\<lparr>rec_passed := rec_passed r @ [WHijack fine]\<rparr> in
      if fine
      then (let r2 = r1\<lparr>rec_upgraded := True\<rparr> in
            if \<not> rec_wrote r2 then r2\<lparr>rec_status := 101, rec_wrote := True\<rparr> else r2)
      else r1)"

fun record_call :: "(string \<Rightarrow> int) \<Rightarrow> writer_call \<Rightarrow> recorder \<Rightarrow> recorder" where
  "record_call taken (WSet name v) r = record_set name v r"
| "record_call taken (WHeader status) r = record_header status r"
| "record_call taken (WWrite p) r = record_write taken p r"
| "record_call taken WFlush r = record_flush r"
| "record_call taken (WHijack fine) r = record_hijack fine r"

definition record_calls :: "(string \<Rightarrow> int) \<Rightarrow> writer_call list \<Rightarrow> recorder" where
  "record_calls taken calls = fold (record_call taken) calls new_recorder"

text \<open>What the visitor is answered, read off the calls the writer gets: the first final status.\<close>

fun answered :: "writer_call list \<Rightarrow> int" where
  "answered [] = 0"
| "answered (WSet name v # calls) = answered calls"
| "answered (WHeader status # calls) = (if informational status then answered calls else status)"
| "answered (WWrite p # calls) = 200"
| "answered (WFlush # calls) = answered calls"
| "answered (WHijack fine # calls) = (if fine then 101 else answered calls)"

fun writer_bytes :: "(string \<Rightarrow> int) \<Rightarrow> writer_call list \<Rightarrow> int" where
  "writer_bytes taken [] = 0"
| "writer_bytes taken (WWrite p # calls) = taken p + writer_bytes taken calls"
| "writer_bytes taken (_ # calls) = writer_bytes taken calls"

lemmas record_defs = record_set_def record_header_def record_write_def record_flush_def record_hijack_def

lemma record_fold_wrote:
  "rec_wrote r \<Longrightarrow> rec_status (fold (record_call taken) calls r) = rec_status r"
proof (induction calls arbitrary: r)
  case (Cons c calls)
  then show ?case by (cases c) (simp_all add: record_defs Let_def)
qed simp

lemma record_fold_status:
  "\<not> rec_wrote r \<Longrightarrow> rec_status r = 0 \<Longrightarrow> rec_status (fold (record_call taken) calls r) = answered calls"
proof (induction calls arbitrary: r)
  case (Cons c calls)
  then show ?case by (cases c) (simp_all add: record_defs Let_def record_fold_wrote)
qed simp

lemma record_fold_passed:
  "rec_passed (fold (record_call taken) calls r) = rec_passed r @ calls"
proof (induction calls arbitrary: r)
  case (Cons c calls)
  then show ?case by (cases c) (simp_all add: record_defs Let_def)
qed simp

lemma record_fold_upgraded:
  "rec_upgraded (fold (record_call taken) calls r) \<longleftrightarrow> rec_upgraded r \<or> WHijack True \<in> set calls"
proof (induction calls arbitrary: r)
  case (Cons c calls)
  then show ?case by (cases c) (auto simp: record_defs Let_def)
qed simp

lemma record_fold_bytes:
  "rec_bytes r = wrap64 n \<Longrightarrow>
     rec_bytes (fold (record_call taken) calls r) = wrap64 (n + writer_bytes taken calls)"
proof (induction calls arbitrary: r n)
  case (Cons c calls)
  show ?case
  proof (cases c)
    case (WWrite p)
    have "rec_bytes (record_write taken p r) = wrap64 (n + taken p)"
      using Cons.prems by (simp add: record_defs Let_def wrap64_wrap64_add)
    from Cons.IH [OF this] WWrite show ?thesis by (simp add: add.assoc)
  qed (use Cons in \<open>simp_all add: record_defs Let_def\<close>)
qed simp

lemma record_calls_faithful:
  "rec_passed (record_calls taken calls) = calls"
  "rec_status (record_calls taken calls) = answered calls"
  "rec_upgraded (record_calls taken calls) \<longleftrightarrow> WHijack True \<in> set calls"
  "rec_bytes (record_calls taken calls) = wrap64 (writer_bytes taken calls)"
  using record_fold_bytes [of new_recorder 0 taken calls]
  by (simp_all add: wrap64_id record_calls_def record_fold_passed record_fold_status record_fold_upgraded new_recorder_def)

section \<open>The edge\<close>

datatype edge_error = EdgeRequired | EdgeProtocol | EdgeTimeout | EdgeNoRoute | EdgeOpen

record edge =
  edge_domain :: string
  edge_forward :: string

text \<open>\<open>given\<close> says that a router, an observer and a logger were passed.\<close>

definition new_edge :: "(string \<Rightarrow> string) \<Rightarrow> string \<Rightarrow> bool \<Rightarrow> string \<Rightarrow> int \<Rightarrow> edge_error + edge" where
  "new_edge unicode domain given forward timeout =
     (if blank domain \<or> \<not> given then Inl EdgeRequired
      else if forward \<noteq> ''http'' \<and> forward \<noteq> ''https'' then Inl EdgeProtocol
      else if timeout \<le> 0 then Inl EdgeTimeout
      else Inr \<lparr>edge_domain = to_lower unicode domain, edge_forward = forward\<rparr>)"

record observation =
  obs_subdomain :: string
  obs_method :: string
  obs_status :: int
  obs_bytes :: int
  obs_upgraded :: bool
  obs_aborted :: bool
  obs_peer :: string

definition error_body :: "string \<Rightarrow> string" where
  "error_body message = ''{'' @ [CHR 0x22] @ ''error'' @ [CHR 0x22] @ '':'' @ [CHR 0x22] @ message @ [CHR 0x22] @ ''}'' @ [CHR 0x0A]"

definition refuse :: "int \<Rightarrow> string \<Rightarrow> writer_call list" where
  "refuse status message =
     [WSet ''Content-Type'' ''application/json'', WHeader status, WWrite (error_body message)]"

text \<open>
  \<^verbatim>\<open>serve\<close>: the calls made on the writer, whether the standard proxy panicked, and the route whose
  link the request may use.
\<close>

definition serve_route ::
  "(string \<Rightarrow> 'l \<Rightarrow> writer_call list \<times> bool) \<Rightarrow> string \<Rightarrow> 'l registry \<Rightarrow>
     writer_call list \<times> bool \<times> (string \<times> 'l) option" where
  "serve_route proxy subdomain table =
     (case registry_lookup subdomain table of
        None \<Rightarrow> (refuse 502 ''no agent is connected for this host'', False, None)
      | Some link \<Rightarrow> (case proxy subdomain link of (calls, aborted) \<Rightarrow> (calls, aborted, Some (subdomain, link))))"

definition observe :: "request \<Rightarrow> string \<Rightarrow> recorder \<Rightarrow> bool \<Rightarrow> observation" where
  "observe r subdomain recorded aborted =
     \<lparr>obs_subdomain = subdomain, obs_method = rq_method r, obs_status = rec_status recorded,
      obs_bytes = rec_bytes recorded, obs_upgraded = rec_upgraded recorded, obs_aborted = aborted,
      obs_peer = rq_remote r\<rparr>"

record 'l edge_reply =
  reply_calls :: "writer_call list"
  reply_route :: "(string \<times> 'l) option"
  reply_panics :: bool
  reply_observed :: "observation list"

text \<open>\<^verbatim>\<open>ServeHTTP\<close>; a panic of the proxy goes on after the observation.\<close>

definition edge_serve ::
  "(string \<Rightarrow> string) \<Rightarrow> edge \<Rightarrow> (string \<Rightarrow> 'l \<Rightarrow> writer_call list \<times> bool) \<Rightarrow> (string \<Rightarrow> int) \<Rightarrow>
     'l registry \<Rightarrow> request \<Rightarrow> 'l edge_reply" where
  "edge_serve unicode E proxy taken table r =
     (let resolved = host_subdomain unicode (rq_host r) (edge_domain E);
          subdomain = (case resolved of None \<Rightarrow> [] | Some s \<Rightarrow> s);
          (calls, aborted, route) = (case resolved of
              None \<Rightarrow> (refuse 404 ''no tunnel is served at this host'', False, None)
            | Some s \<Rightarrow> serve_route proxy s table);
          recorded = record_calls taken calls
      in \<lparr>reply_calls = rec_passed recorded, reply_route = route, reply_panics = aborted,
          reply_observed = [observe r subdomain recorded aborted]\<rparr>)"

text \<open>The dial of one request: a stream of the link its route carries, and no other.\<close>

record 'e stream_open =
  so_subdomain :: string
  so_err :: "'e option"

definition dial_route ::
  "('l \<Rightarrow> 'e + 'c) \<Rightarrow> (string \<times> 'l) option \<Rightarrow> 'e stream_open list \<times> (edge_error + 'c)" where
  "dial_route link_open route =
     (case route of
        None \<Rightarrow> ([], Inl EdgeNoRoute)
      | Some (subdomain, link) \<Rightarrow>
          (case link_open link of
             Inl e \<Rightarrow> ([\<lparr>so_subdomain = subdomain, so_err = Some e\<rparr>], Inl EdgeOpen)
           | Inr conn \<Rightarrow> ([\<lparr>so_subdomain = subdomain, so_err = None\<rparr>], Inr conn)))"

text \<open>\<^verbatim>\<open>upstreamError\<close>: a visitor who went away is not answered.\<close>

definition upstream_error :: "bool \<Rightarrow> writer_call list" where
  "upstream_error canceled = (if canceled then [] else refuse 502 ''the agent did not answer'')"

section \<open>Forwarded headers\<close>

definition forwarding_aliases :: "string list" where
  "forwarding_aliases = [''Forwarded'', ''X-Real-IP'', ''X-Client-IP'', ''Client-IP'', ''True-Client-IP'',
     ''CF-Connecting-IP'', ''CF-Connecting-IPv6'', ''Fastly-Client-IP'',
     ''X-Cluster-Client-IP'', ''X-Originating-IP'', ''X-Remote-IP'', ''X-Remote-Addr'',
     ''X-Original-Forwarded-For'', ''Front-End-Https'', ''X-Url-Scheme'']"

definition strip_prefixed :: "(string \<Rightarrow> string) \<Rightarrow> header \<Rightarrow> header" where
  "strip_prefixed unicode h =
     fold (\<lambda>name acc. if has_prefix (to_lower unicode name) ''x-forwarded-'' then header_del name acc else acc)
       (map_keys h) h"

definition strip_forwarding_aliases :: "(string \<Rightarrow> string) \<Rightarrow> header \<Rightarrow> header" where
  "strip_forwarding_aliases unicode h = fold header_del forwarding_aliases (strip_prefixed unicode h)"

definition trusted_forwarded_for :: "request \<Rightarrow> string list" where
  "trusted_forwarded_for inr =
     (if loopback_address (rq_remote inr) then header_values (rq_header inr) ''X-Forwarded-For'' else [])"

text \<open>\<^verbatim>\<open>rewrite\<close>: \<open>inr\<close> is the visitor's request, \<open>out\<close> the copy the standard proxy prepared.\<close>

definition edge_rewrite ::
  "(string \<Rightarrow> string) \<Rightarrow> edge \<Rightarrow> bool \<Rightarrow> string \<Rightarrow> request \<Rightarrow> request \<Rightarrow> request" where
  "edge_rewrite unicode E tls subdomain inr out =
     (let out1 = set_url \<lparr>url_scheme = ''http'', url_host = subdomain @ ''.tunnel.internal'',
            url_path = [], url_query = []\<rparr> out;
          out2 = out1\<lparr>rq_host := rq_host inr\<rparr>;
          h1 = strip_forwarding_aliases unicode (rq_header out2);
          chain = trusted_forwarded_for inr;
          h2 = (if chain \<noteq> [] then map_put ''X-Forwarded-For'' chain h1 else h1);
          h3 = set_x_forwarded tls inr h2;
          h4 = header_set ''X-Forwarded-Proto'' (edge_forward E) h3
      in out2\<lparr>rq_header := h4\<rparr>)"

section \<open>What the edge answers and observes\<close>

lemma edge_serve_cases:
  "edge_serve unicode E proxy taken table r =
     (case host_subdomain unicode (rq_host r) (edge_domain E) of
        None \<Rightarrow>
          \<lparr>reply_calls = refuse 404 ''no tunnel is served at this host'', reply_route = None, reply_panics = False,
           reply_observed =
             [observe r [] (record_calls taken (refuse 404 ''no tunnel is served at this host'')) False]\<rparr>
      | Some s \<Rightarrow> (case serve_route proxy s table of (calls, aborted, route) \<Rightarrow>
          \<lparr>reply_calls = calls, reply_route = route, reply_panics = aborted,
           reply_observed = [observe r s (record_calls taken calls) aborted]\<rparr>))"
  by (simp add: edge_serve_def record_calls_faithful Let_def split: option.split prod.split)


end
