(* ===== verification/Tunnel_Reconnect.thy ===== *)
theory Tunnel_Reconnect
  imports Go_Prelude
begin

text \<open>
  The reconnect schedule of the agent: \<^verbatim>\<open>internal/tunnel/reconnect.go\<close>. A duration is its
  nanoseconds. \<^verbatim>\<open>time.ParseDuration\<close> (whose fractions go through floating point) is the parameter
  \<open>parse\<close>. Reading a slice out of range panics: \<open>slice_get\<close> is \<open>None\<close> there.
\<close>

datatype schedule_error =
  ScheduleEmpty | DelayNotPositive | DurationPadded string | DurationSyntax string | DurationNotPositive string

definition second :: int where
  "second = 1000000000"

definition default_reconnect_delays :: "int list" where
  "default_reconnect_delays = [second, 2 * second, 5 * second, 10 * second, 30 * second]"

definition new_schedule :: "int list \<Rightarrow> schedule_error + int list" where
  "new_schedule delays =
     (if length delays = 0 then Inl ScheduleEmpty
      else case first_error 0 (\<lambda>_ d. when_err (d \<le> 0) DelayNotPositive) delays of
        Some e \<Rightarrow> Inl e
      | None \<Rightarrow> Inr ([] @ delays))"

definition slice_get :: "'a list \<Rightarrow> int \<Rightarrow> 'a option" where
  "slice_get xs i = (if 0 \<le> i \<and> i < int (length xs) then Some (xs ! nat i) else None)"

definition schedule_delay :: "int list \<Rightarrow> int \<Rightarrow> int option" where
  "schedule_delay delays attempt =
     (let attempt = (if attempt < 1 then 1 else attempt)
      in if attempt > int (length delays) then slice_get delays (int (length delays) - 1)
         else slice_get delays (attempt - 1))"

definition parse_duration :: "(string \<Rightarrow> int option) \<Rightarrow> string \<Rightarrow> string \<Rightarrow> schedule_error + int" where
  "parse_duration parse name raw =
     (if trim_space raw \<noteq> raw \<or> raw = [] then Inl (DurationPadded name)
      else case parse raw of
        None \<Rightarrow> Inl (DurationSyntax name)
      | Some d \<Rightarrow> if d \<le> 0 then Inl (DurationNotPositive name) else Inr d)"

fun parse_parts ::
  "(string \<Rightarrow> int option) \<Rightarrow> string \<Rightarrow> string list \<Rightarrow> int list \<Rightarrow> schedule_error + int list" where
  "parse_parts parse name [] delays = Inr delays"
| "parse_parts parse name (part # parts) delays =
     (case parse_duration parse name part of
        Inl e \<Rightarrow> Inl e
      | Inr d \<Rightarrow> parse_parts parse name parts (delays @ [d]))"

definition parse_delays :: "(string \<Rightarrow> int option) \<Rightarrow> string \<Rightarrow> string \<Rightarrow> schedule_error + int list" where
  "parse_delays parse name raw = parse_parts parse name (split_on CHR '','' raw) []"

text \<open>A duration of the environment that is set replaces the default.\<close>

definition duration_or ::
  "(string \<Rightarrow> int option) \<Rightarrow> (string \<Rightarrow> string) \<Rightarrow> string \<Rightarrow> int \<Rightarrow> schedule_error + int" where
  "duration_or parse getenv name fallback =
     (let raw = getenv name in if raw \<noteq> [] then parse_duration parse name raw else Inr fallback)"

lemma parse_duration_positive: "parse_duration parse name raw = Inr d \<Longrightarrow> 0 < d"
  by (auto simp: parse_duration_def split: if_splits option.splits)

lemma duration_or_positive: "duration_or parse getenv name fallback = Inr d \<Longrightarrow> 0 < fallback \<Longrightarrow> 0 < d"
  by (auto simp: duration_or_def Let_def dest: parse_duration_positive split: if_splits)

lemma new_schedule_Inr: "new_schedule ds = Inr s \<longleftrightarrow> ds \<noteq> [] \<and> (\<forall>d \<in> set ds. 0 < d) \<and> s = ds"
proof -
  have "first_error 0 (\<lambda>_ d. when_err (d \<le> 0) DelayNotPositive) ds = None \<longleftrightarrow> (\<forall>d \<in> set ds. 0 < d)"
    by (auto simp: check_simps)
  then show ?thesis by (auto simp: new_schedule_def split: option.split)
qed

lemma parse_parts_Inr:
  "parse_parts parse name parts acc = Inr ds \<Longrightarrow> \<forall>d \<in> set acc. 0 < d \<Longrightarrow>
     (\<forall>d \<in> set ds. 0 < d) \<and> length ds = length acc + length parts"
proof (induction parts arbitrary: acc)
  case (Cons part parts)
  obtain d where d: "parse_duration parse name part = Inr d"
    "parse_parts parse name parts (acc @ [d]) = Inr ds"
    using Cons.prems(1) by (cases "parse_duration parse name part") auto
  from d(1) have "0 < d" by (auto simp: parse_duration_def split: if_splits option.splits)
  with Cons.prems(2) have "\<forall>x \<in> set (acc @ [d]). 0 < x" by simp
  from Cons.IH [OF d(2) this] show ?case by simp
qed simp

lemma schedule_delay_total:
  assumes "s \<noteq> []"
  shows "schedule_delay s attempt =
    Some (if attempt < 1 then hd s else if attempt > int (length s) then last s else s ! nat (attempt - 1))"
proof -
  have pos: "0 < length s" using assms by simp
  consider "attempt < 1" | "int (length s) < attempt" "1 \<le> attempt" | "1 \<le> attempt" "attempt \<le> int (length s)"
    by linarith
  then show ?thesis
  proof cases
    case 1
    with pos show ?thesis by (simp add: schedule_delay_def slice_get_def hd_conv_nth assms)
  next
    case 2
    moreover have "nat (int (length s) - 1) = length s - 1" by simp
    ultimately show ?thesis using pos by (simp add: schedule_delay_def slice_get_def last_conv_nth assms)
  next
    case 3
    then show ?thesis by (simp add: schedule_delay_def slice_get_def)
  qed
qed

text \<open>
  a configured schedule is usable forever. Whatever text \<^verbatim>\<open>ParseDelays\<close> accepts, whatever
  \<^verbatim>\<open>time.ParseDuration\<close> does, is a schedule \<^verbatim>\<open>NewSchedule\<close> accepts, with one delay per part;
  \<^verbatim>\<open>Delay\<close> of it never reads out of range for any attempt (zero and negative ones included),
  always waits a positive time, and from the last entry on stays at the last delay.
\<close>

theorem parsed_schedule_usable:
  assumes "parse_delays parse name raw = Inr ds"
  shows "new_schedule ds = Inr ds \<and> length ds = length (split_on CHR '','' raw) \<and>
    (\<forall>attempt. \<exists>d. schedule_delay ds attempt = Some d \<and> 0 < d \<and> d \<in> set ds \<and>
      (int (length ds) \<le> attempt \<longrightarrow> d = last ds))"
proof -
  have pos: "\<forall>d \<in> set ds. 0 < d" and len: "length ds = length (split_on CHR '','' raw)"
    using assms parse_parts_Inr [of parse name _ "[]" ds] by (auto simp: parse_delays_def)
  moreover have ne: "ds \<noteq> []" using len by auto
  moreover have "\<exists>d. schedule_delay ds attempt = Some d \<and> d \<in> set ds \<and>
      (int (length ds) \<le> attempt \<longrightarrow> d = last ds)" for attempt
  proof -
    have "nat (attempt - 1) < length ds" if "1 \<le> attempt" "attempt \<le> int (length ds)"
      using that by linarith
    moreover have "ds ! nat (attempt - 1) = last ds" if "attempt = int (length ds)"
    proof -
      have "nat (attempt - 1) = length ds - 1" using that ne by simp
      then show ?thesis using ne by (simp add: last_conv_nth)
    qed
    moreover have "0 < length ds" using ne by simp
    ultimately show ?thesis using ne by (auto simp: schedule_delay_total [OF ne])
  qed
  ultimately show ?thesis by (metis new_schedule_Inr)
qed

definition sample_durations :: "string \<Rightarrow> int option" where
  "sample_durations s = (if s = ''1s'' then Some second else if s = ''5s'' then Some (5 * second) else None)"

theorem parsed_schedule_usable_witness:
  "\<exists>d. schedule_delay [second, 5 * second] 12 = Some d \<and> 0 < d \<and> d = 5 * second"
proof -
  have "parse_delays sample_durations ''REAPER_RECONNECT'' ''1s,5s'' = Inr [second, 5 * second]"
    by (simp add: parse_delays_def parse_duration_def sample_durations_def trim_space_def is_space_def second_def
        decode_rune_ascii byte_def)
  from parsed_schedule_usable [OF this] show ?thesis by (fastforce dest: spec [of _ 12])
qed

end
