(* ===== verification/Tunnel_Link.thy ===== *)
theory Tunnel_Link
  imports Tunnel_Net Tunnel_Service Tunnel_Reconnect
begin

text \<open>
  The control connection: \<^verbatim>\<open>internal/link/link.go\<close>, \<^verbatim>\<open>dial.go\<close> and the request side of \<^verbatim>\<open>accept.go\<close>. The
  WebSocket and the multiplexer are third-party: what they return is an argument. The handler's
  goroutines and its shutdown are in \<open>Tunnel_Shutdown\<close>.
\<close>

section \<open>Close codes\<close>

definition status_superseded :: int where
  "status_superseded = 4001"

definition status_revoked :: int where
  "status_revoked = 4003"

definition status_going_away :: int where
  "status_going_away = 1001"

definition close_status :: "close_reason \<Rightarrow> int" where
  "close_status reason =
     (case reason of CloseSuperseded \<Rightarrow> status_superseded
      | CloseRevoked \<Rightarrow> status_revoked
      | CloseShutdown \<Rightarrow> status_going_away)"

text \<open>
  The errors of the agent side. \<^verbatim>\<open>Permanent\<close> is a method of two of them; \<^verbatim>\<open>errors.As\<close> finds it below a
  wrapping.
\<close>

datatype link_error = LinkRejected int | LinkEvicted close_reason | LinkFailed string

definition rejected_permanent :: "int \<Rightarrow> bool" where
  "rejected_permanent status \<longleftrightarrow> status = 401 \<or> status = 403 \<or> status = 409"

definition permanent :: "link_error option \<Rightarrow> bool" where
  "permanent err =
     (case err of None \<Rightarrow> False
      | Some (LinkRejected status) \<Rightarrow> rejected_permanent status
      | Some (LinkEvicted reason) \<Rightarrow> True
      | Some (LinkFailed m) \<Rightarrow> False)"

text \<open>
  The connection under the multiplexer remembers the first read failure; \<open>code\<close> is
  \<^verbatim>\<open>websocket.CloseStatus\<close>, -1 for no close frame.
\<close>

record 'e observed_conn =
  oc_read_err :: "'e option"

definition observed_read :: "nat \<times> 'e option \<Rightarrow> 'e observed_conn \<Rightarrow> 'e observed_conn \<times> nat \<times> 'e option" where
  "observed_read result conn =
     (case snd result of
        None \<Rightarrow> (conn, result)
      | Some err \<Rightarrow>
          (if oc_read_err conn = None then conn\<lparr>oc_read_err := Some err\<rparr> else conn, result))"

definition observed_close_status :: "('e option \<Rightarrow> int) \<Rightarrow> 'e observed_conn \<Rightarrow> int" where
  "observed_close_status code conn = code (oc_read_err conn)"

definition listener_reason :: "('e option \<Rightarrow> int) \<Rightarrow> 'e observed_conn \<Rightarrow> link_error option" where
  "listener_reason code conn =
     (let status = observed_close_status code conn in
      if status = status_superseded then Some (LinkEvicted CloseSuperseded)
      else if status = status_revoked then Some (LinkEvicted CloseRevoked)
      else None)"

text \<open>The reason an eviction is given is the reason the agent stops for; a shutdown is no eviction.\<close>

lemma observed_first_error:
  "oc_read_err conn = Some e \<Longrightarrow> oc_read_err (fst (observed_read result conn)) = Some e"
  by (auto simp: observed_read_def split: option.split)

lemma close_reason_reaches_agent:
  assumes "oc_read_err conn = None" and "code (Some e) = close_status reason"
  shows "listener_reason code (fst (observed_read (n, Some e) conn)) =
    (if reason = CloseShutdown then None else Some (LinkEvicted reason))"
  using assms by (cases reason)
    (simp_all add: observed_read_def listener_reason_def observed_close_status_def close_status_def
      status_superseded_def status_revoked_def status_going_away_def)

text \<open>
  \<^verbatim>\<open>Listener.Close\<close>: the errors of the multiplexer and of the socket, joined; \<open>closed\<close> is
  \<^verbatim>\<open>errors.Is(err, net.ErrClosed)\<close>, for a socket that had ended already. No error is the empty list.
\<close>

definition listener_close :: "('e \<Rightarrow> bool) \<Rightarrow> 'e option \<Rightarrow> 'e option \<Rightarrow> 'e list" where
  "listener_close closed mux socket =
     (case mux of None \<Rightarrow> [] | Some e \<Rightarrow> [e])
     @ (case socket of None \<Rightarrow> [] | Some e \<Rightarrow> if closed e then [] else [e])"

section \<open>Configuration and dialing\<close>

record link_config =
  lc_keep_alive :: int
  lc_write_timeout :: int

definition default_link_config :: link_config where
  "default_link_config = \<lparr>lc_keep_alive = 10 * second, lc_write_timeout = 10 * second\<rparr>"

definition validate_link_config :: "link_config \<Rightarrow> bool" where
  "validate_link_config c \<longleftrightarrow> \<not> (lc_keep_alive c \<le> 0 \<or> lc_write_timeout c \<le> 0)"

text \<open>\<^verbatim>\<open>Config.yamux\<close>: what the link sets in the multiplexer's configuration; the rest is the library's default.\<close>

record mux_config =
  mc_enable_keep_alive :: bool
  mc_keep_alive :: int
  mc_write_timeout :: int

definition mux_config_of :: "link_config \<Rightarrow> mux_config" where
  "mux_config_of c =
     \<lparr>mc_enable_keep_alive = True, mc_keep_alive = lc_keep_alive c, mc_write_timeout = lc_write_timeout c\<rparr>"

datatype dialer_error =
  DialerUrl | DialerScheme | DialerHost | DialerToken | DialerTimeout | DialerConfig

record dialer =
  dl_endpoint :: url
  dl_token :: string
  dl_timeout :: int
  dl_config :: link_config

text \<open>\<open>parse\<close> is \<^verbatim>\<open>net/url.Parse\<close>; the endpoint is kept as its parts.\<close>

definition new_dialer ::
  "(string \<Rightarrow> url option) \<Rightarrow> string \<Rightarrow> string \<Rightarrow> int \<Rightarrow> link_config \<Rightarrow> dialer_error + dialer" where
  "new_dialer parse server token timeout configuration =
     (case parse server of
        None \<Rightarrow> Inl DialerUrl
      | Some parsed \<Rightarrow>
        if url_scheme parsed \<noteq> ''http'' \<and> url_scheme parsed \<noteq> ''https'' then Inl DialerScheme
        else if url_host parsed = [] then Inl DialerHost
        else if blank token then Inl DialerToken
        else if timeout \<le> 0 then Inl DialerTimeout
        else if \<not> validate_link_config configuration then Inl DialerConfig
        else Inr \<lparr>dl_endpoint = parsed\<lparr>url_path := trim_suffix (url_path parsed) ''/'' @ ''/v1/connect'',
                     url_query := []\<rparr>,
                  dl_token = token, dl_timeout = timeout, dl_config = configuration\<rparr>)"

text \<open>
  What \<^verbatim>\<open>websocket.Dial\<close> returns: an error or a socket, and the server's status when it answered.
  \<open>mux\<close> says whether the multiplexer could be set up.
\<close>

record ws_dial =
  ws_status :: "int option"
  ws_fails :: bool

definition dial_outcome :: "ws_dial \<Rightarrow> bool \<Rightarrow> link_error option" where
  "dial_outcome w mux =
     (case ws_status w of
        Some status \<Rightarrow>
          if ws_fails w \<and> status \<noteq> 101 then Some (LinkRejected status)
          else if ws_fails w then Some (LinkFailed ''dial tunnel server'')
          else if \<not> mux then Some (LinkFailed ''multiplex tunnel link'') else None
      | None \<Rightarrow>
          if ws_fails w then Some (LinkFailed ''dial tunnel server'')
          else if \<not> mux then Some (LinkFailed ''multiplex tunnel link'') else None)"

definition dial_header :: "dialer \<Rightarrow> header" where
  "dial_header d = header_set ''Authorization'' (''Bearer '' @ dl_token d) []"

section \<open>The connect route\<close>

definition link_bearer :: "request \<Rightarrow> string \<times> bool" where
  "link_bearer r =
     (let v = header_get (rq_header r) ''Authorization'' in
      if \<not> has_prefix v ''Bearer '' then ([], False)
      else let token = trim_prefix v ''Bearer '' in (token, token \<noteq> []))"

datatype connect_reply = Refuse int | Upgrade claim

definition is_conflict :: "tunnel_error \<Rightarrow> bool" where
  "is_conflict e = (case e of TConflict _ \<Rightarrow> True | _ \<Rightarrow> False)"

definition is_unauthorized :: "tunnel_error \<Rightarrow> bool" where
  "is_unauthorized e = (case e of TUnauthorized _ \<Rightarrow> True | _ \<Rightarrow> False)"

definition is_revoked :: "tunnel_error \<Rightarrow> bool" where
  "is_revoked e = (case e of TRevoked _ \<Rightarrow> True | _ \<Rightarrow> False)"

text \<open>\<^verbatim>\<open>ServeHTTP\<close> up to the upgrade.\<close>

definition connect_reply_for :: "bool \<Rightarrow> (string \<Rightarrow> tunnel_error + claim) \<Rightarrow> request \<Rightarrow> connect_reply" where
  "connect_reply_for closing authenticate_with r =
     (if closing then Refuse 503
      else case link_bearer r of (token, found) \<Rightarrow>
        if \<not> found then Refuse 401
        else case authenticate_with token of
          Inr c \<Rightarrow> Upgrade c
        | Inl err \<Rightarrow>
            if is_unauthorized err then Refuse 401
            else if is_conflict err then Refuse 409
            else Refuse 500)"

definition close_reason_for :: "tunnel_error \<Rightarrow> close_reason" where
  "close_reason_for err = (if is_revoked err \<or> is_unauthorized err then CloseRevoked else CloseShutdown)"

text \<open>The dialer's request carries the token the connect route reads, and nothing else is read.\<close>

lemma bearer_of_dial:
  assumes "dl_token d \<noteq> []" and "rq_header r = dial_header d"
  shows "link_bearer r = (dl_token d, True)"
proof -
  have "canonical_key ''Authorization'' = ''Authorization''" by code_simp
  with assms show ?thesis
    by (simp add: link_bearer_def dial_header_def header_get_def header_values_def header_set_def
        has_prefix_def trim_prefix_def Let_def)
qed

text \<open>
  The refusal an agent gets is permanent exactly when the credential is unusable or another agent
  holds the claim; a server that shuts down or fails is tried again.
\<close>

lemma refusal_permanence:
  assumes "connect_reply_for closing A r = Refuse status"
  shows "rejected_permanent status \<longleftrightarrow> \<not> closing \<and>
    (\<not> snd (link_bearer r) \<or> (\<exists>e. A (fst (link_bearer r)) = Inl e \<and> (is_unauthorized e \<or> is_conflict e)))"
  using assms by (auto simp: connect_reply_for_def rejected_permanent_def split: if_splits sum.splits prod.splits)

section \<open>Opening a stream\<close>

record session =
  ss_closed :: bool
  ss_farewell :: "close_reason option"
  ss_done :: bool

definition new_session :: session where
  "new_session = \<lparr>ss_closed = False, ss_farewell = None, ss_done = False\<rparr>"

text \<open>
  \<^verbatim>\<open>Open\<close>: \<open>ended\<close> is the caller's context before the call, \<open>mux\<close> the multiplexer's answer and \<open>late\<close>
  that the context ended first. A stream that comes late is closed; the second component lists the
  streams closed that way.
\<close>

datatype open_error = OpenCanceled | OpenClosed | OpenMux

definition session_open :: "bool \<Rightarrow> session \<Rightarrow> 'c option \<Rightarrow> bool \<Rightarrow> (open_error + 'c) \<times> 'c list" where
  "session_open ended s mux late =
     (if ended then (Inl OpenCanceled, [])
      else if ss_closed s then (Inl OpenClosed, [])
      else if late then (Inl OpenCanceled, (case mux of None \<Rightarrow> [] | Some stream \<Rightarrow> [stream]))
      else (case mux of None \<Rightarrow> Inl OpenMux | Some stream \<Rightarrow> Inr stream, []))"

text \<open>Every stream the multiplexer opens is either handed to the caller or closed, never both.\<close>

lemma session_open_no_leak:
  assumes "session_open False s mux late = (res, closed)" and "\<not> ss_closed s"
  shows "(case mux of None \<Rightarrow> (\<exists>e. res = Inl e) \<and> closed = []
          | Some stream \<Rightarrow> (res = Inr stream \<and> closed = []) \<or> ((\<exists>e. res = Inl e) \<and> closed = [stream]))"
  using assms by (auto simp: session_open_def split: if_splits option.splits)

definition session_close :: "close_reason \<Rightarrow> session \<Rightarrow> session" where
  "session_close reason s =
     (if ss_closed s then s else s\<lparr>ss_closed := True, ss_farewell := Some reason\<rparr>)"

text \<open>\<^verbatim>\<open>cut\<close>, and the end of the multiplexer for any other reason, which sets nothing but \<^verbatim>\<open>Done\<close>.\<close>

definition session_cut :: "session \<Rightarrow> session" where
  "session_cut s = s\<lparr>ss_closed := True, ss_done := True\<rparr>"

text \<open>\<^verbatim>\<open>farewell\<close>, once the peer has acknowledged or the grace is over.\<close>

definition session_farewell :: "session \<Rightarrow> session" where
  "session_farewell s = (session_cut s)\<lparr>ss_farewell := None\<rparr>"

end
