(* ===== verification/Tunnel_Agent.thy ===== *)
theory Tunnel_Agent
  imports Tunnel_Link
begin

text \<open>
  The agent: \<^verbatim>\<open>internal/agent/agent.go\<close>. Dialing, serving a link and waiting are done by others; what
  they answer in each round of the loop is given by a \<open>round\<close>. The loop may run forever, so it is a
  partial function: \<open>None\<close> is a run that does not return.
\<close>

section \<open>The composition\<close>

datatype agent_error = AgentRequired | AgentScheme | AgentHost

record agent =
  ag_target :: url
  ag_schedule :: "int list"

text \<open>\<open>given\<close> says that a dialer, a target, a waiter and a logger were passed.\<close>

definition new_agent :: "bool \<Rightarrow> url \<Rightarrow> int list \<Rightarrow> agent_error + agent" where
  "new_agent given target schedule =
     (if \<not> given then Inl AgentRequired
      else if url_scheme target \<noteq> ''http'' \<and> url_scheme target \<noteq> ''https'' then Inl AgentScheme
      else if url_host target = [] then Inl AgentHost
      else Inr \<lparr>ag_target = target, ag_schedule = schedule\<rparr>)"

definition forwarded_triple :: "string list" where
  "forwarded_triple = [''X-Forwarded-For'', ''X-Forwarded-Host'', ''X-Forwarded-Proto'']"

definition copy_values :: "request \<Rightarrow> string \<Rightarrow> header \<Rightarrow> header" where
  "copy_values inr name out =
     fold (\<lambda>v h. header_add name v h) (header_values (rq_header inr) name) (header_del name out)"

definition rewrite_to :: "url \<Rightarrow> request \<Rightarrow> request \<Rightarrow> request" where
  "rewrite_to target inr out =
     (let out1 = (set_url target out)\<lparr>rq_host := url_host target\<rparr>
      in out1\<lparr>rq_header := fold (copy_values inr) forwarded_triple (rq_header out1)\<rparr>)"

section \<open>The loop\<close>

text \<open>
  What one round meets: whether the context has ended when the loop looks, what the dial gives (an
  error, or a link and the reason it ended with) and whether the wait runs to its end.
\<close>

datatype dialed = DialFails link_error | DialServes "link_error option"

record round =
  rd_ended :: bool
  rd_dialed :: dialed
  rd_waited :: bool

text \<open>\<^verbatim>\<open>attempt\<close>: the next failure count and an error that stops the run; \<open>None\<close> is a panic.\<close>

definition agent_attempt :: "int list \<Rightarrow> dialed \<Rightarrow> int \<Rightarrow> (int \<times> link_error option) option" where
  "agent_attempt schedule d failures =
     (case d of
        DialFails err \<Rightarrow>
          if permanent (Some err) then Some (failures, Some err)
          else (case schedule_delay schedule (wrap64 (failures + 1)) of
                  None \<Rightarrow> None
                | Some delay \<Rightarrow> Some (wrap64 (failures + 1), None))
      | DialServes reason \<Rightarrow>
          if permanent reason then Some (0, reason)
          else (case schedule_delay schedule 1 of
                  None \<Rightarrow> None
                | Some delay \<Rightarrow> Some (1, None)))"

text \<open>\<^verbatim>\<open>pause\<close>: the delay waited for, and whether the run goes on.\<close>

definition agent_pause :: "int list \<Rightarrow> bool \<Rightarrow> int \<Rightarrow> (int \<times> bool) option" where
  "agent_pause schedule waited failures = map_option (\<lambda>delay. (delay, waited)) (schedule_delay schedule failures)"

datatype run_end = RunPanics | RunStops "link_error option"

text \<open>One round of the loop: how the run ends there, or the next failure count and the delay waited.\<close>

definition run_round :: "int list \<Rightarrow> round \<Rightarrow> int \<Rightarrow> run_end + int \<times> int" where
  "run_round schedule rd failures =
     (if rd_ended rd then Inl (RunStops None)
      else case agent_attempt schedule (rd_dialed rd) failures of
        None \<Rightarrow> Inl RunPanics
      | Some (failures', Some err) \<Rightarrow> Inl (RunStops (Some err))
      | Some (failures', None) \<Rightarrow>
          (case agent_pause schedule (rd_waited rd) failures' of
             None \<Rightarrow> Inl RunPanics
           | Some (delay, goes_on) \<Rightarrow> if \<not> goes_on then Inl (RunStops None) else Inr (failures', delay)))"

partial_function (option) run_from :: "int list \<Rightarrow> (nat \<Rightarrow> round) \<Rightarrow> nat \<Rightarrow> int \<Rightarrow> run_end option" where
  "run_from schedule env i failures =
     (case run_round schedule (env i) failures of
        Inl e \<Rightarrow> Some e
      | Inr (failures', delay) \<Rightarrow> run_from schedule env (Suc i) failures')"

definition agent_run :: "agent \<Rightarrow> (nat \<Rightarrow> round) \<Rightarrow> run_end option" where
  "agent_run a env = run_from (ag_schedule a) env 0 0"

section \<open>When a run ends\<close>

text \<open>What ends a run: the context, a refusal or an eviction that is permanent, a wait cut short.\<close>

definition stops :: "round \<Rightarrow> link_error option option" where
  "stops rd =
     (if rd_ended rd then Some None
      else case rd_dialed rd of
        DialFails err \<Rightarrow> if permanent (Some err) then Some (Some err) else if rd_waited rd then None else Some None
      | DialServes reason \<Rightarrow> if permanent reason then Some reason else if rd_waited rd then None else Some None)"

text \<open>The failure count after a round, and the delay that round waits.\<close>

definition next_failures :: "dialed \<Rightarrow> int \<Rightarrow> int" where
  "next_failures d failures = (case d of DialFails err \<Rightarrow> wrap64 (failures + 1) | DialServes reason \<Rightarrow> 1)"

primrec failures_before :: "(nat \<Rightarrow> round) \<Rightarrow> nat \<Rightarrow> int" where
  "failures_before env 0 = 0"
| "failures_before env (Suc i) = next_failures (rd_dialed (env i)) (failures_before env i)"

definition waits :: "int list \<Rightarrow> (nat \<Rightarrow> round) \<Rightarrow> nat \<Rightarrow> int" where
  "waits schedule env i = the (schedule_delay schedule (failures_before env (Suc i)))"

lemma delay_some: "s \<noteq> [] \<Longrightarrow> \<exists>d. schedule_delay s attempt = Some d"
  by (simp add: schedule_delay_total)

lemma schedule_delay_mem: "schedule_delay s attempt = Some d \<Longrightarrow> d \<in> set s"
proof -
  have "slice_get xs i = Some d \<Longrightarrow> d \<in> set xs" for xs i
    by (auto simp: slice_get_def nat_less_iff split: if_splits)
  then show "schedule_delay s attempt = Some d \<Longrightarrow> d \<in> set s"
    by (auto simp: schedule_delay_def Let_def split: if_splits)
qed

lemma run_round_eq:
  assumes "s \<noteq> []"
  shows "run_round s rd failures =
     (case stops rd of Some e \<Rightarrow> Inl (RunStops e)
      | None \<Rightarrow> Inr (next_failures (rd_dialed rd) failures,
          the (schedule_delay s (next_failures (rd_dialed rd) failures))))"
proof -
  have none: "\<not> permanent None" by (simp add: permanent_def)
  obtain d d1 where d: "schedule_delay s (wrap64 (failures + 1)) = Some d" "schedule_delay s 1 = Some d1"
    using delay_some [OF assms] by metis
  show ?thesis
    by (cases "rd_dialed rd") (auto simp: run_round_def agent_attempt_def agent_pause_def next_failures_def stops_def d none
        split: option.split)
qed

lemma run_from_stops:
  assumes s: "s \<noteq> []" and k: "i \<le> k" "stops (env k) = Some e" "\<forall>j. i \<le> j \<and> j < k \<longrightarrow> stops (env j) = None"
  shows "run_from s env i (failures_before env i) = Some (RunStops e)"
  using k
proof (induction "k - i" arbitrary: i)
  case 0
  then have "i = k" by simp
  with 0 show ?case by (simp add: run_from.simps [of s env k] run_round_eq [OF s])
next
  case (Suc n)
  then have lt: "i < k" by simp
  with Suc.prems have none: "stops (env i) = None" by simp
  have "run_from s env (Suc i) (failures_before env (Suc i)) = Some (RunStops e)"
    using Suc lt by (intro Suc.hyps(1)) auto
  with none show ?case by (simp add: run_from.simps [of s env i] run_round_eq [OF s])
qed

text \<open>A run that returns ends at a round that stops it.\<close>

lemma run_from_returns:
  assumes "run_from s env i failures = Some r" and "s \<noteq> []"
  shows "\<exists>k\<ge>i. stops (env k) \<noteq> None"
proof -
  let ?P = "\<lambda>s env i (failures :: int) (r :: run_end). s \<noteq> [] \<longrightarrow> (\<exists>k\<ge>i. stops (env k) \<noteq> None)"
  have "?P s env i failures r"
  proof (rule run_from.raw_induct [where P = ?P, OF _ assms(1)])
    fix run s env i failures r
    assume IH: "\<And>s env i failures r. run s env i failures = Some r \<Longrightarrow> ?P s env i failures r"
      and step: "(case run_round s (env i) failures of Inl e \<Rightarrow> Some e
        | Inr (failures', delay) \<Rightarrow> run s env (Suc i) failures') = Some r"
    show "?P s env i failures r"
    proof (cases "s \<noteq> [] \<and> stops (env i) = None")
      case True
      with step have "run s env (Suc i) (next_failures (rd_dialed (env i)) failures) = Some r"
        by (simp add: run_round_eq)
      from IH [OF this] show ?thesis using Suc_leD by blast
    qed auto
  qed
  with assms(2) show ?thesis by simp
qed

definition first_stop :: "(nat \<Rightarrow> round) \<Rightarrow> nat \<Rightarrow> bool" where
  "first_stop env k \<longleftrightarrow> stops (env k) \<noteq> None \<and> (\<forall>j < k. stops (env j) = None)"

lemma first_stop_exists: "stops (env k) \<noteq> None \<Longrightarrow> \<exists>n. first_stop env n"
  using exists_least_iff [of "\<lambda>n. stops (env n) \<noteq> None"] by (auto simp: first_stop_def)

lemma agent_run_first:
  assumes "new_schedule delays = Inr (ag_schedule a)" and "first_stop env k"
  shows "agent_run a env = Some (RunStops (the (stops (env k))))"
proof -
  from assms(1) have "ag_schedule a \<noteq> []" by (simp add: new_schedule_Inr)
  from run_from_stops [OF this, of 0 k env] assms(2) show ?thesis by (auto simp: agent_run_def first_stop_def)
qed

lemma agent_run_returns:
  assumes "new_schedule delays = Inr (ag_schedule a)"
  shows "agent_run a env = Some r \<longleftrightarrow> (\<exists>k e. first_stop env k \<and> stops (env k) = Some e \<and> r = RunStops e)"
proof
  from assms have ne: "ag_schedule a \<noteq> []" by (simp add: new_schedule_Inr)
  assume run: "agent_run a env = Some r"
  then obtain k where "stops (env k) \<noteq> None"
    using run_from_returns [OF _ ne] unfolding agent_run_def by blast
  then obtain n where n: "first_stop env n" using first_stop_exists by blast
  then obtain e where e: "stops (env n) = Some e" by (auto simp: first_stop_def)
  from agent_run_first [OF assms n] e run have "r = RunStops e" by simp
  with n e show "\<exists>k e. first_stop env k \<and> stops (env k) = Some e \<and> r = RunStops e" by blast
next
  assume "\<exists>k e. first_stop env k \<and> stops (env k) = Some e \<and> r = RunStops e"
  with agent_run_first [OF assms] show "agent_run a env = Some r" by fastforce
qed

text \<open>
  C25: the agent gives up exactly when it must. With a schedule \<^verbatim>\<open>NewSchedule\<close> accepts, \<^verbatim>\<open>Run\<close> returns
  if and only if some round meets the end of the context, a permanent refusal or eviction, or a wait
  cut short; it then returns at the first such round, with the refusal or eviction as its error and
  nil otherwise. It never panics. Until then every round waits a positive delay of the schedule, the
  delay of the number of consecutive failures, a lost link counting as the first.
\<close>

theorem agent_run_ends:
  assumes "new_schedule delays = Inr (ag_schedule a)"
  shows "(agent_run a env = Some r \<longleftrightarrow> (\<exists>k e. first_stop env k \<and> stops (env k) = Some e \<and> r = RunStops e))
    \<and> (\<forall>k failures delay. run_round (ag_schedule a) (env k) (failures_before env k) = Inr (failures, delay) \<longrightarrow>
         0 < delay \<and> schedule_delay (ag_schedule a) (failures_before env (Suc k)) = Some delay)"
proof (intro conjI allI impI)
  from assms have ne: "ag_schedule a \<noteq> []" and pos: "\<forall>d \<in> set (ag_schedule a). 0 < d"
    by (simp_all add: new_schedule_Inr)
  show "agent_run a env = Some r \<longleftrightarrow> (\<exists>k e. first_stop env k \<and> stops (env k) = Some e \<and> r = RunStops e)"
    by (rule agent_run_returns [OF assms])
  fix k failures delay
  assume "run_round (ag_schedule a) (env k) (failures_before env k) = Inr (failures, delay)"
  moreover obtain d where d: "schedule_delay (ag_schedule a) (failures_before env (Suc k)) = Some d"
    using delay_some [OF ne] by blast
  ultimately have "delay = d" by (simp add: run_round_eq [OF ne] split: option.splits)
  moreover have "d \<in> set (ag_schedule a)" by (rule schedule_delay_mem [OF d])
  ultimately show "0 < delay" "schedule_delay (ag_schedule a) (failures_before env (Suc k)) = Some delay"
    using d pos by auto
qed

definition flaky :: "nat \<Rightarrow> round" where
  "flaky i = \<lparr>rd_ended = False,
     rd_dialed = (if i = 0 then DialFails (LinkRejected 503) else if i = 1 then DialServes None
       else DialServes (Some (LinkEvicted CloseSuperseded))),
     rd_waited = True\<rparr>"

theorem agent_run_ends_witness:
  "agent_run \<lparr>ag_target = \<lparr>url_scheme = ''http'', url_host = ''127.0.0.1:3000'', url_path = [], url_query = []\<rparr>,
       ag_schedule = [second]\<rparr> flaky = Some (RunStops (Some (LinkEvicted CloseSuperseded)))"
proof -
  have "first_stop flaky 2 \<and> stops (flaky 2) = Some (Some (LinkEvicted CloseSuperseded))"
    by (auto simp: first_stop_def stops_def flaky_def permanent_def rejected_permanent_def less_2_cases_iff)
  then show ?thesis
    using agent_run_ends [of "[second]" "\<lparr>ag_target = \<lparr>url_scheme = ''http'', url_host = ''127.0.0.1:3000'',
         url_path = [], url_query = []\<rparr>, ag_schedule = [second]\<rparr>" flaky]
    by (simp only: agent.simps new_schedule_Inr) (auto simp: second_def)
qed

section \<open>The links of a run\<close>

text \<open>
  What a run does to its links and to the HTTP servers on them; the link of a round is named by the
  round. A close that fails is logged, and the link is gone all the same: \<^verbatim>\<open>closeListener\<close> reports
  what \<open>listener_close\<close> gives unless it is that the link was closed before.
\<close>

definition close_listener_warns :: "('e \<Rightarrow> bool) \<Rightarrow> 'e option \<Rightarrow> 'e option \<Rightarrow> bool" where
  "close_listener_warns closed mux socket =
     (let errors = listener_close closed mux socket in errors \<noteq> [] \<and> (\<forall>e \<in> set errors. \<not> closed e))"

datatype link_event = LinkOpened nat | LinkServed nat | LinkClosed nat | StreamServerClosed

text \<open>\<^verbatim>\<open>serve\<close>: \<open>cancelled\<close> says that the context ends before the server does.\<close>

definition serve_events :: "bool \<Rightarrow> nat \<Rightarrow> link_event list" where
  "serve_events cancelled i =
     LinkServed i # (if cancelled then [LinkClosed i] else []) @ [LinkClosed i, StreamServerClosed]"

definition round_events :: "bool \<Rightarrow> nat \<Rightarrow> round \<Rightarrow> link_event list" where
  "round_events cancelled i rd =
     (if rd_ended rd then []
      else case rd_dialed rd of DialFails err \<Rightarrow> [] | DialServes reason \<Rightarrow> LinkOpened i # serve_events cancelled i)"

definition run_events :: "(nat \<Rightarrow> bool) \<Rightarrow> (nat \<Rightarrow> round) \<Rightarrow> nat \<Rightarrow> link_event list" where
  "run_events cancelled env n = concat (map (\<lambda>i. round_events (cancelled i) i (env i)) [0..<n])"

fun after_event :: "link_event \<Rightarrow> nat list \<Rightarrow> nat list" where
  "after_event (LinkOpened i) links = i # links"
| "after_event (LinkClosed i) links = removeAll i links"
| "after_event e links = links"

definition open_links :: "link_event list \<Rightarrow> nat list" where
  "open_links trace = fold after_event trace []"

lemma open_links_append: "open_links xs = [] \<Longrightarrow> open_links (xs @ ys) = open_links ys"
  by (simp add: open_links_def)

lemma round_closes: "open_links (round_events cancelled i rd) = []"
  by (auto simp: open_links_def round_events_def serve_events_def split: dialed.split)

lemma round_opens_one: "prefix trace (round_events cancelled i rd) \<Longrightarrow> length (open_links trace) \<le> 1"
  by (auto simp: open_links_def round_events_def serve_events_def prefix_Cons split: dialed.splits if_splits)

text \<open>
  A flapping server cannot leak a connection: whatever the rounds of a run meet, at every moment at most
  one link is open, and none is between two rounds or when the run has returned.
\<close>

theorem agent_keeps_one_link:
  "open_links (run_events cancelled env n) = []
    \<and> (\<forall>trace. prefix trace (run_events cancelled env n) \<longrightarrow> length (open_links trace) \<le> 1)"
proof (induction n)
  case 0
  then show ?case by (simp add: run_events_def open_links_def)
next
  case (Suc n)
  have split: "run_events cancelled env (Suc n) = run_events cancelled env n @ round_events (cancelled n) n (env n)"
    by (simp add: run_events_def)
  from Suc.IH have none: "open_links (run_events cancelled env n) = []" by blast
  have "length (open_links trace) \<le> 1" if "prefix trace (run_events cancelled env (Suc n))" for trace
    using that Suc.IH round_opens_one open_links_append [OF none] unfolding split prefix_append by auto
  then show ?case unfolding split by (simp add: open_links_append [OF none] round_closes)
qed

end
