(* ===== verification/Tunnel_Forwarding.thy ===== *)
theory Tunnel_Forwarding
  imports Tunnel_Edge Tunnel_Agent
begin

text \<open>
  What the target behind the tunnel is told about the visitor: the headers the edge's \<^verbatim>\<open>rewrite\<close>
  sends down the stream and those the agent's \<^verbatim>\<open>rewriteTo\<close> hands on.
\<close>

section \<open>Deleting and copying headers\<close>

text \<open>The headers that can carry a client's identity, in any letter case.\<close>

definition lower_name :: "string \<Rightarrow> string" where
  "lower_name = map lower_char"

definition forwarding_name :: "string \<Rightarrow> bool" where
  "forwarding_name k \<longleftrightarrow>
     has_prefix (lower_name k) ''x-forwarded-'' \<or> lower_name k \<in> set (map lower_name forwarding_aliases)"

lemma map_get_fold_del:
  "map_get (fold (\<lambda>name acc. if P name then header_del name acc else acc) names h) k
     = (if \<exists>n \<in> set names. P n \<and> canonical_key n = k then None else map_get h k)"
  by (induction names arbitrary: h) auto

lemma canonical_fold_del:
  "canonical_header h \<Longrightarrow>
     canonical_header (fold (\<lambda>name acc. if P name then header_del name acc else acc) names h)"
  by (induction names arbitrary: h) auto

lemma map_get_keys: "k \<in> set (map_keys h) \<longleftrightarrow> map_get h k \<noteq> None"
  by (simp add: map_keys_def map_get_None_iff image_iff)

lemma map_get_strip_prefixed:
  assumes "canonical_header h"
  shows "map_get (strip_prefixed unicode h) k =
    (if has_prefix (lower_name k) ''x-forwarded-'' then None else map_get h k)"
proof -
  have keys: "canonical_key n = n \<and> to_lower unicode n = lower_name n" if "n \<in> set (map_keys h)" for n
    using that canonical_header_get [OF assms] to_lower_token by (auto simp: map_get_keys lower_name_def)
  show ?thesis
  proof (cases "map_get h k")
    case None
    then show ?thesis by (simp add: strip_prefixed_def map_get_fold_del)
  next
    case (Some vs)
    then have k: "k \<in> set (map_keys h)" by (simp add: map_get_keys)
    have "(\<exists>n \<in> set (map_keys h). has_prefix (to_lower unicode n) ''x-forwarded-'' \<and> canonical_key n = k)
        \<longleftrightarrow> has_prefix (lower_name k) ''x-forwarded-''"
      using k keys by metis
    then show ?thesis unfolding strip_prefixed_def map_get_fold_del by simp
  qed
qed

lemma aliases_token: "list_all (list_all token_byte) forwarding_aliases"
  by code_simp

lemma map_get_strip:
  assumes h: "canonical_header h"
  shows "map_get (strip_forwarding_aliases unicode h) k = (if forwarding_name k then None else map_get h k)"
proof -
  have del: "map_get (fold header_del names g) k = (if k \<in> canonical_key ` set names then None else map_get g k)"
    for names g by (induction names arbitrary: g) auto
  have named: "k \<in> canonical_key ` set forwarding_aliases \<longleftrightarrow> lower_name k \<in> set (map lower_name forwarding_aliases)"
    if "map_get h k = Some vs" for vs
  proof -
    from canonical_header_get [OF h that] have k: "list_all token_byte k" "canonical_key k = k" by auto
    have "k = canonical_key a \<longleftrightarrow> lower_name k = lower_name a" if "a \<in> set forwarding_aliases" for a
      using canonical_key_lower [OF k(1), of a] aliases_token that k(2)
      unfolding list_all_iff [of _ forwarding_aliases] lower_name_def by metis
    then show ?thesis by auto
  qed
  show ?thesis
    unfolding strip_forwarding_aliases_def del map_get_strip_prefixed [OF h] forwarding_name_def
    using named by (cases "map_get h k") auto
qed

lemma canonical_strip: "canonical_header h \<Longrightarrow> canonical_header (strip_forwarding_aliases unicode h)"
proof -
  assume "canonical_header h"
  then have "canonical_header (strip_prefixed unicode h)"
    unfolding strip_prefixed_def by (rule canonical_fold_del)
  then show ?thesis unfolding strip_forwarding_aliases_def
    using canonical_fold_del [of _ "\<lambda>_. True"] by simp
qed

lemma triple_keys:
  "canonical_key ''X-Forwarded-For'' = ''X-Forwarded-For''"
  "canonical_key ''X-Forwarded-Host'' = ''X-Forwarded-Host''"
  "canonical_key ''X-Forwarded-Proto'' = ''X-Forwarded-Proto''"
  by code_simp+

lemma triple_forwarding: "list_all forwarding_name forwarded_triple"
  by code_simp

lemma map_get_fold_add:
  "map_get (fold (\<lambda>v h. header_add name v h) vs h) k =
     (if k = canonical_key name \<and> vs \<noteq> [] then Some (header_values h name @ vs) else map_get h k)"
  by (induction vs arbitrary: h) (auto simp: header_add_def header_values_def)

lemma map_get_copy_values:
  "map_get (copy_values inr name out) k =
     (if k = canonical_key name
      then (if header_values (rq_header inr) name = [] then None else Some (header_values (rq_header inr) name))
      else map_get out k)"
  by (simp add: copy_values_def map_get_fold_add header_values_def)

section \<open>The headers that leave the edge and the agent\<close>

text \<open>The client chain: what a trusted front reported, and the peer the edge saw.\<close>

definition forwarded_for :: "request \<Rightarrow> string list option" where
  "forwarded_for inr =
     (case split_host (rq_remote inr) of
        None \<Rightarrow> None
      | Some peer \<Rightarrow>
          let chain = trusted_forwarded_for inr in
          Some [if chain \<noteq> [] then join_values chain @ '', '' @ peer else peer])"

definition edge_identity :: "edge \<Rightarrow> request \<Rightarrow> string \<Rightarrow> string list option" where
  "edge_identity E inr k =
     (if k = ''X-Forwarded-For'' then forwarded_for inr
      else if k = ''X-Forwarded-Host'' then Some [rq_host inr]
      else if k = ''X-Forwarded-Proto'' then Some [edge_forward E]
      else None)"

lemma triple_distinct: "distinct forwarded_triple"
  by code_simp

lemma edge_identity_other: "k \<notin> set forwarded_triple \<Longrightarrow> edge_identity E inr k = None"
  by (simp add: edge_identity_def forwarded_triple_def)

lemma untrusted_without_host: "split_host (rq_remote inr) = None \<Longrightarrow> trusted_forwarded_for inr = []"
  by (simp add: trusted_forwarded_for_def loopback_address_def)

lemma edge_headers:
  assumes "canonical_header (rq_header out)"
  shows "map_get (rq_header (edge_rewrite unicode E tls subdomain inr out)) k =
    (if forwarding_name k then edge_identity E inr k else map_get (rq_header out) k)"
    and "rq_host (edge_rewrite unicode E tls subdomain inr out) = rq_host inr"
    and "url_host (rq_url (edge_rewrite unicode E tls subdomain inr out)) = subdomain @ ''.tunnel.internal''"
proof -
  define f h p where "f = ''X-Forwarded-For''" and "h = ''X-Forwarded-Host''" and "p = ''X-Forwarded-Proto''"
  note names = f_def [symmetric] h_def [symmetric] p_def [symmetric]
  have keys: "canonical_key f = f" "canonical_key h = h" "canonical_key p = p"
    unfolding f_def h_def p_def by (rule triple_keys)+
  have fwd: "forwarding_name f" "forwarding_name h" "forwarding_name p"
    using triple_forwarding unfolding forwarded_triple_def names by simp_all
  have ne: "f \<noteq> h" "f \<noteq> p" "h \<noteq> p"
    using triple_distinct unfolding forwarded_triple_def names by simp_all
  define g where "g = strip_forwarding_aliases unicode (rq_header out)"
  have g: "map_get g k = (if forwarding_name k then None else map_get (rq_header out) k)" for k
    unfolding g_def by (rule map_get_strip [OF assms])
  show "map_get (rq_header (edge_rewrite unicode E tls subdomain inr out)) k =
    (if forwarding_name k then edge_identity E inr k else map_get (rq_header out) k)"
    unfolding edge_rewrite_def set_x_forwarded_def edge_identity_def names Let_def set_url_def
    using fwd ne keys untrusted_without_host [of inr]
    by (auto simp: g g_def [symmetric] forwarded_for_def Let_def split: option.split)
qed (simp_all add: edge_rewrite_def set_url_def Let_def)

lemma agent_headers:
  "map_get (rq_header (rewrite_to target inr out)) k =
    (if k \<in> set forwarded_triple
     then (if header_values (rq_header inr) k = [] then None else Some (header_values (rq_header inr) k))
     else map_get (rq_header out) k)"
  "rq_host (rewrite_to target inr out) = url_host target"
proof -
  have keys: "list_all (\<lambda>k. canonical_key k = k) forwarded_triple"
    by (simp only: forwarded_triple_def list.pred_inject triple_keys simp_thms)
  have "map_get (fold (copy_values inr) names h) k =
      (if k \<in> set names
       then (if header_values (rq_header inr) k = [] then None else Some (header_values (rq_header inr) k))
       else map_get h k)" if "list_all (\<lambda>k. canonical_key k = k) names" for names h
    using that by (induction names arbitrary: h) (auto simp: map_get_copy_values)
  from this [OF keys] show "map_get (rq_header (rewrite_to target inr out)) k =
    (if k \<in> set forwarded_triple
     then (if header_values (rq_header inr) k = [] then None else Some (header_values (rq_header inr) k))
     else map_get (rq_header out) k)"
    by (simp add: rewrite_to_def Let_def set_url_def)
qed (simp add: rewrite_to_def Let_def)

text \<open>
  \<open>arrives h h'\<close>: a hop that carries the header \<open>h\<close> and presents \<open>h'\<close> adds no forwarding header and
  keeps the triple. It may add, drop and change other headers.
\<close>

definition arrives :: "header \<Rightarrow> header \<Rightarrow> bool" where
  "arrives h h' \<longleftrightarrow> canonical_header h'
     \<and> list_all (\<lambda>(k, vs). forwarding_name k \<longrightarrow> map_get h k = Some vs) h'
     \<and> list_all (\<lambda>k. map_get h' k = map_get h k) forwarded_triple"

text \<open>The copy a standard proxy prepares adds no forwarding header to those that came in.\<close>

definition proxy_copy :: "header \<Rightarrow> header \<Rightarrow> bool" where
  "proxy_copy h h' \<longleftrightarrow> canonical_header h'
     \<and> list_all (\<lambda>(k, vs). forwarding_name k \<longrightarrow> map_get h k = Some vs) h'"

text \<open>
  C26: no visitor can claim an identity. Whatever headers a visitor sends, in whatever letter case,
  and whether the peer is trusted or not, the request that reaches the target names the visitor's
  host, the edge's own protocol and, as the client, the peer the edge saw, after the chain of the
  peer's \<^verbatim>\<open>X-Forwarded-For\<close> only if that peer is a loopback front. No other forwarding header or
  vendor alias reaches the target, every other header passes as the proxies copied it, and the
  request goes to the target's host.
\<close>

theorem forwarded_identity:
  assumes "canonical_header (rq_header out)"
    and "sent = edge_rewrite unicode E tls subdomain visitor out"
    and "arrives (rq_header sent) (rq_header received)"
    and "proxy_copy (rq_header received) (rq_header copied)"
  shows "map_get (rq_header (rewrite_to target received copied)) k =
      (if forwarding_name k then edge_identity E visitor k else map_get (rq_header copied) k)
    \<and> rq_host (rewrite_to target received copied) = url_host target
    \<and> (\<not> loopback_address (rq_remote visitor) \<longrightarrow>
         edge_identity E visitor ''X-Forwarded-For'' = map_option (\<lambda>peer. [peer]) (split_host (rq_remote visitor)))"
proof -
  have sent: "map_get (rq_header sent) k = (if forwarding_name k then edge_identity E visitor k else map_get (rq_header out) k)"
    for k unfolding assms(2) by (rule edge_headers(1) [OF assms(1)])
  have triple: "map_get (rq_header received) k = edge_identity E visitor k" if "k \<in> set forwarded_triple" for k
    using assms(3) that sent [of k] triple_forwarding by (simp add: arrives_def list_all_iff)
  have other: "map_get (rq_header copied) k = None" if "forwarding_name k" "k \<notin> set forwarded_triple" for k
  proof (cases "map_get (rq_header copied) k")
    case (Some vs)
    then have "map_get (rq_header received) k = Some vs"
      using assms(4) that by (auto simp: proxy_copy_def list_all_iff dest: map_get_in_set)
    then have "map_get (rq_header sent) k = Some vs"
      using assms(3) that by (auto simp: arrives_def list_all_iff dest: map_get_in_set)
    with sent [of k] that show ?thesis by (simp add: edge_identity_other)
  qed
  have vals: "(if header_values (rq_header received) k = [] then None
      else Some (header_values (rq_header received) k)) = edge_identity E visitor k"
    if "k \<in> set forwarded_triple" for k
  proof -
    have "canonical_key k = k" using that triple_keys by (auto simp only: forwarded_triple_def set_simps)
    moreover have "edge_identity E visitor k \<noteq> Some []"
      by (auto simp: edge_identity_def forwarded_for_def Let_def split: option.split if_splits)
    ultimately show ?thesis using triple [OF that]
      by (auto simp: header_values_def split: option.split)
  qed
  have "forwarding_name k" if "k \<in> set forwarded_triple" using that triple_forwarding by (auto simp: list_all_iff)
  then have "map_get (rq_header (rewrite_to target received copied)) k =
      (if forwarding_name k then edge_identity E visitor k else map_get (rq_header copied) k)"
    unfolding agent_headers(1) using vals other edge_identity_other by auto
  moreover have "edge_identity E visitor ''X-Forwarded-For'' = map_option (\<lambda>peer. [peer]) (split_host (rq_remote visitor))"
    if "\<not> loopback_address (rq_remote visitor)"
    using that by (simp add: edge_identity_def forwarded_for_def trusted_forwarded_for_def Let_def split: option.split)
  ultimately show ?thesis using agent_headers(2) by blast
qed

lemma triple_tokens: "list_all (list_all token_byte) forwarded_triple"
  by code_simp

lemma canonical_edge:
  assumes "canonical_header (rq_header out)"
  shows "canonical_header (rq_header (edge_rewrite unicode E tls subdomain inr out))"
proof -
  have names: "''X-Forwarded-For'' \<in> set forwarded_triple" "''X-Forwarded-Host'' \<in> set forwarded_triple"
    "''X-Forwarded-Proto'' \<in> set forwarded_triple"
    by (simp_all only: forwarded_triple_def list.set insert_iff simp_thms)
  have token: "list_all token_byte name" if "name \<in> set forwarded_triple" for name
    using that triple_tokens unfolding list_all_iff [of _ forwarded_triple] by blast
  note put = canonical_header_put [OF _ token [OF names(1)], unfolded triple_keys(1)]
  note set = canonical_header_set [OF _ token]
  have forwarded: "canonical_header (set_x_forwarded tls inr h)" if h: "canonical_header h" for h
  proof (cases "split_host (rq_remote inr)")
    case None
    show ?thesis unfolding set_x_forwarded_def Let_def None option.case
      by (intro set names canonical_header_del h)
  next
    case (Some peer)
    show ?thesis unfolding set_x_forwarded_def Let_def Some option.case
      by (intro set names h)
  qed
  have rewritten: "rq_header (edge_rewrite unicode E tls subdomain inr out) =
      header_set ''X-Forwarded-Proto'' (edge_forward E) (set_x_forwarded tls inr
        (if trusted_forwarded_for inr \<noteq> []
         then map_put ''X-Forwarded-For'' (trusted_forwarded_for inr) (strip_forwarding_aliases unicode (rq_header out))
         else strip_forwarding_aliases unicode (rq_header out)))"
    by (simp add: edge_rewrite_def Let_def set_url_def)
  have "canonical_header (strip_forwarding_aliases unicode (rq_header out))"
    using assms by (rule canonical_strip)
  then have "canonical_header (if trusted_forwarded_for inr \<noteq> []
         then map_put ''X-Forwarded-For'' (trusted_forwarded_for inr) (strip_forwarding_aliases unicode (rq_header out))
         else strip_forwarding_aliases unicode (rq_header out))"
    using put by (simp only: split: if_split) blast
  then show ?thesis unfolding rewritten by (intro set names forwarded)
qed

lemma arrives_refl: "canonical_header h \<Longrightarrow> arrives h h"
  by (auto simp: arrives_def list_all_iff canonical_header_def map_get_Some_iff)

text \<open>A visitor who sends a forged chain and a forged vendor header.\<close>

definition forged :: request where
  "forged = \<lparr>rq_method = ''GET'', rq_host = ''acme.tunnel.test'', rq_remote = ''198.51.100.4:4000'',
     rq_url = \<lparr>url_scheme = [], url_host = [], url_path = ''/'', url_query = []\<rparr>,
     rq_header = [(''X-Forwarded-For'', [''6.6.6.6'']), (''X-Real-Ip'', [''6.6.6.6'']),
       (''X-Slack-Signature'', [''v0'']) ]\<rparr>"

definition sample_edge :: edge where
  "sample_edge = \<lparr>edge_domain = ''tunnel.test'', edge_forward = ''https''\<rparr>"

definition forged_sent :: request where
  "forged_sent = edge_rewrite id sample_edge False ''acme'' forged forged"

definition forged_copied :: request where
  "forged_copied = forged\<lparr>rq_header := [(''X-Slack-Signature'', [''v0''])]\<rparr>"

theorem forwarded_identity_witness:
  "map_get (rq_header (rewrite_to \<lparr>url_scheme = ''http'', url_host = ''127.0.0.1:3000'', url_path = [],
       url_query = []\<rparr> forged_sent forged_copied)) ''X-Forwarded-For'' = Some [''198.51.100.4'']"
proof -
  have canonical: "canonical_header (rq_header forged)" by code_simp
  moreover from canonical have "arrives (rq_header forged_sent) (rq_header forged_sent)"
    unfolding forged_sent_def by (intro arrives_refl canonical_edge)
  moreover have "proxy_copy (rq_header forged_sent) (rq_header forged_copied)"
  proof -
    have "\<not> forwarding_name ''X-Slack-Signature''" by code_simp
    moreover have "canonical_header (rq_header forged_copied)"
      using canonical by (simp add: canonical_header_def forged_def forged_copied_def wf_map_def)
    ultimately show ?thesis by (simp add: proxy_copy_def forged_copied_def)
  qed
  moreover have "edge_identity sample_edge forged ''X-Forwarded-For'' = Some [''198.51.100.4'']" by code_simp
  moreover have "forwarding_name ''X-Forwarded-For''" using triple_forwarding by (simp add: forwarded_triple_def)
  ultimately show ?thesis
    using forwarded_identity [OF _ forged_sent_def, of forged_sent forged_copied _ "''X-Forwarded-For''"]
    by (simp only: if_True)
qed

end
