(* ===== verification/Tunnel_Metrics.thy ===== *)
theory Tunnel_Metrics
  imports Tunnel_Edge
begin

text \<open>
  The metrics behind the edge's observer: \<^verbatim>\<open>internal/metrics/prometheus.go\<close>. The Prometheus client is
  third-party, so what the code does to it is modelled as the calls it makes on the vectors it
  registered, each with its label values; counts and durations are kept as the integers the code
  converts to floating point.
\<close>

section \<open>The vectors\<close>

datatype vector =
    Requests | ResponseBytes | RequestSeconds | Upgrades | AbortedResponses
  | StreamOpenSeconds | StreamOpenFailures

definition vector_name :: "vector \<Rightarrow> string" where
  "vector_name v =
     (case v of
        Requests \<Rightarrow> ''reaper_tunnel_requests_total''
      | ResponseBytes \<Rightarrow> ''reaper_tunnel_response_bytes_total''
      | RequestSeconds \<Rightarrow> ''reaper_tunnel_request_seconds''
      | Upgrades \<Rightarrow> ''reaper_tunnel_upgrades_total''
      | AbortedResponses \<Rightarrow> ''reaper_tunnel_aborted_responses_total''
      | StreamOpenSeconds \<Rightarrow> ''reaper_tunnel_stream_open_seconds''
      | StreamOpenFailures \<Rightarrow> ''reaper_tunnel_stream_open_failures_total'')"

definition vector_labels :: "vector \<Rightarrow> string list" where
  "vector_labels v = (if v = Requests then [''subdomain'', ''status''] else [''subdomain''])"

text \<open>The collectors \<^verbatim>\<open>New\<close> registers, in its order; the last three count links and describe the process.\<close>

datatype collector = Vector vector | LiveLinks | GoCollector | ProcessCollector

definition collectors :: "collector list" where
  "collectors =
     [Vector Requests, Vector ResponseBytes, Vector RequestSeconds, Vector Upgrades, Vector AbortedResponses,
      Vector StreamOpenSeconds, Vector StreamOpenFailures, LiveLinks, GoCollector, ProcessCollector]"

datatype 'e metrics_error = MetricsLive | MetricsRegister 'e

fun register_all :: "(collector \<Rightarrow> 'e option) \<Rightarrow> collector list \<Rightarrow> 'e option" where
  "register_all register [] = None"
| "register_all register (c # cs) = (case register c of Some e \<Rightarrow> Some e | None \<Rightarrow> register_all register cs)"

text \<open>\<^verbatim>\<open>New\<close>; \<open>given\<close> says that the link counter was passed, \<open>register\<close> what the registry answers.\<close>

definition new_metrics :: "bool \<Rightarrow> (collector \<Rightarrow> 'e option) \<Rightarrow> 'e metrics_error option" where
  "new_metrics given register =
     (if \<not> given then Some MetricsLive
      else map_option MetricsRegister (register_all register collectors))"

section \<open>Recording\<close>

text \<open>A call on one series of a vector: \<^verbatim>\<open>Inc\<close>, \<^verbatim>\<open>Add\<close> or \<^verbatim>\<open>Observe\<close> after \<^verbatim>\<open>WithLabelValues\<close>.\<close>

datatype metric_call =
    Inc vector "string list"
  | AddTo vector "string list" int
  | Observe vector "string list" int

definition status_class :: "int \<Rightarrow> string" where
  "status_class status =
     (if status < 100 \<or> status > 599 then ''unknown'' else itoa (status div 100) @ ''xx'')"

definition metrics_request :: "observation \<Rightarrow> int \<Rightarrow> metric_call list" where
  "metrics_request obs duration =
     (let subdomain = (if obs_subdomain obs = [] then ''none'' else obs_subdomain obs)
      in [Inc Requests [subdomain, status_class (obs_status obs)],
          AddTo ResponseBytes [subdomain] (obs_bytes obs),
          Observe RequestSeconds [subdomain] duration]
         @ (if obs_upgraded obs then [Inc Upgrades [subdomain]] else [])
         @ (if obs_aborted obs then [Inc AbortedResponses [subdomain]] else []))"

definition metrics_stream_open :: "'e stream_open \<Rightarrow> int \<Rightarrow> metric_call list" where
  "metrics_stream_open opened duration =
     Observe StreamOpenSeconds [so_subdomain opened] duration
       # (if so_err opened \<noteq> None then [Inc StreamOpenFailures [so_subdomain opened]] else [])"

section \<open>What the edge's counters say\<close>

text \<open>One visit of the edge: the routing table it met, what the proxy did, and how long it took.\<close>

record 'l visit =
  vs_table :: "'l registry"
  vs_proxy :: "string \<Rightarrow> 'l \<Rightarrow> writer_call list \<times> bool"
  vs_request :: request
  vs_duration :: int

definition visit_reply ::
  "(string \<Rightarrow> string) \<Rightarrow> edge \<Rightarrow> (string \<Rightarrow> int) \<Rightarrow> 'l visit \<Rightarrow> 'l edge_reply" where
  "visit_reply unicode E taken v = edge_serve unicode E (vs_proxy v) taken (vs_table v) (vs_request v)"

definition visit_calls ::
  "(string \<Rightarrow> string) \<Rightarrow> edge \<Rightarrow> (string \<Rightarrow> int) \<Rightarrow> 'l visit \<Rightarrow> metric_call list" where
  "visit_calls unicode E taken v =
     concat (map (\<lambda>obs. metrics_request obs (vs_duration v)) (reply_observed (visit_reply unicode E taken v)))"

text \<open>The series a visit is counted under: the label its host names, or \<^verbatim>\<open>none\<close>.\<close>

definition visit_series :: "(string \<Rightarrow> string) \<Rightarrow> edge \<Rightarrow> 'l visit \<Rightarrow> string" where
  "visit_series unicode E v =
     (case host_subdomain unicode (rq_host (vs_request v)) (edge_domain E) of None \<Rightarrow> ''none'' | Some s \<Rightarrow> s)"

definition incs :: "vector \<Rightarrow> string list \<Rightarrow> metric_call list \<Rightarrow> nat" where
  "incs vec labels calls = length (filter (\<lambda>c. c = Inc vec labels) calls)"

definition series_of :: "vector \<Rightarrow> metric_call list \<Rightarrow> string list set" where
  "series_of vec calls = {labels. Inc vec labels \<in> set calls}"

lemma incs_simps [simp]:
  "incs vec labels [] = 0" "incs vec labels (xs @ ys) = incs vec labels xs + incs vec labels ys"
  "incs vec labels (c # cs) = (if c = Inc vec labels then Suc (incs vec labels cs) else incs vec labels cs)"
  by (simp_all add: incs_def)

lemma host_label_ne: "host_subdomain unicode host domain = Some s \<Longrightarrow> s \<noteq> []"
  by (auto simp: host_names_label_iff valid_label_def)

lemma visit_calls_eq:
  "visit_calls unicode E taken v =
     (let R = visit_reply unicode E taken v; sub = visit_series unicode E v
      in [Inc Requests [sub, status_class (answered (reply_calls R))],
          AddTo ResponseBytes [sub] (wrap64 (writer_bytes taken (reply_calls R))),
          Observe RequestSeconds [sub] (vs_duration v)]
         @ (if WHijack True \<in> set (reply_calls R) then [Inc Upgrades [sub]] else [])
         @ (if reply_panics R then [Inc AbortedResponses [sub]] else []))"
proof (cases "host_subdomain unicode (rq_host (vs_request v)) (edge_domain E)")
  case None
  then show ?thesis
    by (simp add: visit_calls_def visit_reply_def visit_series_def edge_serve_cases metrics_request_def observe_def
        record_calls_faithful Let_def)
next
  case (Some s)
  with host_label_ne [OF Some] show ?thesis
    by (simp add: visit_calls_def visit_reply_def visit_series_def edge_serve_cases metrics_request_def observe_def
        record_calls_faithful Let_def split: prod.split)
qed

lemma incs_visits:
  "incs vec labels (concat (map f vs)) = (\<Sum>v\<leftarrow>vs. incs vec labels (f v))"
  by (induction vs) simp_all

lemma sum_list_indicator: "(\<Sum>v\<leftarrow>vs. if P v then Suc 0 else 0) = length (filter P vs)"
  by (induction vs) simp_all

text \<open>
  the edge's counters account for every visitor. Over any run of visits, against whatever
  routing tables and whatever the agents answer, a series of the request counter counts exactly the
  visits whose host named its label, or no label for \<^verbatim>\<open>none\<close>, and whose visitor was answered in its
  class; the upgrade counter exactly those whose connection changed hands; the abort counter
  exactly those the proxy gave up on.
\<close>

theorem edge_counters_account:
  "let calls = concat (map (visit_calls unicode E taken) vs);
       reply = visit_reply unicode E taken; sub = visit_series unicode E
   in incs Requests [s, k] calls = length (filter (\<lambda>v. sub v = s \<and> status_class (answered (reply_calls (reply v))) = k) vs)
    \<and> incs Upgrades [s] calls = length (filter (\<lambda>v. sub v = s \<and> WHijack True \<in> set (reply_calls (reply v))) vs)
    \<and> incs AbortedResponses [s] calls = length (filter (\<lambda>v. sub v = s \<and> reply_panics (reply v)) vs)"
  unfolding Let_def incs_visits sum_list_indicator [symmetric]
  by (intro conjI arg_cong [where f = sum_list] map_cong refl) (simp_all add: visit_calls_eq Let_def)

text \<open>The label that stands for unresolvable hosts can be claimed like any other.\<close>

lemma none_claimable: "validate_subdomain ''none'' = None"
  by code_simp

section \<open>One series per name\<close>

lemma plain_host_label:
  assumes "valid_label l" and "\<forall>c \<in> set d. byte c < 128" and "map lower_char d = d" and "d \<noteq> []"
    and "last d \<noteq> CHR ''.''" and "set d \<inter> {CHR '':'', CHR ''['', CHR '']''} = {}"
  shows "host_subdomain unicode (l @ ''.'' @ d) d = Some l"
proof -
  have l: "lower_char c = c \<and> byte c < 128 \<and> c \<notin> {CHR '':'', CHR ''['', CHR '']''}" if "c \<in> set l" for c
    using assms(1) that
    by (auto simp: valid_label_def lower_char_label) (auto simp: label_byte_def byte_def less_eq_char_def)
  then have "map lower_char l = l" by (simp add: map_idI)
  with assms l show ?thesis
    using host_spellings [of l d "[]" "[]" "[]" unicode] by (auto simp: Ball_def)
qed

text \<open>
  C33: a scan of made-up names costs one series per name. A host below the domain resolves to its
  label whether or not anyone claimed it, and only hosts that name no label share the series
  \<^verbatim>\<open>none\<close>. So when a visitor asks for any number of different well-formed labels while no agent is
  connected, the request counter ends with exactly that many series, one for each label made up.
\<close>

theorem scan_grows_series:
  assumes "distinct ls" and "\<forall>l \<in> set ls. valid_label l"
    and "\<forall>c \<in> set (edge_domain E). byte c < 128" and "map lower_char (edge_domain E) = edge_domain E"
    and "edge_domain E \<noteq> []" and "last (edge_domain E) \<noteq> CHR ''.''"
    and "set (edge_domain E) \<inter> {CHR '':'', CHR ''['', CHR '']''} = {}"
    and "map (\<lambda>v. rq_host (vs_request v)) vs = map (\<lambda>l. l @ ''.'' @ edge_domain E) ls"
    and "\<forall>v \<in> set vs. vs_table v = new_registry"
  shows "series_of Requests (concat (map (visit_calls unicode E taken) vs)) = (\<lambda>l. [l, ''5xx'']) ` set ls
    \<and> card (series_of Requests (concat (map (visit_calls unicode E taken) vs))) = length ls"
proof -
  have label: "host_subdomain unicode (l @ ''.'' @ edge_domain E) (edge_domain E) = Some l" if "l \<in> set ls" for l
    using assms that by (intro plain_host_label) auto
  have five: "status_class 502 = ''5xx''" by code_simp
  have one: "series_of Requests (visit_calls unicode E taken v) = {[l, ''5xx'']}"
    if "v \<in> set vs" "rq_host (vs_request v) = l @ ''.'' @ edge_domain E" "l \<in> set ls" for v l
    using that assms(9) label
    by (auto simp: series_of_def visit_calls_eq visit_series_def visit_reply_def edge_serve_cases serve_route_def
        registry_lookup_def new_registry_def refuse_def informational_def five Let_def)
  have img: "(\<lambda>v. rq_host (vs_request v)) ` set vs = (\<lambda>l. l @ ''.'' @ edge_domain E) ` set ls"
    using arg_cong [OF assms(8), of set] by simp
  have made: "\<exists>l \<in> set ls. rq_host (vs_request v) = l @ ''.'' @ edge_domain E" if "v \<in> set vs" for v
    using imageI [OF that, of "\<lambda>v. rq_host (vs_request v)"] unfolding img by (auto simp only: image_iff)
  have met: "\<exists>v \<in> set vs. rq_host (vs_request v) = l @ ''.'' @ edge_domain E" if "l \<in> set ls" for l
    using imageI [OF that, of "\<lambda>l. l @ ''.'' @ edge_domain E"] unfolding img [symmetric] by (simp only: image_iff) metis
  have "series_of Requests (concat (map (visit_calls unicode E taken) vs))
      = (\<Union>v \<in> set vs. series_of Requests (visit_calls unicode E taken v))"
    by (auto simp: series_of_def)
  also have "\<dots> = (\<lambda>l. [l, ''5xx'']) ` set ls"
  proof (intro set_eqI iffI)
    fix x
    assume "x \<in> (\<Union>v \<in> set vs. series_of Requests (visit_calls unicode E taken v))"
    then obtain v where v: "v \<in> set vs" "x \<in> series_of Requests (visit_calls unicode E taken v)" by blast
    obtain l where l: "l \<in> set ls" "rq_host (vs_request v) = l @ ''.'' @ edge_domain E" using made [OF v(1)] by blast
    with one [OF v(1) l(2,1)] v(2) show "x \<in> (\<lambda>l. [l, ''5xx'']) ` set ls" by blast
  next
    fix x
    assume "x \<in> (\<lambda>l. [l, ''5xx'']) ` set ls"
    then obtain l where l: "l \<in> set ls" "x = [l, ''5xx'']" by blast
    obtain v where v: "v \<in> set vs" "rq_host (vs_request v) = l @ ''.'' @ edge_domain E" using met [OF l(1)] by blast
    with one [OF v l(1)] l(2) show "x \<in> (\<Union>v \<in> set vs. series_of Requests (visit_calls unicode E taken v))" by blast
  qed
  finally show ?thesis
    using assms(1) by (simp add: card_image inj_on_def distinct_card)
qed

definition probe :: "string \<Rightarrow> nat visit" where
  "probe l = \<lparr>vs_table = new_registry, vs_proxy = (\<lambda>s link. ([], False)),
     vs_request = \<lparr>rq_method = ''GET'', rq_host = l @ ''.t.io'', rq_remote = ''203.0.113.9:4000'',
       rq_url = \<lparr>url_scheme = [], url_host = [], url_path = ''/'', url_query = []\<rparr>, rq_header = []\<rparr>,
     vs_duration = 0\<rparr>"

theorem scan_grows_series_witness:
  "card (series_of Requests (concat (map (visit_calls id \<lparr>edge_domain = ''t.io'', edge_forward = ''https''\<rparr>
     (\<lambda>p. int (length p))) [probe ''a'', probe ''b'', probe ''c'']))) = 3"
proof -
  have labels: "\<forall>l \<in> set [''a'', ''b'', ''c'']. valid_label l" by code_simp
  have lower: "map lower_char ''t.io'' = ''t.io''" by code_simp
  show ?thesis
    using scan_grows_series [OF _ labels, of "\<lparr>edge_domain = ''t.io'', edge_forward = ''https''\<rparr>"
        "[probe ''a'', probe ''b'', probe ''c'']" id "\<lambda>p. int (length p)"] lower
    by (simp add: probe_def byte_def)
qed

end
