(* ===== verification/Tunnel_Shutdown.thy ===== *)
theory Tunnel_Shutdown
  imports Tunnel_Link
begin

text \<open>
  The connect handler's goroutines: the request side of \<^verbatim>\<open>internal/link/accept.go\<close> runs once per agent
  connection, \<^verbatim>\<open>Shutdown\<close> once per call, and a session's farewell in the background. Every step of a
  goroutine between two points where another can run is one step here; the mutex makes \<^verbatim>\<open>track\<close>,
  \<^verbatim>\<open>untrack\<close> and the two critical sections of \<^verbatim>\<open>Shutdown\<close> single steps. Connections and shutdown calls
  are numbered; a connection's session has its number.
\<close>

section \<open>The handler's state\<close>

text \<open>
  Where a connection's goroutine is: before the look at \<^verbatim>\<open>closing\<close>; authenticating; upgraded, with a
  session, before \<^verbatim>\<open>track\<close>; refused by \<^verbatim>\<open>track\<close> and waiting for \<^verbatim>\<open>Done\<close>; tracked, before \<^verbatim>\<open>Attach\<close>; waiting
  for \<^verbatim>\<open>Done\<close> or \<^verbatim>\<open>closing\<close>; told to close and waiting for \<^verbatim>\<open>Done\<close>; attach refused and waiting for
  \<^verbatim>\<open>Done\<close>; before \<^verbatim>\<open>untrack\<close>; between the two halves of \<^verbatim>\<open>untrack\<close>; returned.
\<close>

datatype conn_pc =
    CArrives | CAuthenticates | CUpgraded | CRefused | CTracked | CServing | CEnding | CFailed
  | CLeaving | CUnlisted | CReturned

text \<open>
  Where a call of \<^verbatim>\<open>Shutdown\<close> is; the flag says whether its \<^verbatim>\<open>done\<close> channel is closed. \<open>ShReturned late\<close>
  says whether the deadline passed.
\<close>

datatype shut_pc = ShNot | ShWaits bool | ShCuts bool | ShDrains bool | ShReturned bool

text \<open>What the policy is asked to write: \<^verbatim>\<open>Attach\<close>, with its outcome, and \<^verbatim>\<open>Lost\<close>.\<close>

datatype link_write = WroteAttach nat bool | WroteLost nat

record link_handler =
  lh_closing :: bool
  lh_live :: "(nat, unit) go_map"
  lh_links :: int
  lh_conn :: "nat \<Rightarrow> conn_pc"
  lh_session :: "nat \<Rightarrow> session"
  lh_shut :: "nat \<Rightarrow> shut_pc"
  lh_writes :: "link_write list"

definition new_handler :: "link_config \<Rightarrow> link_handler option" where
  "new_handler configuration =
     (if validate_link_config configuration
      then Some \<lparr>lh_closing = False, lh_live = [], lh_links = 0, lh_conn = (\<lambda>_. CArrives),
             lh_session = (\<lambda>_. new_session), lh_shut = (\<lambda>_. ShNot), lh_writes = []\<rparr>
      else None)"

definition goes :: "nat \<Rightarrow> conn_pc \<Rightarrow> link_handler \<Rightarrow> link_handler" where
  "goes c pc h = h\<lparr>lh_conn := (lh_conn h)(c := pc)\<rparr>"

definition on_session :: "nat \<Rightarrow> (session \<Rightarrow> session) \<Rightarrow> link_handler \<Rightarrow> link_handler" where
  "on_session c f h = h\<lparr>lh_session := (lh_session h)(c := f (lh_session h c))\<rparr>"

definition shuts :: "nat \<Rightarrow> shut_pc \<Rightarrow> link_handler \<Rightarrow> link_handler" where
  "shuts k pc h = h\<lparr>lh_shut := (lh_shut h)(k := pc)\<rparr>"

definition writes :: "link_write \<Rightarrow> link_handler \<Rightarrow> link_handler" where
  "writes w h = h\<lparr>lh_writes := lh_writes h @ [w]\<rparr>"

section \<open>The operations\<close>

definition track :: "nat \<Rightarrow> link_handler \<Rightarrow> link_handler \<times> bool" where
  "track c h =
     (if lh_closing h then (h, False)
      else (h\<lparr>lh_live := map_put c () (lh_live h), lh_links := lh_links h + 1\<rparr>, True))"

definition unlist :: "nat \<Rightarrow> link_handler \<Rightarrow> link_handler" where
  "unlist c h = h\<lparr>lh_live := map_delete c (lh_live h)\<rparr>"

definition links_done :: "link_handler \<Rightarrow> link_handler" where
  "links_done h = h\<lparr>lh_links := lh_links h - 1\<rparr>"

definition begin_shutdown :: "link_handler \<Rightarrow> link_handler" where
  "begin_shutdown h = h\<lparr>lh_closing := True\<rparr>"

definition cut_live :: "link_handler \<Rightarrow> link_handler" where
  "cut_live h = fold (\<lambda>c. on_session c session_cut) (map_keys (lh_live h)) h"

text \<open>
  The steps of one connection's goroutine: \<^verbatim>\<open>ServeHTTP\<close> and \<^verbatim>\<open>serve\<close>. A choice the code does not make
  (the outcome of authentication, of the upgrade, of the multiplexer and of \<^verbatim>\<open>Attach\<close>; which ready
  branch a \<^verbatim>\<open>select\<close> takes) is left open.
\<close>

inductive conn_step :: "nat \<Rightarrow> link_handler \<Rightarrow> link_handler \<Rightarrow> bool" for c where
  closing: "lh_conn h c = CArrives \<Longrightarrow> lh_closing h \<Longrightarrow> conn_step c h (goes c CReturned h)"
| open_for_links: "lh_conn h c = CArrives \<Longrightarrow> \<not> lh_closing h \<Longrightarrow> conn_step c h (goes c CAuthenticates h)"
| rejected: "lh_conn h c = CAuthenticates \<Longrightarrow> conn_step c h (goes c CReturned h)"
| upgraded: "lh_conn h c = CAuthenticates \<Longrightarrow> conn_step c h (goes c CUpgraded h)"
| unmultiplexed: "lh_conn h c = CUpgraded \<Longrightarrow> conn_step c h (goes c CReturned h)"
| tracked: "lh_conn h c = CUpgraded \<Longrightarrow> track c h = (h', True) \<Longrightarrow> conn_step c h (goes c CTracked h')"
| refused: "lh_conn h c = CUpgraded \<Longrightarrow> track c h = (h', False) \<Longrightarrow>
    conn_step c h (goes c CRefused (on_session c (session_close CloseShutdown) h'))"
| refused_ends: "lh_conn h c = CRefused \<Longrightarrow> ss_done (lh_session h c) \<Longrightarrow> conn_step c h (goes c CReturned h)"
| attached: "lh_conn h c = CTracked \<Longrightarrow> conn_step c h (goes c CServing (writes (WroteAttach c True) h))"
| unattached: "lh_conn h c = CTracked \<Longrightarrow>
    conn_step c h (goes c CFailed (on_session c (session_close (close_reason_for err)) (writes (WroteAttach c False) h)))"
| failed_ends: "lh_conn h c = CFailed \<Longrightarrow> ss_done (lh_session h c) \<Longrightarrow> conn_step c h (goes c CLeaving h)"
| link_over: "lh_conn h c = CServing \<Longrightarrow> ss_done (lh_session h c) \<Longrightarrow> conn_step c h (goes c CEnding h)"
| told: "lh_conn h c = CServing \<Longrightarrow> lh_closing h \<Longrightarrow>
    conn_step c h (goes c CEnding (on_session c (session_close CloseShutdown) h))"
| lost: "lh_conn h c = CEnding \<Longrightarrow> ss_done (lh_session h c) \<Longrightarrow>
    conn_step c h (goes c CLeaving (writes (WroteLost c) h))"
| unlisted: "lh_conn h c = CLeaving \<Longrightarrow> conn_step c h (goes c CUnlisted (unlist c h))"
| returned: "lh_conn h c = CUnlisted \<Longrightarrow> conn_step c h (goes c CReturned (links_done h))"

text \<open>The steps of one call of \<^verbatim>\<open>Shutdown\<close> and of the goroutine it starts.\<close>

inductive shut_step :: "nat \<Rightarrow> link_handler \<Rightarrow> link_handler \<Rightarrow> bool" for k where
  begins: "lh_shut h k = ShNot \<Longrightarrow> shut_step k h (shuts k (ShWaits False) (begin_shutdown h))"
| all_done: "lh_shut h k = ShWaits False \<Longrightarrow> lh_links h = 0 \<Longrightarrow> shut_step k h (shuts k (ShWaits True) h)"
| all_done_cutting: "lh_shut h k = ShCuts False \<Longrightarrow> lh_links h = 0 \<Longrightarrow> shut_step k h (shuts k (ShCuts True) h)"
| all_done_drained: "lh_shut h k = ShDrains False \<Longrightarrow> lh_links h = 0 \<Longrightarrow> shut_step k h (shuts k (ShDrains True) h)"
| in_time: "lh_shut h k = ShWaits True \<Longrightarrow> shut_step k h (shuts k (ShReturned False) h)"
| deadline: "lh_shut h k = ShWaits d \<Longrightarrow> shut_step k h (shuts k (ShCuts d) h)"
| cuts: "lh_shut h k = ShCuts d \<Longrightarrow> shut_step k h (shuts k (ShDrains d) (cut_live h))"
| late: "lh_shut h k = ShDrains True \<Longrightarrow> shut_step k h (shuts k (ShReturned True) h)"

text \<open>What happens to a session from outside: the policy closes it, its farewell ends, the link breaks.\<close>

inductive session_step :: "session \<Rightarrow> session \<Rightarrow> bool" where
  evicted: "session_step s (session_close reason s)"
| farewell: "ss_farewell s = Some reason \<Longrightarrow> session_step s (session_farewell s)"
| breaks: "session_step s (s\<lparr>ss_done := True\<rparr>)"

inductive link_step :: "link_handler \<Rightarrow> link_handler \<Rightarrow> bool" where
  by_conn: "conn_step c h h' \<Longrightarrow> link_step h h'"
| by_shutdown: "shut_step k h h' \<Longrightarrow> link_step h h'"
| by_session: "session_step (lh_session h c) s \<Longrightarrow> link_step h (on_session c (\<lambda>_. s) h)"

inductive link_reach :: "link_handler \<Rightarrow> link_handler \<Rightarrow> bool" for h0 where
  start: "link_reach h0 h0"
| step: "link_reach h0 h \<Longrightarrow> link_step h h' \<Longrightarrow> link_reach h0 h'"

section \<open>The invariant\<close>

text \<open>Connections the wait group counts, and those in the live set.\<close>

definition counted :: "conn_pc \<Rightarrow> bool" where
  "counted pc \<longleftrightarrow> pc \<in> {CTracked, CServing, CEnding, CFailed, CLeaving, CUnlisted}"

definition listed :: "conn_pc \<Rightarrow> bool" where
  "listed pc \<longleftrightarrow> counted pc \<and> pc \<noteq> CUnlisted"

definition saw_none :: "shut_pc \<Rightarrow> bool" where
  "saw_none pc \<longleftrightarrow> pc \<in> {ShWaits True, ShCuts True, ShDrains True, ShReturned True, ShReturned False}"

lemma counted_simps [simp]:
  "\<not> counted CArrives" "\<not> counted CAuthenticates" "\<not> counted CUpgraded" "\<not> counted CRefused" "\<not> counted CReturned"
  "counted CTracked" "counted CServing" "counted CEnding" "counted CFailed" "counted CLeaving" "counted CUnlisted"
  by (simp_all add: counted_def)

lemma listed_simps [simp]:
  "\<not> listed CArrives" "\<not> listed CAuthenticates" "\<not> listed CUpgraded" "\<not> listed CRefused" "\<not> listed CReturned"
  "listed CTracked" "listed CServing" "listed CEnding" "listed CFailed" "listed CLeaving" "\<not> listed CUnlisted"
  by (simp_all add: listed_def)

lemma saw_none_simps [simp]:
  "\<not> saw_none ShNot" "saw_none (ShWaits d) \<longleftrightarrow> d" "saw_none (ShCuts d) \<longleftrightarrow> d" "saw_none (ShDrains d) \<longleftrightarrow> d"
  "saw_none (ShReturned b)"
  by (auto simp: saw_none_def)

lemma goes_fields [simp]:
  "lh_conn (goes c pc h) = (lh_conn h)(c := pc)" "lh_closing (goes c pc h) = lh_closing h"
  "lh_live (goes c pc h) = lh_live h" "lh_links (goes c pc h) = lh_links h"
  "lh_session (goes c pc h) = lh_session h" "lh_shut (goes c pc h) = lh_shut h"
  "lh_writes (goes c pc h) = lh_writes h"
  by (simp_all add: goes_def)

lemma on_session_fields [simp]:
  "lh_session (on_session c f h) = (lh_session h)(c := f (lh_session h c))"
  "lh_conn (on_session c f h) = lh_conn h" "lh_closing (on_session c f h) = lh_closing h"
  "lh_live (on_session c f h) = lh_live h" "lh_links (on_session c f h) = lh_links h"
  "lh_shut (on_session c f h) = lh_shut h" "lh_writes (on_session c f h) = lh_writes h"
  by (simp_all add: on_session_def)

lemma shuts_fields [simp]:
  "lh_shut (shuts k pc h) = (lh_shut h)(k := pc)" "lh_closing (shuts k pc h) = lh_closing h"
  "lh_live (shuts k pc h) = lh_live h" "lh_links (shuts k pc h) = lh_links h"
  "lh_session (shuts k pc h) = lh_session h" "lh_conn (shuts k pc h) = lh_conn h"
  "lh_writes (shuts k pc h) = lh_writes h"
  by (simp_all add: shuts_def)

lemma writes_fields [simp]:
  "lh_writes (writes w h) = lh_writes h @ [w]" "lh_closing (writes w h) = lh_closing h"
  "lh_live (writes w h) = lh_live h" "lh_links (writes w h) = lh_links h"
  "lh_session (writes w h) = lh_session h" "lh_conn (writes w h) = lh_conn h"
  "lh_shut (writes w h) = lh_shut h"
  by (simp_all add: writes_def)

lemma session_fields [simp]:
  "ss_done (session_close reason s) = ss_done s" "ss_done (session_cut s)" "ss_done (session_farewell s)"
  by (simp_all add: session_close_def session_cut_def session_farewell_def)

lemma session_step_done: "session_step s s' \<Longrightarrow> ss_done s \<Longrightarrow> ss_done s'"
  by (cases rule: session_step.cases) auto

lemma fold_cut:
  "lh_conn (fold (\<lambda>c. on_session c session_cut) cs h) = lh_conn h"
  "lh_closing (fold (\<lambda>c. on_session c session_cut) cs h) = lh_closing h"
  "lh_live (fold (\<lambda>c. on_session c session_cut) cs h) = lh_live h"
  "lh_links (fold (\<lambda>c. on_session c session_cut) cs h) = lh_links h"
  "lh_shut (fold (\<lambda>c. on_session c session_cut) cs h) = lh_shut h"
  "lh_writes (fold (\<lambda>c. on_session c session_cut) cs h) = lh_writes h"
  "ss_done (lh_session (fold (\<lambda>c. on_session c session_cut) cs h) c)
     \<longleftrightarrow> ss_done (lh_session h c) \<or> c \<in> set cs"
  by (induction cs arbitrary: h) auto

lemma cut_live_fields [simp]:
  "lh_conn (cut_live h) = lh_conn h" "lh_closing (cut_live h) = lh_closing h"
  "lh_live (cut_live h) = lh_live h" "lh_links (cut_live h) = lh_links h"
  "lh_shut (cut_live h) = lh_shut h" "lh_writes (cut_live h) = lh_writes h"
  "ss_done (lh_session (cut_live h) c) \<longleftrightarrow> ss_done (lh_session h c) \<or> c \<in> set (map_keys (lh_live h))"
  by (simp_all add: cut_live_def fold_cut)

lemmas op_defs = track_def unlist_def links_done_def begin_shutdown_def

text \<open>The wait group's counter and the live set follow the goroutines.\<close>

definition counting :: "link_handler \<Rightarrow> bool" where
  "counting h \<longleftrightarrow> finite {c. counted (lh_conn h c)} \<and> lh_links h = int (card {c. counted (lh_conn h c)})
     \<and> (\<forall>c. map_get (lh_live h) c \<noteq> None \<longleftrightarrow> listed (lh_conn h c))"

definition shutting :: "link_handler \<Rightarrow> bool" where
  "shutting h \<longleftrightarrow> (\<forall>k. lh_shut h k \<noteq> ShNot \<longrightarrow> lh_closing h)
     \<and> (\<forall>k. saw_none (lh_shut h k) \<longrightarrow> lh_links h = 0)
     \<and> (\<forall>k d c. lh_shut h k = ShDrains d \<and> listed (lh_conn h c) \<longrightarrow> ss_done (lh_session h c))"

text \<open>Each attached link is reported lost once, before its goroutine leaves.\<close>

definition write_state :: "link_handler \<Rightarrow> nat \<Rightarrow> bool" where
  "write_state h c \<longleftrightarrow>
     (if lh_conn h c \<in> {CServing, CEnding}
      then WroteAttach c True \<in> set (lh_writes h) \<and> WroteLost c \<notin> set (lh_writes h)
      else if lh_conn h c \<in> {CFailed, CLeaving, CUnlisted, CReturned}
      then WroteAttach c True \<in> set (lh_writes h) \<longleftrightarrow> WroteLost c \<in> set (lh_writes h)
      else WroteAttach c True \<notin> set (lh_writes h) \<and> WroteAttach c False \<notin> set (lh_writes h)
        \<and> WroteLost c \<notin> set (lh_writes h))"

definition recording :: "link_handler \<Rightarrow> bool" where
  "recording h \<longleftrightarrow> distinct (lh_writes h) \<and> (\<forall>c. write_state h c)"

lemma counted_goes:
  "{x. counted (((lh_conn h)(c := pc)) x)} =
    (if counted pc then insert c {x. counted (lh_conn h x)} else {x. counted (lh_conn h x)} - {c})"
  by auto

lemma counting_same:
  assumes "counting h" and "lh_conn h' = lh_conn h" and "lh_links h' = lh_links h" and "lh_live h' = lh_live h"
    and "counted (lh_conn h c) = counted pc" and "listed (lh_conn h c) = listed pc"
  shows "counting (goes c pc h')"
proof -
  have "{x. counted (lh_conn (goes c pc h') x)} = {x. counted (lh_conn h x)}" using assms(2,5) by auto
  then show ?thesis using assms by (auto simp: counting_def)
qed

lemma conn_counting: "conn_step c h h' \<Longrightarrow> counting h \<Longrightarrow> counting h'"
proof (induction rule: conn_step.induct)
  case (tracked h h')
  then have h': "h' = h\<lparr>lh_live := map_put c () (lh_live h), lh_links := lh_links h + 1\<rparr>"
    by (simp add: track_def split: if_splits)
  have "c \<notin> {c. counted (lh_conn h c)}" using tracked by simp
  with tracked(3) have "finite {x. counted (lh_conn (goes c CTracked h') x)}"
    "lh_links (goes c CTracked h') = int (card {x. counted (lh_conn (goes c CTracked h') x)})"
    unfolding h' counting_def by (simp_all add: counted_goes del: fun_upd_apply)
  with tracked(3) show ?case unfolding counting_def by (simp add: h')
next
  case (returned h)
  let ?S = "{x. counted (lh_conn h x)}"
  have eq: "{x. counted (lh_conn (goes c CReturned (links_done h)) x)} = ?S - {c}" by (auto simp: op_defs)
  have "c \<in> ?S" and fin: "finite ?S" using returned by (simp_all add: counting_def)
  then have "int (card (?S - {c})) = int (card ?S) - 1" using card.remove [of ?S c] by linarith
  with returned fin show ?case unfolding counting_def eq by (simp add: op_defs)
next
  case (unlisted h)
  then have eq: "{x. counted (lh_conn (goes c CUnlisted (unlist c h)) x)} = {x. counted (lh_conn h x)}"
    by (auto simp: op_defs)
  with unlisted show ?case unfolding counting_def eq by (simp add: op_defs)
qed (simp_all add: op_defs split: if_splits, (erule counting_same, simp_all)+)

lemma step_counting: "link_step h h' \<Longrightarrow> counting h \<Longrightarrow> counting h'"
proof (induction rule: link_step.induct)
  case (by_shutdown k h h')
  then show ?case by (cases rule: shut_step.cases) (auto simp: counting_def op_defs)
next
  case (by_session h c s)
  then show ?case by (simp add: counting_def)
qed (rule conn_counting)

lemma no_links: "counting h \<Longrightarrow> lh_links h = 0 \<longleftrightarrow> (\<forall>c. \<not> counted (lh_conn h c))"
  by (auto simp: counting_def)

lemma conn_shutting: "conn_step c h h' \<Longrightarrow> counting h \<Longrightarrow> shutting h \<Longrightarrow> shutting h'"
proof (induction rule: conn_step.induct)
  case (returned h)
  then have "counted (lh_conn h c)" by simp
  then have "lh_links h \<noteq> 0" using no_links [OF returned(2)] by blast
  with returned show ?case by (auto simp: shutting_def op_defs)
next
  case (tracked h h')
  then have "lh_shut h k = ShNot" for k by (auto simp: shutting_def op_defs split: if_splits)
  with tracked show ?case by (auto simp: shutting_def op_defs split: if_splits)
qed (auto simp: shutting_def op_defs split: if_splits)

lemma step_shutting: "link_step h h' \<Longrightarrow> counting h \<Longrightarrow> shutting h \<Longrightarrow> shutting h'"
proof (induction rule: link_step.induct)
  case (by_shutdown k h h')
  have live: "c \<in> set (map_keys (lh_live h))" if "listed (lh_conn h c)" for c
    using by_shutdown(2) that by (auto simp: counting_def map_keys_def map_get_None_iff)
  have seen: "saw_none (lh_shut h k) \<Longrightarrow> lh_links h = 0"
    using by_shutdown(3) unfolding shutting_def by blast
  from by_shutdown(1) show ?case
    by (cases rule: shut_step.cases) (use live seen by_shutdown(3) in \<open>auto simp: shutting_def op_defs\<close>)
next
  case (by_session h c s)
  then show ?case by (auto simp: shutting_def dest: session_step_done)
qed (rule conn_shutting)

lemma write_state_other:
  assumes "write_state h d" and "lh_conn h' d = lh_conn h d"
    and "\<And>w. w \<in> {WroteAttach d True, WroteAttach d False, WroteLost d} \<Longrightarrow>
      w \<in> set (lh_writes h') \<longleftrightarrow> w \<in> set (lh_writes h)"
  shows "write_state h' d"
  using assms(1) unfolding write_state_def by (simp add: assms(2,3))

lemma conn_recording: "conn_step c h h' \<Longrightarrow> recording h \<Longrightarrow> recording h'"
proof -
  assume step: "conn_step c h h'" and rec: "recording h"
  then have c: "write_state h c" and dist: "distinct (lh_writes h)" by (auto simp: recording_def)
  from step have "lh_conn h' d = lh_conn h d \<and>
      (\<forall>w \<in> {WroteAttach d True, WroteAttach d False, WroteLost d}. w \<in> set (lh_writes h') \<longleftrightarrow> w \<in> set (lh_writes h))"
    if "d \<noteq> c" for d
    using that by (cases rule: conn_step.cases) (auto simp: op_defs split: if_splits)
  then have "write_state h' d" if "d \<noteq> c" for d
    using that rec write_state_other [of h d h'] by (auto simp: recording_def)
  moreover have own: "write_state h' c \<and> distinct (lh_writes h')"
    using step c dist by (cases rule: conn_step.cases) (auto simp: write_state_def op_defs split: if_splits)
  ultimately have "write_state h' d" for d by (cases "d = c") auto
  with own show "recording h'" by (simp add: recording_def)
qed

lemma step_recording: "link_step h h' \<Longrightarrow> recording h \<Longrightarrow> recording h'"
proof (induction rule: link_step.induct)
  case (by_shutdown k h h')
  then show ?case by (cases rule: shut_step.cases) (auto simp: recording_def write_state_def op_defs)
next
  case (by_session h c s)
  then show ?case by (simp add: recording_def write_state_def)
qed (rule conn_recording)

definition handler_inv :: "link_handler \<Rightarrow> bool" where
  "handler_inv h \<longleftrightarrow> counting h \<and> shutting h \<and> recording h"

lemma new_handler_inv: "new_handler configuration = Some h \<Longrightarrow> handler_inv h"
  by (auto simp: new_handler_def handler_inv_def counting_def shutting_def recording_def write_state_def
      split: if_splits)

lemma link_step_inv: "link_step h h' \<Longrightarrow> handler_inv h \<Longrightarrow> handler_inv h'"
  using step_counting step_shutting step_recording by (auto simp: handler_inv_def)

lemma reach_handler_inv: "link_reach h0 h \<Longrightarrow> handler_inv h0 \<Longrightarrow> handler_inv h"
  by (induction rule: link_reach.induct) (auto intro: link_step_inv)

section \<open>After a shutdown has returned\<close>

lemma step_returned: "link_step h h' \<Longrightarrow> lh_shut h k = ShReturned b \<Longrightarrow> lh_shut h' k = ShReturned b"
proof (induction rule: link_step.induct)
  case (by_conn c h h')
  then show ?case by (cases rule: conn_step.cases) (auto simp: op_defs split: if_splits)
next
  case (by_shutdown j h h')
  then show ?case by (cases rule: shut_step.cases) (auto simp: op_defs)
qed simp

lemma step_writes:
  assumes "link_step h h'" and "\<And>c. \<not> counted (lh_conn h c)"
  shows "lh_writes h' = lh_writes h"
  using assms
proof (induction rule: link_step.induct)
  case (by_conn c h h')
  from by_conn(1) show ?case
    by (cases rule: conn_step.cases) (use by_conn(2) [of c] in \<open>auto simp: op_defs split: if_splits\<close>)
next
  case (by_shutdown k h h')
  from by_shutdown(1) show ?case by (cases rule: shut_step.cases) (auto simp: op_defs)
qed simp

lemma returned_empty:
  assumes "handler_inv h" and "lh_shut h k = ShReturned late"
  shows "lh_links h = 0" and "\<not> counted (lh_conn h c)" and "map_keys (lh_live h) = []"
proof -
  have "saw_none (lh_shut h k)" using assms(2) by simp
  with assms(1) show links: "lh_links h = 0" by (auto simp: handler_inv_def shutting_def)
  with no_links [of h] assms(1) show none: "\<not> counted (lh_conn h c)" for c by (auto simp: handler_inv_def)
  have empty: "map_get (lh_live h) c = None" for c
    using none [of c] assms(1) unfolding handler_inv_def counting_def listed_def by blast
  show "map_keys (lh_live h) = []"
  proof (cases "lh_live h")
    case (Cons p r)
    with empty [of "fst p"] show ?thesis by (simp add: map_get_None_iff)
  qed (simp add: map_keys_def)
qed

lemma links_over:
  assumes "new_handler configuration = Some h0" and "link_reach h0 h" and "lh_shut h k = ShReturned late"
    and "link_reach h h'"
  shows "lh_writes h' = lh_writes h \<and> map_keys (lh_live h') = [] \<and> lh_links h' = 0
    \<and> distinct (lh_writes h')
    \<and> (\<forall>c. WroteAttach c True \<in> set (lh_writes h') \<longleftrightarrow> WroteLost c \<in> set (lh_writes h'))
    \<and> (\<forall>c. \<not> counted (lh_conn h' c))"
proof -
  have inv: "handler_inv h" using reach_handler_inv [OF assms(2) new_handler_inv [OF assms(1)]] .
  from assms(4) have after: "handler_inv h' \<and> lh_shut h' k = ShReturned late \<and> lh_writes h' = lh_writes h"
  proof (induction rule: link_reach.induct)
    case (step h1 h2)
    from step.IH have inv1: "handler_inv h1" and ret: "lh_shut h1 k = ShReturned late" by auto
    have "lh_writes h2 = lh_writes h1"
      using step_writes [OF step.hyps(2)] returned_empty(2) [OF inv1 ret] by blast
    with step.IH link_step_inv [OF step.hyps(2)] step_returned [OF step.hyps(2)] show ?case by simp
  qed (use inv assms(3) in simp)
  then have inv': "handler_inv h'" and ret': "lh_shut h' k = ShReturned late" by auto
  have "write_state h' c" and "\<not> counted (lh_conn h' c)" for c
    using inv' returned_empty(2) [OF inv' ret'] by (auto simp: handler_inv_def recording_def)
  then have "WroteAttach c True \<in> set (lh_writes h') \<longleftrightarrow> WroteLost c \<in> set (lh_writes h')" for c
    by (cases "lh_conn h' c") (auto simp: write_state_def counted_def split: if_splits)
  moreover have "distinct (lh_writes h')" using inv' by (auto simp: handler_inv_def recording_def)
  ultimately show ?thesis using after returned_empty [OF inv' ret'] by blast
qed

text \<open>
  C27: when \<^verbatim>\<open>Shutdown\<close> has returned, whether in time or after cutting the links at its deadline, the
  links are over for good. However connections, evictions, farewells, broken links and further calls
  of \<^verbatim>\<open>Shutdown\<close> interleave: no link is live and none is counted, the policy is asked for nothing any
  more, so that the store may be closed, and every link that was attached has been reported lost,
  exactly once. No connection that comes later is tracked.
\<close>

theorem shutdown_is_final:
  assumes "new_handler configuration = Some h0" and "link_reach h0 h" and "lh_shut h k = ShReturned late"
    and "link_reach h h'"
  shows "lh_writes h' = lh_writes h \<and> map_keys (lh_live h') = [] \<and> lh_links h' = 0
    \<and> distinct (lh_writes h')
    \<and> (\<forall>c. WroteAttach c True \<in> set (lh_writes h') \<longleftrightarrow> WroteLost c \<in> set (lh_writes h'))
    \<and> (\<forall>c. \<not> counted (lh_conn h' c))"
  by (rule links_over [OF assms])

section \<open>A cut shutdown ends\<close>

text \<open>How many steps the counted connections have left.\<close>

fun rank :: "conn_pc \<Rightarrow> nat" where
  "rank CTracked = 5"
| "rank CServing = 4"
| "rank CEnding = 3"
| "rank CFailed = 3"
| "rank CLeaving = 2"
| "rank CUnlisted = 1"
| "rank _ = 0"

definition pending :: "link_handler \<Rightarrow> nat" where
  "pending h = (\<Sum>c \<in> {c. counted (lh_conn h c)}. rank (lh_conn h c))"

lemma rank_counted: "rank pc = 0 \<longleftrightarrow> \<not> counted pc"
  by (cases pc) auto

lemma pending_goes:
  assumes "finite {c. counted (lh_conn h c)}" and "lh_conn h' = (lh_conn h)(c := pc)"
  shows "pending h' + rank (lh_conn h c) = pending h + rank pc"
proof -
  let ?S = "insert c {x. counted (lh_conn h x)}"
  have fin: "finite ?S" using assms(1) by simp
  have total: "pending g = (\<Sum>x \<in> ?S. rank (lh_conn g x))" if "{x. counted (lh_conn g x)} \<subseteq> ?S" for g
    unfolding pending_def using that fin by (intro sum.mono_neutral_left) (auto simp: rank_counted)
  have "pending h = rank (lh_conn h c) + (\<Sum>x \<in> ?S - {c}. rank (lh_conn h x))"
    using total [OF subset_insertI] sum.remove [OF fin insertI1, of "\<lambda>x. rank (lh_conn h x)"] by simp
  moreover have "pending h' = rank pc + (\<Sum>x \<in> ?S - {c}. rank (lh_conn h x))"
  proof -
    have "pending h' = (\<Sum>x \<in> ?S. rank (lh_conn h' x))" using assms(2) by (intro total) auto
    then show ?thesis using sum.remove [OF fin insertI1, of "\<lambda>x. rank (lh_conn h' x)"] assms(2) by simp
  qed
  ultimately show ?thesis by simp
qed

lemma conn_pending:
  assumes "conn_step c h h'" and "counting h" and "lh_closing h"
  shows "pending h' + (if counted (lh_conn h c) then 1 else 0) \<le> pending h"
proof -
  have fin: "finite {c. counted (lh_conn h c)}" using assms(2) by (simp add: counting_def)
  obtain pc where pc: "lh_conn h' = (lh_conn h)(c := pc)"
      "rank pc + (if counted (lh_conn h c) then 1 else 0) \<le> rank (lh_conn h c)"
    using assms(1,3) by (cases rule: conn_step.cases) (auto simp: op_defs split: if_splits)
  from pending_goes [OF fin pc(1)] pc(2) show ?thesis by linarith
qed

lemma step_conn: "link_step h h' \<Longrightarrow> (\<exists>c. conn_step c h h') \<or> lh_conn h' = lh_conn h"
proof (induction rule: link_step.induct)
  case (by_shutdown k h h')
  then show ?case by (cases rule: shut_step.cases) (auto simp: op_defs)
qed auto

lemma step_pending:
  assumes "link_step h h'" and "counting h" and "lh_closing h"
  shows "pending h' \<le> pending h"
  using step_conn [OF assms(1)]
proof
  assume "\<exists>c. conn_step c h h'"
  then obtain c where "conn_step c h h'" by blast
  from conn_pending [OF this assms(2,3)] show ?thesis by (simp split: if_splits)
qed (simp add: pending_def)

lemma step_drains:
  assumes "link_step h h'" and "lh_shut h k \<in> {ShDrains False, ShDrains True, ShReturned True}"
  shows "lh_shut h' k \<in> {ShDrains False, ShDrains True, ShReturned True}"
  using assms
proof (induction rule: link_step.induct)
  case (by_conn c h h')
  then show ?case by (cases rule: conn_step.cases) (auto simp: op_defs split: if_splits)
next
  case (by_shutdown j h h')
  then show ?case by (cases rule: shut_step.cases) (auto simp: op_defs)
qed simp

lemma conn_enabled:
  assumes "shutting h" and "lh_shut h k = ShDrains d" and "counted (lh_conn h c)"
  shows "\<exists>h'. conn_step c h h'"
proof -
  have ended: "ss_done (lh_session h c)" if "listed (lh_conn h c)"
    using assms(1,2) that unfolding shutting_def by blast
  show ?thesis
  proof (cases "lh_conn h c")
    case CTracked then show ?thesis by (blast intro: conn_step.attached)
  next
    case CServing with ended show ?thesis by (auto intro: conn_step.link_over)
  next
    case CEnding with ended show ?thesis by (auto intro: conn_step.lost)
  next
    case CFailed with ended show ?thesis by (auto intro: conn_step.failed_ends)
  next
    case CLeaving then show ?thesis by (blast intro: conn_step.unlisted)
  next
    case CUnlisted then show ?thesis by (blast intro: conn_step.returned)
  qed (use assms(3) in simp_all)
qed

text \<open>Runs that count the steps of tracked connections; \<open>others\<close> may be any steps at all.\<close>

inductive link_run :: "link_handler \<Rightarrow> nat \<Rightarrow> link_handler \<Rightarrow> bool" for h0 where
  none: "link_run h0 0 h0"
| own: "link_run h0 n h \<Longrightarrow> counted (lh_conn h c) \<Longrightarrow> conn_step c h h' \<Longrightarrow> link_run h0 (Suc n) h'"
| others: "link_run h0 n h \<Longrightarrow> link_step h h' \<Longrightarrow> link_run h0 n h'"

lemma run_pending:
  assumes "link_run h n h'" and "handler_inv h" and "lh_shut h k = ShDrains d"
  shows "handler_inv h' \<and> lh_shut h' k \<in> {ShDrains False, ShDrains True, ShReturned True}
    \<and> n + pending h' \<le> pending h"
  using assms(1)
proof (induction rule: link_run.induct)
  case none
  show ?case using assms(2,3) by auto
next
  case (own n g c g')
  then have inv: "handler_inv g" and at: "lh_shut g k \<in> {ShDrains False, ShDrains True, ShReturned True}" by auto
  have step: "link_step g g'" using own.hyps(3) by (rule link_step.by_conn)
  have "lh_shut g k \<noteq> ShNot" using at by auto
  with inv have "lh_closing g" "counting g" by (auto simp: handler_inv_def shutting_def)
  with conn_pending [OF own.hyps(3)] own have "pending g' + 1 \<le> pending g" by simp
  with own.IH link_step_inv [OF step inv] step_drains [OF step at] show ?case by simp
next
  case (others n g g')
  then have inv: "handler_inv g" and at: "lh_shut g k \<in> {ShDrains False, ShDrains True, ShReturned True}" by auto
  have "lh_shut g k \<noteq> ShNot" using at by auto
  with inv have "lh_closing g" "counting g" by (auto simp: handler_inv_def shutting_def)
  with step_pending [OF others.hyps(2)] others.IH link_step_inv [OF others.hyps(2) inv] step_drains [OF others.hyps(2) at]
  show ?case by simp
qed

text \<open>
  C28: a shutdown that has cut the links ends. From then on, whatever else happens, the tracked
  connections take no more than the steps they had left, and as long as the call has not returned
  one of them, or the call itself, can go on: none of them waits for a peer. So it returns once
  each of these goroutines is scheduled that often.
\<close>

theorem shutdown_drains:
  assumes "new_handler configuration = Some h0" and "link_reach h0 h" and "lh_shut h k = ShDrains d"
    and "link_run h n h'"
  shows "n \<le> pending h \<and> (lh_shut h' k = ShReturned True \<or> (\<exists>h''. shut_step k h' h'')
     \<or> (\<exists>c h''. counted (lh_conn h' c) \<and> conn_step c h' h''))"
proof -
  have "handler_inv h" by (rule reach_handler_inv [OF assms(2) new_handler_inv [OF assms(1)]])
  from run_pending [OF assms(4) this assms(3)] have
    inv: "handler_inv h'" and at: "lh_shut h' k \<in> {ShDrains False, ShDrains True, ShReturned True}"
    and n: "n \<le> pending h" by auto
  have "\<exists>c h''. counted (lh_conn h' c) \<and> conn_step c h' h''"
    if drains: "lh_shut h' k = ShDrains False" and links: "lh_links h' \<noteq> 0"
  proof -
    obtain c where "counted (lh_conn h' c)" using no_links [of h'] inv links by (auto simp: handler_inv_def)
    with conn_enabled [of h' k False c] inv drains show ?thesis by (auto simp: handler_inv_def)
  qed
  with at n show ?thesis by (auto intro: shut_step.all_done_drained shut_step.late)
qed

section \<open>One link through a late shutdown\<close>

definition idle_handler :: link_handler where
  "idle_handler = the (new_handler default_link_config)"

definition serving_handler :: link_handler where
  "serving_handler = goes 0 CServing (writes (WroteAttach 0 True)
     (goes 0 CTracked (fst (track 0 (goes 0 CUpgraded (goes 0 CAuthenticates idle_handler))))))"

definition cut_handler :: link_handler where
  "cut_handler = shuts 0 (ShDrains False) (cut_live (shuts 0 (ShCuts False)
     (shuts 0 (ShWaits False) (begin_shutdown serving_handler))))"

definition left_handler :: link_handler where
  "left_handler = goes 0 CReturned (links_done (goes 0 CUnlisted (unlist 0 (goes 0 CLeaving
     (writes (WroteLost 0) (goes 0 CEnding cut_handler))))))"

definition returned_handler :: link_handler where
  "returned_handler = shuts 0 (ShReturned True) (shuts 0 (ShDrains True) left_handler)"

lemma default_config_valid: "validate_link_config default_link_config"
  by (simp add: validate_link_config_def default_link_config_def second_def)

lemma idle_new: "new_handler default_link_config = Some idle_handler"
  by (simp add: idle_handler_def new_handler_def default_config_valid)

lemma idle_fields:
  "lh_conn idle_handler c = CArrives" "\<not> lh_closing idle_handler" "lh_live idle_handler = []"
  "lh_links idle_handler = 0" "lh_shut idle_handler k = ShNot"
  by (simp_all add: idle_handler_def new_handler_def default_config_valid)

lemmas reach_conn = link_reach.step [OF _ by_conn]
lemmas reach_shut = link_reach.step [OF _ by_shutdown]

lemma reach_serving: "link_reach idle_handler serving_handler"
proof -
  let ?h1 = "goes 0 CAuthenticates idle_handler" and ?h2 = "goes 0 CUpgraded (goes 0 CAuthenticates idle_handler)"
  have 1: "link_reach idle_handler ?h1"
    by (rule reach_conn [OF link_reach.start conn_step.open_for_links]) (simp_all add: idle_fields)
  have 2: "link_reach idle_handler ?h2"
    by (rule reach_conn [OF 1 conn_step.upgraded]) simp
  have 3: "link_reach idle_handler (goes 0 CTracked (fst (track 0 ?h2)))"
    by (rule reach_conn [OF 2 conn_step.tracked]) (simp_all add: track_def idle_fields)
  show ?thesis unfolding serving_handler_def
    by (rule reach_conn [OF 3 conn_step.attached]) simp
qed

lemma serving_fields:
  "lh_conn serving_handler 0 = CServing" "lh_shut serving_handler k = ShNot"
  "map_keys (lh_live serving_handler) = [0]" "lh_links serving_handler = 1"
  by (simp_all add: serving_handler_def track_def idle_fields map_keys_def map_put_def)

lemma reach_cut: "link_reach idle_handler cut_handler"
proof -
  let ?h1 = "shuts 0 (ShWaits False) (begin_shutdown serving_handler)"
  have 1: "link_reach idle_handler ?h1"
    by (rule reach_shut [OF reach_serving shut_step.begins]) (simp add: serving_fields)
  have 2: "link_reach idle_handler (shuts 0 (ShCuts False) ?h1)"
    by (rule reach_shut [OF 1 shut_step.deadline]) simp
  show ?thesis unfolding cut_handler_def
    by (rule reach_shut [OF 2 shut_step.cuts]) simp
qed

lemma cut_fields:
  "lh_conn cut_handler 0 = CServing" "lh_shut cut_handler 0 = ShDrains False"
  "ss_done (lh_session cut_handler 0)" "lh_links cut_handler = 1"
  by (simp_all add: cut_handler_def serving_fields begin_shutdown_def)

lemma reach_returned: "link_reach idle_handler returned_handler"
proof -
  let ?h1 = "goes 0 CEnding cut_handler"
  let ?h2 = "goes 0 CLeaving (writes (WroteLost 0) ?h1)"
  let ?h3 = "goes 0 CUnlisted (unlist 0 ?h2)"
  have 1: "link_reach idle_handler ?h1"
    by (rule reach_conn [OF reach_cut conn_step.link_over]) (simp_all add: cut_fields)
  have 2: "link_reach idle_handler ?h2"
    by (rule reach_conn [OF 1 conn_step.lost]) (simp_all add: cut_fields)
  have 3: "link_reach idle_handler ?h3"
    by (rule reach_conn [OF 2 conn_step.unlisted]) simp
  have 4: "link_reach idle_handler left_handler" unfolding left_handler_def
    by (rule reach_conn [OF 3 conn_step.returned]) simp
  have 5: "link_reach idle_handler (shuts 0 (ShDrains True) left_handler)"
    by (rule reach_shut [OF 4 shut_step.all_done_drained])
      (simp_all add: left_handler_def links_done_def unlist_def cut_fields)
  show ?thesis unfolding returned_handler_def
    by (rule reach_shut [OF 5 shut_step.late]) simp
qed

theorem shutdown_is_final_witness:
  "WroteLost 0 \<in> set (lh_writes returned_handler) \<and> lh_links returned_handler = 0"
proof -
  have "lh_shut returned_handler 0 = ShReturned True" by (simp add: returned_handler_def)
  from shutdown_is_final [OF idle_new reach_returned this link_reach.start] show ?thesis
    by (simp add: returned_handler_def left_handler_def links_done_def unlist_def)
qed

theorem shutdown_drains_witness:
  "\<exists>c h''. counted (lh_conn cut_handler c) \<and> conn_step c cut_handler h''"
proof -
  have "lh_shut cut_handler 0 \<noteq> ShReturned True" by (simp add: cut_fields)
  moreover have "\<not> shut_step 0 cut_handler h''" for h''
    by (auto elim!: shut_step.cases simp: cut_fields)
  ultimately show ?thesis
    using shutdown_drains [OF idle_new reach_cut cut_fields(2) link_run.none] by blast
qed

end
