(* ===== verification/Tunnel_Database_File.thy ===== *)
theory Tunnel_Database_File
  imports Tunnel_Store
begin

text \<open>
  Opening the tunnel's database: \<^verbatim>\<open>Open\<close> of \<^verbatim>\<open>internal/store/sqlite/sqlite.go\<close>. The file is made private
  before the driver sees it, and the tables are made in one transaction, so a file has both or none.
\<close>

section \<open>The file\<close>

text \<open>A file that is there: its permission bits, and the tables once they were made.\<close>

record 't database_file =
  df_mode :: int
  df_tables :: "'t tunnel_database option"

datatype opening_call =
    CreateFile | ChmodFile | CloseFile | OpenDatabase | ExecPragma nat | BeginSchema | ExecSchema nat | CommitSchema

text \<open>\<^verbatim>\<open>0o600\<close>: read and written by the owner.\<close>

definition private_mode :: int where
  "private_mode = 6 * 8 * 8"

definition stored_tables :: "'t database_file option \<Rightarrow> 't tunnel_database" where
  "stored_tables found =
     (case found of
        None \<Rightarrow> empty_tunnel_database
      | Some f \<Rightarrow> (case df_tables f of None \<Rightarrow> empty_tunnel_database | Some db \<Rightarrow> db))"

section \<open>Opening\<close>

text \<open>A new file gets its bits from \<^verbatim>\<open>OpenFile\<close>, one that was there keeps its own until \<^verbatim>\<open>Chmod\<close>.\<close>

definition secure_database_file ::
  "(opening_call \<Rightarrow> bool) \<Rightarrow> 't database_file option \<Rightarrow>
     't database_file option \<times> (tunnel_error + 't database_file)" where
  "secure_database_file io found =
     (if io CreateFile then (found, Inl (TInternal ''create private tunnel sqlite file''))
      else let opened = (case found of None \<Rightarrow> \<lparr>df_mode = private_mode, df_tables = None\<rparr> | Some f \<Rightarrow> f);
               moded = (if io ChmodFile then opened else opened\<lparr>df_mode := private_mode\<rparr>)
           in (Some moded,
               if io ChmodFile \<or> io CloseFile then Inl (TInternal ''secure tunnel sqlite file'') else Inr moded))"

definition pragmas :: "string list" where
  "pragmas = [''foreign_keys = ON'', ''journal_mode = WAL'', ''synchronous = FULL'', ''busy_timeout = 5000'']"

definition schema :: "string list" where
  "schema = [''claims'', ''audit'']"

text \<open>Statements run in order until one fails.\<close>

fun exec_each :: "(nat \<Rightarrow> bool) \<Rightarrow> nat \<Rightarrow> string list \<Rightarrow> string \<Rightarrow> tunnel_error check" where
  "exec_each fails i [] message = None"
| "exec_each fails i (statement # statements) message =
     (if fails i then Some (TInternal message) else exec_each fails (Suc i) statements message)"

text \<open>\<^verbatim>\<open>prepare\<close>: the transaction makes the tables that are missing, or nothing.\<close>

definition prepare_database ::
  "(opening_call \<Rightarrow> bool) \<Rightarrow> 't database_file \<Rightarrow> 't database_file \<times> tunnel_error check" where
  "prepare_database io f =
     (case exec_each (\<lambda>i. io (ExecPragma i)) 0 pragmas ''prepare tunnel sqlite pragma'' of
        Some e \<Rightarrow> (f, Some e)
      | None \<Rightarrow>
          if io BeginSchema then (f, Some (TInternal ''begin tunnel schema''))
          else (case exec_each (\<lambda>i. io (ExecSchema i)) 0 schema ''prepare tunnel sqlite schema'' of
                  Some e \<Rightarrow> (f, Some e)
                | None \<Rightarrow>
                    if io CommitSchema then (f, Some (TInternal ''commit tunnel schema''))
                    else (f\<lparr>df_tables := Some (stored_tables (Some f))\<rparr>, None)))"

definition tsql_open ::
  "string \<Rightarrow> (opening_call \<Rightarrow> bool) \<Rightarrow> 't database_file option \<Rightarrow>
     't database_file option \<times> (tunnel_error + 't tunnel_database)" where
  "tsql_open path io found =
     (if blank path then (found, Inl (TInternal ''sqlite path is required''))
      else case secure_database_file io found of
        (file1, Inl e) \<Rightarrow> (file1, Inl e)
      | (file1, Inr f) \<Rightarrow>
          if io OpenDatabase then (file1, Inl (TInternal ''open tunnel sqlite''))
          else (case prepare_database io f of
                  (f', Some e) \<Rightarrow> (Some f', Inl e)
                | (f', None) \<Rightarrow> (Some f', Inr (stored_tables (Some f')))))"

section \<open>What is opened\<close>

definition opening_calls :: "opening_call list" where
  "opening_calls = [CreateFile, ChmodFile, CloseFile, OpenDatabase] @ map ExecPragma [0..<length pragmas]
     @ [BeginSchema] @ map ExecSchema [0..<length schema] @ [CommitSchema]"

lemma exec_each_None: "exec_each fails i statements message = None \<longleftrightarrow> (\<forall>j < length statements. \<not> fails (i + j))"
  by (induction statements arbitrary: i) (auto simp: less_Suc_eq_0_disj)

lemma exec_each_error: "exec_each fails i statements message = Some e \<Longrightarrow> e = TInternal message"
  by (induction statements arbitrary: i) (auto split: if_splits)

lemma prepare_outcome:
  assumes "prepare_database io f = (f', r)"
  shows "r = None \<longleftrightarrow> (\<forall>i < length pragmas. \<not> io (ExecPragma i)) \<and> \<not> io BeginSchema
      \<and> (\<forall>i < length schema. \<not> io (ExecSchema i)) \<and> \<not> io CommitSchema"
    and "r = None \<Longrightarrow> f' = f\<lparr>df_tables := Some (stored_tables (Some f))\<rparr>"
    and "r = Some e \<Longrightarrow> f' = f \<and> internal_error e"
  using assms exec_each_None [of "\<lambda>i. io (ExecPragma i)" 0 pragmas "''prepare tunnel sqlite pragma''"]
    exec_each_None [of "\<lambda>i. io (ExecSchema i)" 0 schema "''prepare tunnel sqlite schema''"]
  by (auto simp: prepare_database_def internal_error_def dest!: exec_each_error split: option.splits if_splits)

text \<open>
  The database is opened privately and without loss. Opening succeeds exactly when the path is
  not blank and no call fails; then only the owner can read and write the file, whatever its bits
  were, and its tables are those it had, or new empty ones. When opening fails the tables are
  untouched, and the file is as private as it was, or more.
\<close>

lemma database_opened:
  "let (left, result) = tsql_open path io found in
     ((\<exists>db. result = Inr db) \<longleftrightarrow> \<not> blank path \<and> (\<forall>call \<in> set opening_calls. \<not> io call))
     \<and> (\<forall>db. result = Inr db \<longrightarrow> left = Some \<lparr>df_mode = private_mode, df_tables = Some db\<rparr> \<and> db = stored_tables found)
     \<and> (\<forall>e. result = Inl e \<longrightarrow> internal_error e \<and> stored_tables left = stored_tables found
          \<and> (left = found \<or> (\<exists>f. left = Some f \<and> (df_mode f = private_mode \<or> map_option df_mode found = Some (df_mode f)))))"
proof (cases "blank path \<or> io CreateFile \<or> io ChmodFile \<or> io CloseFile \<or> io OpenDatabase")
  case True
  then show ?thesis
    by (auto simp: tsql_open_def secure_database_file_def opening_calls_def stored_tables_def internal_error_def Let_def
        split: option.split)
next
  case False
  define f where "f = (case found of None \<Rightarrow> \<lparr>df_mode = private_mode, df_tables = None\<rparr> | Some f \<Rightarrow> f)\<lparr>df_mode := private_mode\<rparr>"
  have tables: "stored_tables (Some f) = stored_tables found"
    by (simp add: f_def stored_tables_def split: option.split)
  have mode: "df_mode f = private_mode" by (simp add: f_def)
  obtain f' r where prepared: "prepare_database io f = (f', r)" by force
  have secured: "secure_database_file io found = (Some f, Inr f)"
    using False by (simp add: secure_database_file_def f_def Let_def)
  have opened: "tsql_open path io found =
      (Some f', case r of None \<Rightarrow> Inr (stored_tables (Some f')) | Some e \<Rightarrow> Inl e)"
    using False by (simp add: tsql_open_def secured prepared split: option.split)
  show ?thesis
  proof (cases r)
    case None
    with prepare_outcome(2) [OF prepared] mode tables
    have "f' = \<lparr>df_mode = private_mode, df_tables = Some (stored_tables found)\<rparr>" by (cases f) simp
    with opened None False prepare_outcome(1) [OF prepared] show ?thesis
      by (auto simp: opening_calls_def stored_tables_def)
  next
    case (Some e)
    with prepare_outcome(1,3) [OF prepared] opened mode tables False show ?thesis
      by (auto simp: opening_calls_def)
  qed
qed

lemma opened_iff:
  "tsql_open path io found = (left, Inr db) \<longleftrightarrow>
     \<not> blank path \<and> (\<forall>call \<in> set opening_calls. \<not> io call)
     \<and> left = Some \<lparr>df_mode = private_mode, df_tables = Some (stored_tables found)\<rparr> \<and> db = stored_tables found"
  using database_opened [of path io found] by (cases "tsql_open path io found") auto

end
