(* ===== verification/Tunnel_Process.thy ===== *)
theory Tunnel_Process
  imports Tunnel_Metrics Tunnel_Shutdown Tunnel_Api Tunnel_Database_File
begin

text \<open>
  The server process: \<^verbatim>\<open>cmd/reaper-tunnel\<close>. Its configuration is read from the environment, its parts
  are composed in the order of \<^verbatim>\<open>run\<close>, and its end is the sequence of \<^verbatim>\<open>serve\<close> and the deferred close of
  the store, interleaved with the link handler of \<open>Tunnel_Shutdown\<close>. The listeners of the standard
  library are given by what they return.
\<close>

section \<open>Configuration\<close>

record tunnel_config =
  cfg_control :: string
  cfg_edge :: string
  cfg_diag :: string
  cfg_pprof :: bool
  cfg_domain :: string
  cfg_database :: string
  cfg_admin_token :: string
  cfg_admin_actor :: string
  cfg_read_token :: string
  cfg_forward :: string
  cfg_header_timeout :: int
  cfg_link :: link_config

datatype config_error =
    ConfigTokens | ConfigDomain | ConfigAddress string | ConfigLoopback string | ConfigDuration schedule_error

definition loopback_only :: "string \<Rightarrow> string \<Rightarrow> config_error option" where
  "loopback_only name address =
     (case split_host address of
        None \<Rightarrow> Some (ConfigAddress name)
      | Some host \<Rightarrow>
          (case parse_ip host of
             None \<Rightarrow> Some (ConfigLoopback name)
           | Some ip \<Rightarrow> if \<not> is_loopback ip then Some (ConfigLoopback name) else None))"

text \<open>The configuration before it is checked.\<close>

definition loaded_tunnel_config :: "(string \<Rightarrow> string) \<Rightarrow> (string \<Rightarrow> string) \<Rightarrow> tunnel_config" where
  "loaded_tunnel_config unicode getenv =
     \<lparr>cfg_control = env_or getenv ''REAPER_TUNNEL_CONTROL_ADDR'' '':8081'',
      cfg_edge = env_or getenv ''REAPER_TUNNEL_EDGE_ADDR'' '':8080'',
      cfg_diag = env_or getenv ''REAPER_TUNNEL_DIAG_ADDR'' ''127.0.0.1:8082'',
      cfg_pprof = (getenv ''REAPER_TUNNEL_PPROF'' = ''1''),
      cfg_domain = to_lower unicode (getenv ''REAPER_TUNNEL_DOMAIN''),
      cfg_database = env_or getenv ''REAPER_TUNNEL_DB'' ''.reaper/tunnel.db'',
      cfg_admin_token = getenv ''REAPER_TUNNEL_ADMIN_TOKEN'',
      cfg_admin_actor = getenv ''REAPER_TUNNEL_ADMIN_ACTOR'',
      cfg_read_token = getenv ''REAPER_TUNNEL_READ_TOKEN'',
      cfg_forward = env_or getenv ''REAPER_TUNNEL_FORWARD_PROTO'' ''https'',
      cfg_header_timeout = 30 * second,
      cfg_link = default_link_config\<rparr>"

definition load_tunnel_config ::
  "(string \<Rightarrow> int option) \<Rightarrow> (string \<Rightarrow> string) \<Rightarrow> (string \<Rightarrow> string) \<Rightarrow> config_error + tunnel_config" where
  "load_tunnel_config parse unicode getenv =
     (let loaded = loaded_tunnel_config unicode getenv in
      if cfg_admin_token loaded = [] \<or> cfg_admin_actor loaded = [] \<or> cfg_read_token loaded = []
      then Inl ConfigTokens
      else if cfg_domain loaded = [] \<or> has_prefix (cfg_domain loaded) ''.''
            \<or> contains_byte (cfg_domain loaded) CHR ''/''
      then Inl ConfigDomain
      else case loopback_only ''REAPER_TUNNEL_DIAG_ADDR'' (cfg_diag loaded) of
        Some e \<Rightarrow> Inl e
      | None \<Rightarrow>
          (case duration_or parse getenv ''REAPER_TUNNEL_HEADER_TIMEOUT'' (cfg_header_timeout loaded) of
             Inl e \<Rightarrow> Inl (ConfigDuration e)
           | Inr timeout \<Rightarrow>
               (case duration_or parse getenv ''REAPER_TUNNEL_KEEPALIVE'' (lc_keep_alive (cfg_link loaded)) of
                  Inl e \<Rightarrow> Inl (ConfigDuration e)
                | Inr keep_alive \<Rightarrow>
                    Inr (loaded\<lparr>cfg_header_timeout := timeout,
                                cfg_link := (cfg_link loaded)\<lparr>lc_keep_alive := keep_alive\<rparr>\<rparr>))))"

section \<open>Composition\<close>

datatype 'e process_error =
    ProcessConfig config_error
  | ProcessDirectory
  | ProcessTunnel tunnel_error
  | ProcessApi tunnel_server_error
  | ProcessLinks
  | ProcessMetrics "'e metrics_error"
  | ProcessEdge edge_error

record ('l, 'st) tunnel_parts =
  pt_service :: "('l, 'st) tunnel_service"
  pt_server :: tunnel_server
  pt_links :: link_handler
  pt_edge :: edge

text \<open>The parts of \<^verbatim>\<open>run\<close> over an open store; the edge looks links up in the service's routing table.\<close>

definition compose_tunnel ::
  "(string \<Rightarrow> string) \<Rightarrow> (collector \<Rightarrow> 'e option) \<Rightarrow> tunnel_config \<Rightarrow> 'st \<Rightarrow>
     'e process_error + ('l, 'st) tunnel_parts" where
  "compose_tunnel unicode register c store =
     (case new_tunnel_service store new_registry (cfg_admin_actor c) of
        Inl e \<Rightarrow> Inl (ProcessTunnel e)
      | Inr service \<Rightarrow>
     (case new_tunnel_server True (cfg_admin_token c) (cfg_read_token c) of
        Inl e \<Rightarrow> Inl (ProcessApi e)
      | Inr management \<Rightarrow>
     (case new_handler (cfg_link c) of
        None \<Rightarrow> Inl ProcessLinks
      | Some accepting \<Rightarrow>
     (case new_metrics True register of
        Some e \<Rightarrow> Inl (ProcessMetrics e)
      | None \<Rightarrow>
     (case new_edge unicode (cfg_domain c) True (cfg_forward c) (cfg_header_timeout c) of
        Inl e \<Rightarrow> Inl (ProcessEdge e)
      | Inr public \<Rightarrow>
          Inr \<lparr>pt_service = service, pt_server = management, pt_links = accepting, pt_edge = public\<rparr>)))))"

text \<open>
  \<^verbatim>\<open>run\<close> up to \<^verbatim>\<open>serve\<close>. \<open>mkdir\<close> says whether the directory of the database could be made, \<open>found\<close> what is
  at its path. The other results are whether a store was opened, which \<^verbatim>\<open>run\<close> then closes on its way
  out, and the file as it is left.
\<close>

definition start_tunnel ::
  "(string \<Rightarrow> int option) \<Rightarrow> (string \<Rightarrow> string) \<Rightarrow> (string \<Rightarrow> string) \<Rightarrow> bool \<Rightarrow> (opening_call \<Rightarrow> bool) \<Rightarrow>
     't database_file option \<Rightarrow> (collector \<Rightarrow> 'e option) \<Rightarrow>
     ('e process_error + tunnel_config \<times> ('l, 't tunnel_database) tunnel_parts) \<times> bool \<times> 't database_file option" where
  "start_tunnel parse unicode getenv mkdir io found register =
     (case load_tunnel_config parse unicode getenv of
        Inl e \<Rightarrow> (Inl (ProcessConfig e), False, found)
      | Inr c \<Rightarrow>
          if \<not> mkdir then (Inl ProcessDirectory, False, found)
          else (case tsql_open (cfg_database c) io found of
            (left, Inl e) \<Rightarrow> (Inl (ProcessTunnel e), False, left)
          | (left, Inr store) \<Rightarrow>
              (case compose_tunnel unicode register c store of
                 Inl e \<Rightarrow> (Inl e, True, left)
               | Inr parts \<Rightarrow> (Inr (c, parts), True, left))))"

section \<open>The listeners\<close>

datatype control_handler = Manage tunnel_handler | Connect

definition control_routes :: "(string \<times> segment_pattern list \<times> control_handler) list" where
  "control_routes = map (\<lambda>(m, ps, h). (m, ps, Manage h)) tunnel_routes
     @ [(''GET'', [Lit ''v1'', Lit ''connect''], Connect)]"

datatype diag_handler = ServeMetrics | PprofIndex | PprofCmdline | PprofProfile | PprofSymbol | PprofTrace

datatype diag_reply = Diagnose diag_handler | DiagRedirect | DiagMethod | DiagMissing

text \<open>
  \<^verbatim>\<open>diagnostics\<close>: a pattern without a method serves every method, one that ends in a slash the whole
  subtree, and the path of such a subtree without the slash is redirected.
\<close>

definition diagnostics :: "bool \<Rightarrow> string \<Rightarrow> string list \<Rightarrow> diag_reply" where
  "diagnostics gate requested xs =
     (if xs = [''metrics''] then (if serves ''GET'' requested then Diagnose ServeMetrics else DiagMethod)
      else if \<not> gate then DiagMissing
      else if xs = [''debug'', ''pprof'', ''cmdline''] then Diagnose PprofCmdline
      else if xs = [''debug'', ''pprof'', ''profile''] then Diagnose PprofProfile
      else if xs = [''debug'', ''pprof'', ''symbol''] then Diagnose PprofSymbol
      else if xs = [''debug'', ''pprof'', ''trace''] then Diagnose PprofTrace
      else if take 2 xs = [''debug'', ''pprof''] then
        (if length xs = 2 then DiagRedirect else Diagnose PprofIndex)
      else DiagMissing)"

section \<open>What starts\<close>

lemma loopback_only_None: "loopback_only name address = None \<longleftrightarrow> loopback_address address"
  by (simp add: loopback_only_def loopback_address_def split: option.split)

lemma new_tunnel_service_Inr:
  "new_tunnel_service st r actor = Inr s \<longleftrightarrow> \<not> blank actor \<and>
     s = \<lparr>ts_generation = 0, ts_superseded = [], ts_store = st, ts_registry = r, ts_actor = actor, ts_closed = []\<rparr>"
  by (auto simp: new_tunnel_service_def)

lemma register_all_None: "register_all register cs = None \<longleftrightarrow> (\<forall>c \<in> set cs. register c = None)"
  by (induction cs) (auto split: option.split)

lemma compose_tunnel_Inr:
  "(\<exists>parts. compose_tunnel unicode register c store = Inr parts) \<longleftrightarrow>
     \<not> blank (cfg_admin_actor c) \<and> \<not> blank (cfg_admin_token c) \<and> \<not> blank (cfg_read_token c)
     \<and> cfg_admin_token c \<noteq> cfg_read_token c \<and> validate_link_config (cfg_link c)
     \<and> register_all register collectors = None
     \<and> \<not> blank (cfg_domain c) \<and> cfg_forward c \<in> {''http'', ''https''} \<and> 0 < cfg_header_timeout c"
  by (auto simp: compose_tunnel_def new_tunnel_service_def new_tunnel_server_def new_handler_def new_metrics_def
      new_edge_def split: option.split)

lemma load_tunnel_config_Inr:
  assumes "L = loaded_tunnel_config unicode getenv"
    and "T = duration_or parse getenv ''REAPER_TUNNEL_HEADER_TIMEOUT'' (cfg_header_timeout L)"
    and "K = duration_or parse getenv ''REAPER_TUNNEL_KEEPALIVE'' (lc_keep_alive (cfg_link L))"
  shows "load_tunnel_config parse unicode getenv = Inr c \<longleftrightarrow>
     cfg_admin_token L \<noteq> [] \<and> cfg_admin_actor L \<noteq> [] \<and> cfg_read_token L \<noteq> []
     \<and> cfg_domain L \<noteq> [] \<and> \<not> has_prefix (cfg_domain L) ''.'' \<and> \<not> contains_byte (cfg_domain L) CHR ''/''
     \<and> loopback_address (cfg_diag L)
     \<and> (\<exists>timeout keep_alive. T = Inr timeout \<and> K = Inr keep_alive
        \<and> c = L\<lparr>cfg_header_timeout := timeout, cfg_link := (cfg_link L)\<lparr>lc_keep_alive := keep_alive\<rparr>\<rparr>)"
proof -
  obtain check where check: "check = loopback_only ''REAPER_TUNNEL_DIAG_ADDR'' (cfg_diag L)" by blast
  then have loop: "loopback_address (cfg_diag L) \<longleftrightarrow> check = None" by (simp add: loopback_only_None)
  show ?thesis
    unfolding load_tunnel_config_def Let_def loop assms(1) [symmetric] assms(2) [symmetric] assms(3) [symmetric]
      check [symmetric]
    by (cases check; cases T; cases K) auto
qed

lemma compose_tunnel_parts:
  "compose_tunnel unicode register c db = Inr parts \<Longrightarrow>
     pt_service parts = tunnel_start db (cfg_admin_actor c)
     \<and> new_tunnel_server True (cfg_admin_token c) (cfg_read_token c) = Inr (pt_server parts)
     \<and> new_handler (cfg_link c) = Some (pt_links parts)
     \<and> new_edge unicode (cfg_domain c) True (cfg_forward c) (cfg_header_timeout c) = Inr (pt_edge parts)"
  by (auto simp: compose_tunnel_def dest: new_tunnel_service_start split: sum.splits option.splits)

lemma start_tunnel_left:
  "start_tunnel parse unicode getenv mkdir io found register = (Inr (c, parts), opened, left) \<longleftrightarrow>
     load_tunnel_config parse unicode getenv = Inr c \<and> mkdir \<and> opened
     \<and> (\<exists>db. tsql_open (cfg_database c) io found = (left, Inr db) \<and> compose_tunnel unicode register c db = Inr parts)"
  by (auto simp: start_tunnel_def split: sum.splits prod.splits if_splits)

lemma start_tunnel_Inr:
  "fst (start_tunnel parse unicode getenv mkdir io found register) = Inr (c, parts) \<longleftrightarrow>
     load_tunnel_config parse unicode getenv = Inr c \<and> mkdir \<and> \<not> blank (cfg_database c)
     \<and> (\<forall>call \<in> set opening_calls. \<not> io call) \<and> compose_tunnel unicode register c (stored_tables found) = Inr parts"
proof -
  have "fst (start_tunnel parse unicode getenv mkdir io found register) = Inr (c, parts) \<longleftrightarrow>
      (\<exists>opened left. start_tunnel parse unicode getenv mkdir io found register = (Inr (c, parts), opened, left))"
    by (simp add: prod_eq_iff)
  then show ?thesis unfolding start_tunnel_left opened_iff by blast
qed

lemma diagnostics_gate: "diagnostics gate m xs = Diagnose h \<Longrightarrow> h \<noteq> ServeMetrics \<Longrightarrow> gate"
  by (cases gate) (simp_all add: diagnostics_def split: if_splits)

lemma blank_not_Nil: "\<not> blank s \<Longrightarrow> s \<noteq> []"
  by auto

text \<open>What a loaded configuration keeps of the environment: the two gates of the diagnostics.\<close>

lemma loaded_diagnostics:
  assumes "L = loaded_tunnel_config unicode getenv" and "load_tunnel_config parse unicode getenv = Inr c"
  shows "loopback_address (cfg_diag c)
    \<and> (\<forall>m xs h. diagnostics (cfg_pprof c) m xs = Diagnose h \<and> h \<noteq> ServeMetrics \<longrightarrow> getenv ''REAPER_TUNNEL_PPROF'' = ''1'')"
proof -
  have gate: "cfg_pprof L \<longleftrightarrow> getenv ''REAPER_TUNNEL_PPROF'' = ''1''" by (simp add: assms(1) loaded_tunnel_config_def)
  from assms(2) [unfolded load_tunnel_config_Inr [OF assms(1) refl refl]]
  have "loopback_address (cfg_diag c)" and "cfg_pprof c = cfg_pprof L" by auto
  with diagnostics_gate gate show ?thesis by simp blast
qed

text \<open>
  C32: the process starts exactly when its environment is usable, and then safely. \<^verbatim>\<open>run\<close> gets as far
  as serving if and only if both tokens and the actor are given and not blank, the tokens differ,
  the domain is a name, the diagnostics address is a loopback address, the durations that are set
  are positive, the forwarded protocol is HTTP or HTTPS, the database has a path, and neither the
  directory, a call that opens the database, nor the registry fails. What then serves is over a
  routing table in which no tunnel is live and the tables the file had, in a file that only its
  owner can read, its diagnostics stay on the host, and profiling is served only behind its gate.
\<close>

theorem tunnel_starts:
  "let L = loaded_tunnel_config unicode getenv;
       T = duration_or parse getenv ''REAPER_TUNNEL_HEADER_TIMEOUT'' (cfg_header_timeout L);
       K = duration_or parse getenv ''REAPER_TUNNEL_KEEPALIVE'' (lc_keep_alive (cfg_link L));
       (out, opened, left) = (start_tunnel parse unicode getenv mkdir io found register
         :: ('e process_error + tunnel_config \<times> ('l, 't tunnel_database) tunnel_parts) \<times> bool \<times> 't database_file option)
   in ((\<exists>c parts. out = Inr (c, parts)) \<longleftrightarrow>
         \<not> blank (cfg_admin_token L) \<and> \<not> blank (cfg_admin_actor L) \<and> \<not> blank (cfg_read_token L)
         \<and> cfg_admin_token L \<noteq> cfg_read_token L
         \<and> \<not> blank (cfg_domain L) \<and> \<not> has_prefix (cfg_domain L) ''.'' \<and> \<not> contains_byte (cfg_domain L) CHR ''/''
         \<and> loopback_address (cfg_diag L) \<and> (\<exists>t. T = Inr t) \<and> (\<exists>k. K = Inr k)
         \<and> cfg_forward L \<in> {''http'', ''https''} \<and> mkdir \<and> \<not> blank (cfg_database L)
         \<and> (\<forall>call \<in> set opening_calls. \<not> io call) \<and> register_all register collectors = None)
    \<and> (\<forall>c parts. out = Inr (c, parts) \<longrightarrow>
         loopback_address (cfg_diag c)
         \<and> (\<forall>m xs h. diagnostics (cfg_pprof c) m xs = Diagnose h \<and> h \<noteq> ServeMetrics \<longrightarrow>
              getenv ''REAPER_TUNNEL_PPROF'' = ''1'')
         \<and> opened \<and> left = Some \<lparr>df_mode = private_mode, df_tables = Some (stored_tables found)\<rparr>
         \<and> pt_service parts = tunnel_start (stored_tables found) (cfg_admin_actor c)
         \<and> new_tunnel_server True (cfg_admin_token c) (cfg_read_token c) = Inr (pt_server parts)
         \<and> new_handler (cfg_link c) = Some (pt_links parts)
         \<and> new_edge unicode (cfg_domain c) True (cfg_forward c) (cfg_header_timeout c) = Inr (pt_edge parts))"
proof -
  obtain L where L: "L = loaded_tunnel_config unicode getenv" by blast
  obtain T where T: "T = duration_or parse getenv ''REAPER_TUNNEL_HEADER_TIMEOUT'' (cfg_header_timeout L)" by blast
  obtain K where K: "K = duration_or parse getenv ''REAPER_TUNNEL_KEEPALIVE'' (lc_keep_alive (cfg_link L))" by blast
  obtain out :: "'e process_error + tunnel_config \<times> ('l, 't tunnel_database) tunnel_parts" and opened left
    where out: "start_tunnel parse unicode getenv mkdir io found register = (out, opened, left)" by (rule prod_cases3)
  note load = load_tunnel_config_Inr [OF L T K]
  have defaults: "0 < cfg_header_timeout L" "0 < lc_keep_alive (cfg_link L)" "0 < lc_write_timeout (cfg_link L)"
    by (simp_all add: L loaded_tunnel_config_def default_link_config_def second_def)
  have T0: "0 < t" if "T = Inr t" for t using that defaults(1) unfolding T by (rule duration_or_positive)
  have K0: "0 < k" if "K = Inr k" for k using that defaults(2) unfolding K by (rule duration_or_positive)
  have parts: "out = Inr (c, parts) \<longleftrightarrow> load_tunnel_config parse unicode getenv = Inr c \<and> mkdir \<and> \<not> blank (cfg_database c)
      \<and> (\<forall>call \<in> set opening_calls. \<not> io call) \<and> compose_tunnel unicode register c (stored_tables found) = Inr parts" for c parts
    using start_tunnel_Inr [of parse unicode getenv mkdir io found register c parts] unfolding out by simp
  have started: "(\<exists>c parts. out = Inr (c, parts)) \<longleftrightarrow>
      (\<exists>c. load_tunnel_config parse unicode getenv = Inr c \<and> mkdir \<and> \<not> blank (cfg_database c)
        \<and> (\<forall>call \<in> set opening_calls. \<not> io call)
        \<and> (\<exists>parts :: ('l, 't tunnel_database) tunnel_parts. compose_tunnel unicode register c (stored_tables found) = Inr parts))"
    unfolding parts by blast
  have "(\<exists>c parts. out = Inr (c, parts)) \<longleftrightarrow>
         \<not> blank (cfg_admin_token L) \<and> \<not> blank (cfg_admin_actor L) \<and> \<not> blank (cfg_read_token L)
         \<and> cfg_admin_token L \<noteq> cfg_read_token L
         \<and> \<not> blank (cfg_domain L) \<and> \<not> has_prefix (cfg_domain L) ''.'' \<and> \<not> contains_byte (cfg_domain L) CHR ''/''
         \<and> loopback_address (cfg_diag L) \<and> (\<exists>t. T = Inr t) \<and> (\<exists>k. K = Inr k)
         \<and> cfg_forward L \<in> {''http'', ''https''} \<and> mkdir \<and> \<not> blank (cfg_database L)
         \<and> (\<forall>call \<in> set opening_calls. \<not> io call) \<and> register_all register collectors = None"
    unfolding started load compose_tunnel_Inr
    using blank_not_Nil [of "cfg_admin_token L"] blank_not_Nil [of "cfg_admin_actor L"]
      blank_not_Nil [of "cfg_read_token L"] blank_not_Nil [of "cfg_domain L"] T0 K0 defaults(3)
    by (cases T; cases K) (auto simp: validate_link_config_def not_le)
  moreover have "loopback_address (cfg_diag c)
         \<and> (\<forall>m xs h. diagnostics (cfg_pprof c) m xs = Diagnose h \<and> h \<noteq> ServeMetrics \<longrightarrow>
              getenv ''REAPER_TUNNEL_PPROF'' = ''1'')
         \<and> opened \<and> left = Some \<lparr>df_mode = private_mode, df_tables = Some (stored_tables found)\<rparr>
         \<and> pt_service parts = tunnel_start (stored_tables found) (cfg_admin_actor c)
         \<and> new_tunnel_server True (cfg_admin_token c) (cfg_read_token c) = Inr (pt_server parts)
         \<and> new_handler (cfg_link c) = Some (pt_links parts)
         \<and> new_edge unicode (cfg_domain c) True (cfg_forward c) (cfg_header_timeout c) = Inr (pt_edge parts)"
    if "out = Inr (c, parts)" for c parts
  proof -
    from out [unfolded that start_tunnel_left opened_iff]
    have c: "load_tunnel_config parse unicode getenv = Inr c"
      and left: "opened" "left = Some \<lparr>df_mode = private_mode, df_tables = Some (stored_tables found)\<rparr>"
      and made: "compose_tunnel unicode register c (stored_tables found) = Inr parts"
      by blast+
    show ?thesis
      using left loaded_diagnostics [OF L c] compose_tunnel_parts [OF made] by (elim conjE) (intro conjI; assumption)
  qed
  ultimately show ?thesis unfolding Let_def L T K out prod.case by blast
qed

definition sample_environment :: "string \<Rightarrow> string" where
  "sample_environment name =
     (if name = ''REAPER_TUNNEL_ADMIN_TOKEN'' then ''a'' else if name = ''REAPER_TUNNEL_READ_TOKEN'' then ''r''
      else if name = ''REAPER_TUNNEL_ADMIN_ACTOR'' then ''op'' else if name = ''REAPER_TUNNEL_DOMAIN'' then ''T.io''
      else [])"

lemma sample_loaded:
  "loaded_tunnel_config id sample_environment =
     \<lparr>cfg_control = '':8081'', cfg_edge = '':8080'', cfg_diag = ''127.0.0.1:8082'', cfg_pprof = False,
      cfg_domain = ''t.io'', cfg_database = ''.reaper/tunnel.db'', cfg_admin_token = ''a'', cfg_admin_actor = ''op'',
      cfg_read_token = ''r'', cfg_forward = ''https'', cfg_header_timeout = 30 * second, cfg_link = default_link_config\<rparr>"
proof -
  have "to_lower id ''T.io'' = ''t.io''" by code_simp
  then show ?thesis by (simp add: loaded_tunnel_config_def env_or_def sample_environment_def)
qed

lemma sample_durations_unset:
  "duration_or parse sample_environment ''REAPER_TUNNEL_HEADER_TIMEOUT'' t = Inr t"
  "duration_or parse sample_environment ''REAPER_TUNNEL_KEEPALIVE'' t = Inr t"
  by (simp_all add: duration_or_def sample_environment_def)

lemma diag_default_loopback: "loopback_address ''127.0.0.1:8082''"
  by code_simp

theorem tunnel_starts_witness:
  "\<exists>c (parts :: (nat, nat tunnel_database) tunnel_parts) opened left.
     start_tunnel (\<lambda>_. None) id sample_environment True (\<lambda>_. False) None (\<lambda>_. None :: unit option)
       = (Inr (c, parts), opened, left)
     \<and> loopback_address (cfg_diag c) \<and> map_option df_mode left = Some private_mode"
proof -
  have registered: "register_all (\<lambda>_. None :: unit option) collectors = None" by (simp add: register_all_None)
  have plain: "\<not> blank ''a''" "\<not> blank ''op''" "\<not> blank ''r''" "\<not> blank ''t.io''" "\<not> blank ''.reaper/tunnel.db''"
    "\<not> has_prefix ''t.io'' ''.''" "\<not> contains_byte ''t.io'' CHR ''/''"
    by (simp_all add: not_blank_ascii byte_def is_space_def has_prefix_def contains_byte_def)
  obtain out :: "unit process_error + tunnel_config \<times> (nat, nat tunnel_database) tunnel_parts" and opened left
    where out: "start_tunnel (\<lambda>_. None) id sample_environment True (\<lambda>_. False) None (\<lambda>_. None :: unit option) = (out, opened, left)"
    by (rule prod_cases3)
  note C = tunnel_starts [where 'l = nat and unicode = id and getenv = sample_environment and parse = "\<lambda>_. None" and mkdir = True
      and io = "\<lambda>_. False" and found = "None :: nat database_file option"
      and register = "\<lambda>_. None :: unit option", unfolded Let_def sample_loaded sample_durations_unset out prod.case]
  from C [THEN conjunct1] obtain c parts where "out = Inr (c, parts)"
    using registered plain diag_default_loopback by (auto simp: tunnel_config.simps)
  with C [THEN conjunct2] out show ?thesis by auto
qed

section \<open>How the process ends\<close>

text \<open>
  \<^verbatim>\<open>serve\<close> and the deferred close of \<^verbatim>\<open>run\<close>. While the listeners serve, the link handler steps on its
  own; a signal or the failure of a listener starts the shutdowns of the edge, the control plane and
  the diagnostics, one after the other, each with what it returned, and then of the links. Only
  then does \<^verbatim>\<open>run\<close> return and close the store.
\<close>

datatype 'e phase =
    Serving
  | Stopping "'e option" "'e option list"
  | Returned "'e list"
  | Exited "'e list"

record 'e process =
  pr_phase :: "'e phase"
  pr_links :: link_handler

definition server_stops :: nat where
  "server_stops = 3"

text \<open>\<^verbatim>\<open>errors.Join\<close> of what is not nil; a listener that was closed did not fail.\<close>

definition serve_result :: "('e \<Rightarrow> bool) \<Rightarrow> 'e option \<Rightarrow> 'e option list \<Rightarrow> 'e list" where
  "serve_result closed listened stops =
     (case listened of None \<Rightarrow> [] | Some e \<Rightarrow> if closed e then [] else [e])
     @ concat (map (\<lambda>r. case r of None \<Rightarrow> [] | Some e \<Rightarrow> [e]) stops)"

inductive process_step :: "('e \<Rightarrow> bool) \<Rightarrow> 'e process \<Rightarrow> 'e process \<Rightarrow> bool" for closed where
  background: "link_step (pr_links p) h \<Longrightarrow> lh_shut h = lh_shut (pr_links p) \<Longrightarrow>
    process_step closed p (p\<lparr>pr_links := h\<rparr>)"
| stops: "pr_phase p = Serving \<Longrightarrow> process_step closed p (p\<lparr>pr_phase := Stopping listened []\<rparr>)"
| server_stopped: "pr_phase p = Stopping listened results \<Longrightarrow> length results < server_stops \<Longrightarrow>
    process_step closed p (p\<lparr>pr_phase := Stopping listened (results @ [result])\<rparr>)"
| links_stopping: "pr_phase p = Stopping listened results \<Longrightarrow> length results = server_stops \<Longrightarrow>
    shut_step 0 (pr_links p) h \<Longrightarrow> process_step closed p (p\<lparr>pr_links := h\<rparr>)"
| links_stopped: "pr_phase p = Stopping listened results \<Longrightarrow> length results = server_stops \<Longrightarrow>
    lh_shut (pr_links p) 0 = ShReturned late \<Longrightarrow> (result \<noteq> None \<longleftrightarrow> late) \<Longrightarrow>
    process_step closed p (p\<lparr>pr_phase := Returned (serve_result closed listened (results @ [result]))\<rparr>)"
| store_closed: "pr_phase p = Returned errors \<Longrightarrow> process_step closed p (p\<lparr>pr_phase := Exited errors\<rparr>)"

inductive process_reach :: "('e \<Rightarrow> bool) \<Rightarrow> 'e process \<Rightarrow> 'e process \<Rightarrow> bool" for closed p0 where
  process_start: "process_reach closed p0 p0"
| process_on: "process_reach closed p0 p \<Longrightarrow> process_step closed p p' \<Longrightarrow> process_reach closed p0 p'"

definition over :: "'e process \<Rightarrow> bool" where
  "over p \<longleftrightarrow> (\<exists>es. pr_phase p \<in> {Returned es, Exited es})"

lemma link_reach_trans: "link_reach h1 h2 \<Longrightarrow> link_reach h0 h1 \<Longrightarrow> link_reach h0 h2"
  by (induction rule: link_reach.induct) (auto intro: link_reach.intros)

lemma process_links: "process_step closed p p' \<Longrightarrow> link_reach (pr_links p) (pr_links p')"
  by (induction rule: process_step.induct) (auto intro: link_reach.intros link_step.intros)

lemma process_reach_links: "process_reach closed p p' \<Longrightarrow> link_reach (pr_links p) (pr_links p')"
  by (induction rule: process_reach.induct) (auto intro: link_reach.start link_reach_trans [OF process_links])

text \<open>When \<^verbatim>\<open>serve\<close> has returned the shutdown of the links has, and its deadline shows in the result.\<close>

definition links_returned :: "'e process \<Rightarrow> bool" where
  "links_returned p \<longleftrightarrow> (\<forall>es. pr_phase p \<in> {Returned es, Exited es} \<longrightarrow>
     (\<exists>late. lh_shut (pr_links p) 0 = ShReturned late \<and> (late \<longrightarrow> es \<noteq> [])))"

lemma process_step_returned: "process_step closed p p' \<Longrightarrow> links_returned p \<Longrightarrow> links_returned p'"
  by (induction rule: process_step.induct) (auto simp: links_returned_def serve_result_def)

lemma process_reach_returned: "process_reach closed p p' \<Longrightarrow> links_returned p \<Longrightarrow> links_returned p'"
  by (induction rule: process_reach.induct) (auto dest: process_step_returned)

lemma exited_stays: "process_reach closed p p' \<Longrightarrow> pr_phase p = Exited es \<Longrightarrow> pr_phase p' = Exited es"
proof (induction rule: process_reach.induct)
  case (process_on p1 p2)
  then have "pr_phase p1 = Exited es" by blast
  with process_on.hyps(2) show ?case by (cases rule: process_step.cases) auto
qed

text \<open>
  C31: no link writes to a store that has been closed. However the process is stopped, by a signal or
  by a listener that fails, whatever the servers' shutdowns return and however the links interleave
  with them: once the process has closed its store no link is live, nothing is asked of the policy
  any more, and every agent that was attached has been reported lost. A shutdown that had to cut
  links is reported as an error.
\<close>

theorem store_closed_after_links:
  assumes "new_handler configuration = Some h0"
    and "process_reach closed \<lparr>pr_phase = Serving, pr_links = h0\<rparr> p" and "pr_phase p = Exited es"
    and "process_reach closed p p'"
  shows "pr_phase p' = Exited es \<and> lh_writes (pr_links p') = lh_writes (pr_links p)
    \<and> map_keys (lh_live (pr_links p')) = []
    \<and> (\<forall>c. WroteAttach c True \<in> set (lh_writes (pr_links p')) \<longleftrightarrow> WroteLost c \<in> set (lh_writes (pr_links p')))
    \<and> (lh_shut (pr_links p') 0 = ShReturned True \<longrightarrow> es \<noteq> [])"
proof -
  have reach: "link_reach h0 (pr_links p)" using process_reach_links [OF assms(2)] by simp
  have ret: "links_returned p" using process_reach_returned [OF assms(2)] by (simp add: links_returned_def)
  with assms(3) obtain late where late: "lh_shut (pr_links p) 0 = ShReturned late"
    by (auto simp: links_returned_def)
  have exited: "pr_phase p' = Exited es" by (rule exited_stays [OF assms(4,3)])
  moreover have "lh_shut (pr_links p') 0 = ShReturned True \<longrightarrow> es \<noteq> []"
    using process_reach_returned [OF assms(4) ret] exited by (auto simp: links_returned_def)
  ultimately show ?thesis
    using links_over [OF assms(1) reach late process_reach_links [OF assms(4)]] by blast
qed

text \<open>An idle server is told to stop.\<close>

definition drained :: link_handler where
  "drained = shuts 0 (ShReturned False) (shuts 0 (ShWaits True) (shuts 0 (ShWaits False) (begin_shutdown idle_handler)))"

lemma plain_steps:
  "process_step closed \<lparr>pr_phase = Serving, pr_links = h\<rparr> \<lparr>pr_phase = Stopping listened [], pr_links = h\<rparr>"
  "length rs < server_stops \<Longrightarrow> process_step closed \<lparr>pr_phase = Stopping listened rs, pr_links = h\<rparr>
     \<lparr>pr_phase = Stopping listened (rs @ [r]), pr_links = h\<rparr>"
  "length rs = server_stops \<Longrightarrow> shut_step 0 h h' \<Longrightarrow> process_step closed \<lparr>pr_phase = Stopping listened rs, pr_links = h\<rparr>
     \<lparr>pr_phase = Stopping listened rs, pr_links = h'\<rparr>"
  "length rs = server_stops \<Longrightarrow> lh_shut h 0 = ShReturned False \<Longrightarrow>
     process_step closed \<lparr>pr_phase = Stopping listened rs, pr_links = h\<rparr>
       \<lparr>pr_phase = Returned (serve_result closed listened (rs @ [None])), pr_links = h\<rparr>"
  "process_step closed \<lparr>pr_phase = Returned es, pr_links = h\<rparr> \<lparr>pr_phase = Exited es, pr_links = h\<rparr>"
  using stops [of "\<lparr>pr_phase = Serving, pr_links = h\<rparr>" closed listened]
    server_stopped [of "\<lparr>pr_phase = Stopping listened rs, pr_links = h\<rparr>" listened rs closed r]
    links_stopping [of "\<lparr>pr_phase = Stopping listened rs, pr_links = h\<rparr>" listened rs h' closed]
    links_stopped [of "\<lparr>pr_phase = Stopping listened rs, pr_links = h\<rparr>" listened rs False None closed]
    store_closed [of "\<lparr>pr_phase = Returned es, pr_links = h\<rparr>" es closed]
  by simp_all

lemma stops_clean:
  "process_reach (\<lambda>_ :: unit. False) \<lparr>pr_phase = Serving, pr_links = idle_handler\<rparr> \<lparr>pr_phase = Exited [], pr_links = drained\<rparr>"
proof -
  let ?h1 = "shuts 0 (ShWaits False) (begin_shutdown idle_handler)"
  let ?stopping = "\<lambda>rs h. \<lparr>pr_phase = Stopping None rs, pr_links = h\<rparr>"
  let ?reach = "process_reach (\<lambda>_ :: unit. False) \<lparr>pr_phase = Serving, pr_links = idle_handler\<rparr>"
  let ?rs = "[None, None, None]"
  note on = process_on [of "\<lambda>_. False" "\<lparr>pr_phase = Serving, pr_links = idle_handler\<rparr>"]
  have links: "lh_links (begin_shutdown idle_handler) = 0" "lh_shut idle_handler 0 = ShNot"
    by (simp_all add: begin_shutdown_def idle_fields)
  have "?reach (?stopping [] idle_handler)"
    by (rule on [OF process_start plain_steps(1)])
  then have "?reach (?stopping ([] @ [None]) idle_handler)"
    by (rule on [OF _ plain_steps(2)]) (simp add: server_stops_def)
  then have "?reach (?stopping (([] @ [None]) @ [None]) idle_handler)"
    by (rule on [OF _ plain_steps(2)]) (simp add: server_stops_def)
  then have "?reach (?stopping ((([] @ [None]) @ [None]) @ [None]) idle_handler)"
    by (rule on [OF _ plain_steps(2)]) (simp add: server_stops_def)
  then have "?reach (?stopping ?rs idle_handler)" by simp
  then have "?reach (?stopping ?rs ?h1)"
    by (rule on [OF _ plain_steps(3)]) (simp_all add: server_stops_def begins links)
  then have "?reach (?stopping ?rs (shuts 0 (ShWaits True) ?h1))"
    by (rule on [OF _ plain_steps(3)]) (simp_all add: server_stops_def all_done links)
  then have "?reach (?stopping ?rs drained)"
    unfolding drained_def by (rule on [OF _ plain_steps(3)]) (simp_all add: server_stops_def in_time)
  then have "?reach \<lparr>pr_phase = Returned (serve_result (\<lambda>_. False) None (?rs @ [None])), pr_links = drained\<rparr>"
    by (rule on [OF _ plain_steps(4)]) (simp_all add: server_stops_def drained_def)
  then have "?reach \<lparr>pr_phase = Returned [], pr_links = drained\<rparr>" by (simp add: serve_result_def)
  then show ?thesis by (rule on [OF _ plain_steps(5)])
qed

theorem store_closed_after_links_witness:
  "map_keys (lh_live drained) = []"
  using store_closed_after_links [OF idle_new stops_clean _ process_start] by simp

end
