(* ===== verification/Tunnel_Agent_Process.thy ===== *)
theory Tunnel_Agent_Process
  imports Tunnel_Agent
begin

text \<open>
  The agent process: \<^verbatim>\<open>cmd/reaper-tunnel-agent\<close>. \<^verbatim>\<open>net/url.Parse\<close> and \<^verbatim>\<open>time.ParseDuration\<close> are
  parameters; what dialing, serving and waiting answer is given by the rounds of \<open>Tunnel_Agent\<close>.
\<close>

section \<open>Configuration\<close>

record agent_config =
  ac_server :: string
  ac_token :: string
  ac_target :: url
  ac_dial_timeout :: int
  ac_reconnect :: "int list"
  ac_link :: link_config

datatype agent_config_error =
  AgentVariables | AgentTarget | AgentDelays schedule_error | AgentKeepAlive schedule_error

definition reconnect_delays :: "(string \<Rightarrow> int option) \<Rightarrow> string \<Rightarrow> schedule_error + int list" where
  "reconnect_delays parse raw =
     (if raw = [] then Inr default_reconnect_delays
      else parse_delays parse ''REAPER_TUNNEL_AGENT_RECONNECT_DELAYS'' raw)"

definition load_agent_config ::
  "(string \<Rightarrow> url option) \<Rightarrow> (string \<Rightarrow> int option) \<Rightarrow> (string \<Rightarrow> string) \<Rightarrow> agent_config_error + agent_config" where
  "load_agent_config parse_url parse getenv =
     (let server = getenv ''REAPER_TUNNEL_AGENT_SERVER'';
          token = getenv ''REAPER_TUNNEL_AGENT_TOKEN'';
          raw = getenv ''REAPER_TUNNEL_AGENT_TARGET''
      in
      if server = [] \<or> token = [] \<or> raw = [] then Inl AgentVariables
      else case parse_url raw of
        None \<Rightarrow> Inl AgentTarget
      | Some target \<Rightarrow>
          (case reconnect_delays parse (getenv ''REAPER_TUNNEL_AGENT_RECONNECT_DELAYS'') of
             Inl e \<Rightarrow> Inl (AgentDelays e)
           | Inr delays \<Rightarrow>
               (case duration_or parse getenv ''REAPER_TUNNEL_AGENT_KEEPALIVE'' (lc_keep_alive default_link_config) of
                  Inl e \<Rightarrow> Inl (AgentKeepAlive e)
                | Inr keep_alive \<Rightarrow>
                    Inr \<lparr>ac_server = server, ac_token = token, ac_target = target,
                         ac_dial_timeout = 15 * second, ac_reconnect = delays,
                         ac_link = default_link_config\<lparr>lc_keep_alive := keep_alive\<rparr>\<rparr>)))"

section \<open>The run\<close>

datatype agent_process_error =
    AgentConfig agent_config_error
  | AgentDialer dialer_error
  | AgentSchedule schedule_error
  | AgentCompose agent_error

text \<open>\<^verbatim>\<open>run\<close> up to the agent's \<^verbatim>\<open>Run\<close>: the dialer and the agent it composes.\<close>

definition start_agent ::
  "(string \<Rightarrow> url option) \<Rightarrow> (string \<Rightarrow> int option) \<Rightarrow> (string \<Rightarrow> string) \<Rightarrow> agent_process_error + dialer \<times> agent" where
  "start_agent parse_url parse getenv =
     (case load_agent_config parse_url parse getenv of
        Inl e \<Rightarrow> Inl (AgentConfig e)
      | Inr c \<Rightarrow>
     (case new_dialer parse_url (ac_server c) (ac_token c) (ac_dial_timeout c) (ac_link c) of
        Inl e \<Rightarrow> Inl (AgentDialer e)
      | Inr dialing \<Rightarrow>
     (case new_schedule (ac_reconnect c) of
        Inl e \<Rightarrow> Inl (AgentSchedule e)
      | Inr schedule \<Rightarrow>
     (case new_agent True (ac_target c) schedule of
        Inl e \<Rightarrow> Inl (AgentCompose e)
      | Inr forwarder \<Rightarrow> Inr (dialing, forwarder)))))"

text \<open>How the process ends: refused at its start, or as its agent ends; \<open>None\<close> is a run that goes on.\<close>

definition run_agent ::
  "(string \<Rightarrow> url option) \<Rightarrow> (string \<Rightarrow> int option) \<Rightarrow> (string \<Rightarrow> string) \<Rightarrow> (nat \<Rightarrow> round) \<Rightarrow>
     (agent_process_error + run_end) option" where
  "run_agent parse_url parse getenv env =
     (case start_agent parse_url parse getenv of
        Inl e \<Rightarrow> Some (Inl e)
      | Inr (dialing, forwarder) \<Rightarrow> map_option Inr (agent_run forwarder env))"

section \<open>What starts\<close>

lemma reconnect_delays_usable:
  assumes "reconnect_delays parse raw = Inr ds"
  shows "new_schedule ds = Inr ds"
proof (cases "raw = []")
  case True
  with assms show ?thesis
    by (auto simp: reconnect_delays_def default_reconnect_delays_def new_schedule_Inr second_def)
next
  case False
  with assms have p: "parse_parts parse ''REAPER_TUNNEL_AGENT_RECONNECT_DELAYS'' (split_on CHR '','' raw) [] = Inr ds"
    by (simp add: reconnect_delays_def parse_delays_def)
  have "(\<forall>d \<in> set ds. 0 < d) \<and> length ds = length (split_on CHR '','' raw)"
    using parse_parts_Inr [OF p] by simp
  moreover have "split_on CHR '','' raw \<noteq> []" by (rule split_on_ne)
  ultimately show ?thesis by (auto simp only: new_schedule_Inr length_greater_0_conv [symmetric])
qed

lemma start_agent_Inr:
  assumes "start_agent parse_url parse getenv = Inr (d, a)"
  shows "\<exists>server target delays. parse_url (getenv ''REAPER_TUNNEL_AGENT_SERVER'') = Some server
    \<and> parse_url (getenv ''REAPER_TUNNEL_AGENT_TARGET'') = Some target \<and> ag_target a = target
    \<and> url_scheme target \<in> {''http'', ''https''} \<and> url_host target \<noteq> []
    \<and> new_schedule delays = Inr (ag_schedule a)
    \<and> dl_token d = getenv ''REAPER_TUNNEL_AGENT_TOKEN'' \<and> dl_token d \<noteq> []
    \<and> dl_endpoint d = server\<lparr>url_path := trim_suffix (url_path server) ''/'' @ ''/v1/connect'', url_query := []\<rparr>"
  using assms
  by (auto simp: start_agent_def load_agent_config_def new_dialer_def new_agent_def Let_def
      split: if_splits option.splits sum.splits dest: reconnect_delays_usable)

text \<open>
  an agent that starts runs with what it was configured with, to the end its tunnel decides. A
  configuration is never refused for its reconnect schedule once it has been read. When the process
  starts, the connect path is appended to the server's URL whatever slash it ends with, every dial
  presents the configured token to the connect route, the target is a web origin, and the process
  returns exactly when a round ends the run, with that round's error and never by a panic.
\<close>

theorem agent_process_runs:
  "(\<forall>e. start_agent parse_url parse getenv \<noteq> Inl (AgentSchedule e))
    \<and> (\<forall>d a. start_agent parse_url parse getenv = Inr (d, a) \<longrightarrow>
         (\<exists>server. parse_url (getenv ''REAPER_TUNNEL_AGENT_SERVER'') = Some server
            \<and> url_path (dl_endpoint d) = trim_suffix (url_path server) ''/'' @ ''/v1/connect''
            \<and> url_host (dl_endpoint d) = url_host server)
         \<and> (\<forall>r. rq_header r = dial_header d \<longrightarrow> link_bearer r = (getenv ''REAPER_TUNNEL_AGENT_TOKEN'', True))
         \<and> url_scheme (ag_target a) \<in> {''http'', ''https''} \<and> url_host (ag_target a) \<noteq> []
         \<and> (\<forall>out. run_agent parse_url parse getenv env = Some out \<longleftrightarrow>
              (\<exists>k e. first_stop env k \<and> stops (env k) = Some e \<and> out = Inr (RunStops e))))"
proof (intro conjI allI impI)
  fix e
  show "start_agent parse_url parse getenv \<noteq> Inl (AgentSchedule e)"
    by (auto simp: start_agent_def load_agent_config_def Let_def split: if_splits option.splits sum.splits
        dest: reconnect_delays_usable)
next
  fix d a
  assume started: "start_agent parse_url parse getenv = Inr (d, a)"
  obtain server target delays where S: "parse_url (getenv ''REAPER_TUNNEL_AGENT_SERVER'') = Some server"
    "ag_target a = target" "url_scheme target \<in> {''http'', ''https''}" "url_host target \<noteq> []"
    "new_schedule delays = Inr (ag_schedule a)" "dl_token d = getenv ''REAPER_TUNNEL_AGENT_TOKEN''" "dl_token d \<noteq> []"
    "dl_endpoint d = server\<lparr>url_path := trim_suffix (url_path server) ''/'' @ ''/v1/connect'', url_query := []\<rparr>"
    using start_agent_Inr [OF started] by (elim exE conjE) blast
  show "\<exists>server. parse_url (getenv ''REAPER_TUNNEL_AGENT_SERVER'') = Some server
      \<and> url_path (dl_endpoint d) = trim_suffix (url_path server) ''/'' @ ''/v1/connect''
      \<and> url_host (dl_endpoint d) = url_host server"
    using S(1,8) by simp
  show "url_scheme (ag_target a) \<in> {''http'', ''https''}" "url_host (ag_target a) \<noteq> []"
    using S(2,3,4) by simp_all
  show "link_bearer r = (getenv ''REAPER_TUNNEL_AGENT_TOKEN'', True)" if "rq_header r = dial_header d" for r
    using bearer_of_dial [OF S(7) that] S(6) by simp
  show "run_agent parse_url parse getenv env = Some out \<longleftrightarrow>
      (\<exists>k e. first_stop env k \<and> stops (env k) = Some e \<and> out = Inr (RunStops e))" for out
    using agent_run_returns [OF S(5), of env] started by (auto simp: run_agent_def)
qed

text \<open>An agent of a local server, evicted in its third round.\<close>

definition agent_environment :: "string \<Rightarrow> string" where
  "agent_environment name =
     (if name = ''REAPER_TUNNEL_AGENT_SERVER'' then ''http://t.io/'' else if name = ''REAPER_TUNNEL_AGENT_TOKEN'' then ''k''
      else if name = ''REAPER_TUNNEL_AGENT_TARGET'' then ''http://t.io/'' else [])"

definition plain_url :: url where
  "plain_url = \<lparr>url_scheme = ''http'', url_host = ''t.io'', url_path = ''/'', url_query = []\<rparr>"

lemma agent_starts: "\<exists>d a. start_agent (\<lambda>_. Some plain_url) (\<lambda>_. None) agent_environment = Inr (d, a)"
proof -
  have "\<not> blank ''k''" by (simp add: not_blank_ascii byte_def is_space_def)
  moreover have "new_schedule default_reconnect_delays = Inr default_reconnect_delays"
    by (rule reconnect_delays_usable [of "\<lambda>_. None" "[]"]) (simp add: reconnect_delays_def)
  ultimately show ?thesis
    by (simp add: start_agent_def load_agent_config_def agent_environment_def reconnect_delays_def duration_or_def
        new_dialer_def new_agent_def plain_url_def validate_link_config_def default_link_config_def second_def)
qed

theorem agent_process_runs_witness:
  "run_agent (\<lambda>_. Some plain_url) (\<lambda>_. None) agent_environment flaky
     = Some (Inr (RunStops (Some (LinkEvicted CloseSuperseded))))"
proof -
  have "first_stop flaky 2 \<and> stops (flaky 2) = Some (Some (LinkEvicted CloseSuperseded))"
    by (auto simp: first_stop_def stops_def flaky_def permanent_def rejected_permanent_def less_2_cases_iff)
  with agent_starts agent_process_runs [of "\<lambda>_. Some plain_url" "\<lambda>_. None" agent_environment flaky]
  show ?thesis by blast
qed

end
