(* ===== verification/Tunnel_Proof_Target.thy ===== *)
theory Tunnel_Proof_Target
  imports Tunnel_Edge Go_Http
begin

text \<open>
  The origin the proofs of the tunnel expose: \<^verbatim>\<open>cmd/proof-target\<close>. A handler is the calls it makes on
  its response writer; HMAC-SHA256 and \<^verbatim>\<open>time.ParseDuration\<close> are parameters, and the WebSocket is the
  messages it yields. The client \<^verbatim>\<open>cmd/proof-websocket\<close> asks it through the edge.
\<close>

section \<open>Replies\<close>

text \<open>\<^verbatim>\<open>http.Error\<close> of the standard library.\<close>

definition http_error :: "string \<Rightarrow> int \<Rightarrow> writer_call list" where
  "http_error message status =
     [WSet ''Content-Type'' ''text/plain; charset=utf-8'', WSet ''X-Content-Type-Options'' ''nosniff'',
      WHeader status, WWrite (message @ [CHR 0x0A])]"

text \<open>\<^verbatim>\<open>io.ReadAll\<close> over \<^verbatim>\<open>http.MaxBytesReader\<close>: the body, or an error when it is longer.\<close>

definition read_body :: "nat \<Rightarrow> string \<Rightarrow> string option" where
  "read_body limit body = (if length body > limit then None else Some body)"

section \<open>The routes\<close>

record target_observation =
  to_name :: string
  to_host :: string
  to_method :: string
  to_path :: string
  to_query :: string
  to_for :: string
  to_forwarded_host :: string
  to_proto :: string

definition whoami :: "string \<Rightarrow> request \<Rightarrow> target_observation" where
  "whoami name r =
     \<lparr>to_name = name, to_host = rq_host r, to_method = rq_method r, to_path = url_path (rq_url r),
      to_query = url_query (rq_url r), to_for = header_get (rq_header r) ''X-Forwarded-For'',
      to_forwarded_host = header_get (rq_header r) ''X-Forwarded-Host'',
      to_proto = header_get (rq_header r) ''X-Forwarded-Proto''\<rparr>"

definition max_echo_bytes :: nat where
  "max_echo_bytes = 67108864"

definition target_echo :: "string \<Rightarrow> string \<Rightarrow> writer_call list" where
  "target_echo broken body =
     (case read_body max_echo_bytes body of
        None \<Rightarrow> http_error broken 400
      | Some content \<Rightarrow>
          [WSet ''Content-Type'' ''application/octet-stream'', WSet ''X-Echo-Length'' (itoa (int (length content))),
           WWrite content])"

text \<open>\<^verbatim>\<open>streamShape\<close>: \<open>chunks\<close> and \<open>gap\<close> are the values of the query.\<close>

datatype stream_error = StreamChunks | StreamGap

definition stream_shape ::
  "(string \<Rightarrow> int option) \<Rightarrow> string \<Rightarrow> string \<Rightarrow> stream_error + int \<times> int" where
  "stream_shape parse raw_chunks raw_gap =
     (case atoi raw_chunks of
        None \<Rightarrow> Inl StreamChunks
      | Some chunks \<Rightarrow>
        if chunks < 1 \<or> chunks > 100 then Inl StreamChunks
        else (case parse raw_gap of
          None \<Rightarrow> Inl StreamGap
        | Some gap \<Rightarrow> if gap \<le> 0 \<or> gap > 5000000000 then Inl StreamGap else Inr (chunks, gap)))"

definition stream_message :: "stream_error \<Rightarrow> string" where
  "stream_message e =
     (case e of StreamChunks \<Rightarrow> ''chunks must be between 1 and 100''
      | StreamGap \<Rightarrow> ''gap must be a positive duration up to 5s'')"

text \<open>What the stream does in time: a call on the writer, or a pause.\<close>

datatype stream_act = Calls writer_call | Sleeps int

fun stream_chunks :: "nat \<Rightarrow> nat \<Rightarrow> int \<Rightarrow> stream_act list" where
  "stream_chunks i 0 gap = []"
| "stream_chunks i (Suc n) gap =
     (if i > 0 then [Sleeps gap] else [])
     @ [Calls (WWrite (''chunk-'' @ itoa (int i + 1) @ [CHR 0x0A])), Calls WFlush]
     @ stream_chunks (Suc i) n gap"

definition target_stream :: "(string \<Rightarrow> int option) \<Rightarrow> bool \<Rightarrow> string \<Rightarrow> string \<Rightarrow> stream_act list" where
  "target_stream parse flusher raw_chunks raw_gap =
     (case stream_shape parse raw_chunks raw_gap of
        Inl e \<Rightarrow> map Calls (http_error (stream_message e) 400)
      | Inr (chunks, gap) \<Rightarrow>
          if \<not> flusher then map Calls (http_error ''streaming unsupported'' 500)
          else [Calls (WSet ''Content-Type'' ''text/plain''), Calls (WSet ''X-Accel-Buffering'' ''no'')]
            @ stream_chunks 0 (nat chunks) gap)"

text \<open>The WebSocket echo: the messages read, each with whether its reply could be written.\<close>

fun websocket_echo :: "string \<Rightarrow> ('k \<times> string \<times> bool) list \<Rightarrow> ('k \<times> string) list" where
  "websocket_echo name [] = []"
| "websocket_echo name ((kind, message, written) # rest) =
     (kind, name @ '':'' @ message) # (if written then websocket_echo name rest else [])"

section \<open>The signed callback\<close>

text \<open>
  \<^verbatim>\<open>time.Since(time.Unix(seconds, 0))\<close>: \<^verbatim>\<open>Unix\<close> counts from the year 1 in 64 bits and so may wrap, and
  a difference that does not fit a duration is the largest or the smallest one. \<open>now\<close> is the
  clock's Unix time in nanoseconds.
\<close>

definition unix_to_internal :: int where
  "unix_to_internal = 62135596800"

definition clamp64 :: "int \<Rightarrow> int" where
  "clamp64 d = max (- (2 ^ 63)) (min (2 ^ 63 - 1) d)"

definition since_unix :: "int \<Rightarrow> int \<Rightarrow> int" where
  "since_unix now seconds =
     clamp64 (now + unix_to_internal * 1000000000 - wrap64 (seconds + unix_to_internal) * 1000000000)"

definition five_minutes :: int where
  "five_minutes = 300000000000"

definition max_callback_bytes :: nat where
  "max_callback_bytes = 1048576"

definition slack_callback ::
  "(string \<Rightarrow> string \<Rightarrow> 8 word list) \<Rightarrow> int \<Rightarrow> string \<Rightarrow> request \<Rightarrow> string \<Rightarrow> writer_call list" where
  "slack_callback hmac now secret r body =
     (let timestamp = header_get (rq_header r) ''X-Slack-Request-Timestamp'' in
      case atoi timestamp of
        None \<Rightarrow> http_error ''timestamp'' 401
      | Some seconds \<Rightarrow>
        let age = since_unix now seconds in
        if age > five_minutes \<or> age < - five_minutes then http_error ''stale'' 401
        else case read_body max_callback_bytes body of
          None \<Rightarrow> http_error ''body'' 400
        | Some content \<Rightarrow>
          let expected = ''v0='' @ hex_encode (hmac secret (''v0:'' @ timestamp @ '':'' @ content)) in
          if expected \<noteq> header_get (rq_header r) ''X-Slack-Signature'' then http_error ''signature'' 401
          else [WHeader 200])"

section \<open>The process\<close>

datatype target_handler = TargetHealth | TargetWhoami | TargetEcho | TargetSlack | TargetStream | TargetSocket

definition target_routes :: "string \<Rightarrow> (string \<times> segment_pattern list \<times> target_handler) list" where
  "target_routes secret =
     [(''GET'', [Lit ''health''], TargetHealth), (''GET'', [Lit ''whoami''], TargetWhoami),
      (''POST'', [Lit ''echo''], TargetEcho)]
     @ (if secret \<noteq> [] then [(''POST'', [Lit ''slack'', Lit ''actions''], TargetSlack)] else [])
     @ [(''GET'', [Lit ''stream''], TargetStream), (''GET'', [Lit ''ws''], TargetSocket)]"

text \<open>\<^verbatim>\<open>run\<close> up to the listener: the address, the name and the routes, or the missing variables.\<close>

definition start_target ::
  "(string \<Rightarrow> string) \<Rightarrow> (string \<times> string \<times> (string \<times> segment_pattern list \<times> target_handler) list) option" where
  "start_target getenv =
     (let address = getenv ''TARGET_ADDR''; name = getenv ''TARGET_NAME'' in
      if address = [] \<or> name = [] then None
      else Some (address, name, target_routes (getenv ''TARGET_SLACK_SECRET'')))"

text \<open>The end of \<^verbatim>\<open>run\<close>: the shutdown after a signal returned (\<open>Inl\<close>), or the listener did (\<open>Inr\<close>).\<close>

definition end_target :: "'e option + 'e \<Rightarrow> 'e option" where
  "end_target ending = (case ending of Inl stopped \<Rightarrow> stopped | Inr e \<Rightarrow> Some e)"

section \<open>The client\<close>

text \<open>
  \<^verbatim>\<open>cmd/proof-websocket\<close>: one message through the public edge. \<open>dial\<close> takes the address and the host
  to name, \<open>receive\<close> what was sent; the result is what is printed and the error of the run.
\<close>

datatype 'e probe_error = ProbeEnvironment | ProbeDial 'e | ProbeSend 'e | ProbeRead 'e | ProbeClose 'e

definition websocket_probe ::
  "(string \<Rightarrow> string) \<Rightarrow> (string \<Rightarrow> string \<Rightarrow> 'e option) \<Rightarrow> (string \<Rightarrow> 'e option) \<Rightarrow> (string \<Rightarrow> 'e + string) \<Rightarrow> 'e option \<Rightarrow>
     string list \<times> 'e probe_error option" where
  "websocket_probe getenv dial send receive closing =
     (let endpoint = getenv ''PROBE_URL''; host = getenv ''PROBE_HOST''; message = getenv ''PROBE_MESSAGE'' in
      if endpoint = [] \<or> host = [] \<or> message = [] then ([], Some ProbeEnvironment)
      else case dial endpoint host of
        Some e \<Rightarrow> ([], Some (ProbeDial e))
      | None \<Rightarrow>
     (case send message of
        Some e \<Rightarrow> ([], Some (ProbeSend e))
      | None \<Rightarrow>
     (case receive message of
        Inl e \<Rightarrow> ([], Some (ProbeRead e))
      | Inr reply \<Rightarrow> ([reply @ [CHR 0x0A]], map_option ProbeClose closing))))"

text \<open>
  The exit status is the proof: a run without an error printed one line, and over a connection that
  the echo of a target answers the line names that target.
\<close>

lemma probe_names_origin:
  assumes "websocket_probe getenv dial send receive closing = (printed, None)"
    and "\<And>m. receive m = Inr (snd (hd (websocket_echo name [(kind, m, True)])))"
  shows "printed = [name @ '':'' @ getenv ''PROBE_MESSAGE'' @ [CHR 0x0A]]"
  using assms(1) by (simp add: websocket_probe_def Let_def assms(2) split: if_splits option.splits)

section \<open>What is accepted\<close>

lemma since_unix_fresh:
  assumes "0 \<le> now" and "now < 2 ^ 63" and "- (2 ^ 63) \<le> seconds" and "seconds < 2 ^ 63"
  shows "\<not> (since_unix now seconds > five_minutes \<or> since_unix now seconds < - five_minutes)
    \<longleftrightarrow> \<bar>now - seconds * 1000000000\<bar> \<le> five_minutes"
proof (cases "seconds + unix_to_internal < 2 ^ 63")
  case True
  then have "wrap64 (seconds + unix_to_internal) = seconds + unix_to_internal"
    using assms(3) by (intro wrap64_id) (simp_all add: unix_to_internal_def max_int64_def)
  then show ?thesis
    by (simp add: since_unix_def clamp64_def five_minutes_def algebra_simps) linarith
next
  case False
  have "wrap64 (seconds + unix_to_internal) = seconds + unix_to_internal - 2 ^ 64"
  proof -
    let ?x = "seconds + unix_to_internal + 2 ^ 63 - 2 ^ 64"
    have "(?x + 2 ^ 64) mod 2 ^ 64 = ?x mod 2 ^ 64" by (rule mod_add_self2)
    also have "\<dots> = ?x" using False assms(4) by (intro mod_pos_pos_trivial) (simp_all add: unix_to_internal_def)
    finally show ?thesis by (simp add: wrap64_def add.commute)
  qed
  with False assms show ?thesis
    by (simp add: since_unix_def clamp64_def five_minutes_def unix_to_internal_def)
qed

text \<open>
  The callback acknowledges exactly what is fresh and signed: a timestamp within five minutes of the
  clock in either direction, whatever 64-bit number it is, and the HMAC of the version, the
  timestamp as sent and the raw body, which is at most a mebibyte.
\<close>

theorem slack_callback_accepts:
  assumes "0 \<le> now" and "now < 2 ^ 63"
  shows "slack_callback hmac now secret r body = [WHeader 200] \<longleftrightarrow>
    (\<exists>seconds. atoi (header_get (rq_header r) ''X-Slack-Request-Timestamp'') = Some seconds
       \<and> \<bar>now - seconds * 1000000000\<bar> \<le> five_minutes)
    \<and> length body \<le> max_callback_bytes
    \<and> header_get (rq_header r) ''X-Slack-Signature''
        = ''v0='' @ hex_encode (hmac secret
            (''v0:'' @ header_get (rq_header r) ''X-Slack-Request-Timestamp'' @ '':'' @ body))"
proof (cases "atoi (header_get (rq_header r) ''X-Slack-Request-Timestamp'')")
  case None
  then show ?thesis by (simp add: slack_callback_def http_error_def)
next
  case (Some seconds)
  then have "- (2 ^ 63) \<le> seconds" "seconds < 2 ^ 63" using atoi_bounds [OF Some] by (simp_all add: max_int64_def)
  note fresh = since_unix_fresh [OF assms this]
  show ?thesis
  proof (cases "since_unix now seconds > five_minutes \<or> since_unix now seconds < - five_minutes")
    case True
    with fresh Some show ?thesis by (simp add: slack_callback_def http_error_def Let_def)
  next
    case False
    with fresh have near: "\<bar>now - seconds * 1000000000\<bar> \<le> five_minutes" by simp
    show ?thesis
      unfolding slack_callback_def Let_def Some option.case if_not_P [OF False]
      using near by (auto simp: read_body_def http_error_def)
  qed
qed

end
