(* ===== verification/Spec2Isabelle.thy ===== *)
theory Spec2Isabelle
  imports Flags_Api Factory_Command Tunnel_Api Tunnel_Forwarding Tunnel_Process Tunnel_Agent_Process
    Tunnel_Proof_Target
begin

text \<open>
  A verification library for saas-reaper. The repository holds three programs, each with its own
  authority over its own data, and the library models their Go code part by part.

  \<^item> The flag appliance (\<^verbatim>\<open>internal/flags\<close>, \<^verbatim>\<open>internal/snapshot\<close>, \<^verbatim>\<open>internal/store\<close>, \<^verbatim>\<open>internal/api\<close>,
    \<^verbatim>\<open>cmd/reaper-flags\<close>). A publication goes through the policy service, which validates it, writes it
    to a durable store that compares the revision, and then projects it into an in-memory map that
    evaluations read. The HTTP server guards writes with one credential and reads with another.
  \<^item> The factory (\<^verbatim>\<open>internal/factory\<close>, \<^verbatim>\<open>internal/configurator\<close>, \<^verbatim>\<open>cmd/reaper\<close>). A recipe names one
    choice of every pack; it is validated, the layers it selects are rendered below a staging
    directory, and the result is renamed into place. The command line and a browser page are two
    ways to ask for it.
  \<^item> The ingress tunnel (\<^verbatim>\<open>specimens/ingress-tunnel\<close>). An operator claims a subdomain and gets a
    credential; an agent connects with it and holds one link; the edge sends the visitors of the
    subdomain through the link. A policy service over a SQLite store decides who owns, who is
    connected, and what is audited; the link handler and the process decide when a link ends.

  Theories, in the order of their imports; every definition carries the name of the Go function,
  method or type it translates, prefixed where that name is taken.

  \<^item> \<open>Go_Prelude\<close>: the parts of Go and its standard library that the sources use, written out as
    executable functions: byte strings and UTF-8 decoding, 64-bit integers, maps as association
    lists, sorting, error checks in sequence; \<open>Go_Http\<close>: the constant-time comparison, bodies of
    one JSON value, and the router.
  \<^item> \<open>Flags_Domain\<close> (\<^verbatim>\<open>flag.go\<close>, \<^verbatim>\<open>codec.go\<close>), \<open>Flags_Evaluate\<close> (\<^verbatim>\<open>evaluate.go\<close>): the data of a flag, its
    validation, one evaluation. Validation is characterised by a declarative predicate; an
    evaluation of a valid flag is well typed, sees two attributes only, and its percentage rollout
    is monotone and exact at both ends.
  \<^item> \<open>Flags_Snapshot\<close> (locale \<open>flag_snapshot\<close>), \<open>Flags_Store\<close> (locale \<open>flag_store\<close>),
    \<open>Flags_Memory_Store\<close>, \<open>Flags_Sqlite_Store\<close>, \<open>Flags_Service\<close> (locale \<open>flag_service\<close>),
    \<open>Flags_Appliance\<close>: the projection and the store as interfaces. The abstract store is a ledger of
    publications; both stores are shown to refine its compare-and-publish step, the SQLite store for
    every failing driver call. The service is proved once over the interfaces, with publications
    interleaved as a step relation: the projection never runs ahead of the store and equals it when
    nothing is in flight.
  \<^item> \<open>Flags_Api\<close>: routes, authorization, handlers, status codes and entity tags of the appliance, and
    the start and the end of its process.
  \<^item> \<open>Factory_Catalog\<close> (\<^verbatim>\<open>catalog.go\<close>, \<^verbatim>\<open>recipe.go\<close>), \<open>Factory_Files\<close> (paths and disks),
    \<open>Factory_Templates\<close> (the embedded files and the layers), \<open>Factory_Render\<close> (\<^verbatim>\<open>render.go\<close>,
    \<^verbatim>\<open>archive.go\<close>), \<open>Factory_Delivery\<close>, \<open>Factory_Cli\<close> and \<open>Factory_Command\<close> (\<^verbatim>\<open>cmd/reaper\<close>),
    \<open>Configurator_Http\<close> (\<^verbatim>\<open>internal/configurator\<close>): the catalog offers exactly what validation
    accepts; a generation that fails, whatever call fails, leaves what was there; one that succeeds
    delivers exactly the rendered files, in the directory and in the archive; the prompts end on
    every input; the command and the browser page keep everything outside what they deliver.
  \<^item> \<open>Tunnel_Lifecycle\<close> (\<^verbatim>\<open>transition.go\<close>), \<open>Tunnel_Claim\<close> (\<^verbatim>\<open>claim.go\<close>, \<^verbatim>\<open>host.go\<close>),
    \<open>Tunnel_Reconnect\<close>, \<open>Tunnel_Registry\<close>, \<open>Tunnel_Store\<close> (\<^verbatim>\<open>store/sqlite\<close>, locale \<open>claim_store\<close>),
    \<open>Tunnel_Database_File\<close> (its opening), \<open>Tunnel_Service\<close> (\<^verbatim>\<open>tunnels.go\<close>), \<open>Tunnel_Policy\<close>: the pure lifecycle table and its audit, the durable
    claims, the routing table, and the service over any store that meets the interface. \<open>Tunnel_Policy\<close>
    states what the service guarantees over the SQLite store in every reachable state: no panic, a
    truthful audit, credentials that open their own tunnel only, revocation that is final, links that
    only their own generation takes down, takeovers that are rate limited.
  \<^item> \<open>Tunnel_Net\<close> (headers and addresses), \<open>Tunnel_Link\<close> (\<^verbatim>\<open>internal/link\<close>), \<open>Tunnel_Shutdown\<close> (its
    goroutines), \<open>Tunnel_Agent\<close>, \<open>Tunnel_Edge\<close>, \<open>Tunnel_Forwarding\<close>, \<open>Tunnel_Metrics\<close>, \<open>Tunnel_Api\<close>: the
    connection side. The goroutines of the connect handler and of its shutdown are atomic steps in any
    order, with an invariant by rule induction and a measure for the drain; the edge is a relation
    between a request, the calls on the response writer and one observation; the forwarded headers
    are followed from the visitor through the edge and the agent to the target.
  \<^item> \<open>Tunnel_Process\<close>, \<open>Tunnel_Agent_Process\<close>, \<open>Tunnel_Proof_Target\<close>: the three processes, from their
    environment to their result; the server's end is interleaved with its link handler.
  \<^item> This theory: what spans the components, from a revocation by the operator to the end of the agent.

  How code becomes definitions. A struct is a record, an enumeration a datatype, a Go error a value of
  a sum or an option, a panic \<open>None\<close>. Integers that can wrap are kept modulo \<open>2 ^ 64\<close> (\<^verbatim>\<open>int64\<close>) or as
  words; lengths and durations that cannot are \<open>int\<close>. A method under a mutex is one step. Every call
  to the operating system, the database driver or the random source may fail: which calls fail is an
  argument (\<open>failures\<close>, \<open>db_io\<close>, \<open>io1\<close>), and the properties hold for all of them. Loops over data are
  structural recursions; the reading loops of the prompts recurse on the remaining input; the
  agent's loop, which may run for ever, is a \<^verbatim>\<open>partial_function\<close> into \<open>option\<close>, whose value is \<open>None\<close>
  exactly when no round ends it. No fuel is used.

  Parameters. Code that is not in the repository is an argument of the definitions that use it: SHA-256,
  HMAC, the JSON and YAML decoders and encoders, the text of times, Unicode lower-casing beyond ASCII,
  \<^verbatim>\<open>net/url\<close> and duration parsing, the template engine, the reverse proxy, the WebSocket and the stream
  multiplexer, the Prometheus client. What the code relies on in them is a hypothesis at the
  property that needs it (that a codec reads back what it wrote, for instance), met by a concrete
  function in the property's witness.

  Not modelled. The sockets: a listener, a connection and their timeouts are given by what they
  return. The bytes of a ZIP file (an archive is the list of its entries), log lines, latencies, the
  texts, buckets and exposition of the metrics, the content of the embedded page. The
  example under \<^verbatim>\<open>examples/go\<close>, a straight line of calls on third-party clients, and the package
  comments. The parents of a path are taken as resolved, so a symbolic
  link is met only as the last component of a path.

  What modelling showed. A scan of made-up names below the domain makes one series each in the request
  counter, where the comment and the README speak of one series (\<open>scan_grows_series\<close>), and the label
  that stands for unresolvable hosts is a subdomain an operator can claim (\<open>none_claimable\<close>).
\<close>

section \<open>Revocation, from the operator to the agent\<close>

text \<open>What \<^verbatim>\<open>websocket.Dial\<close> reports of the connect route's reply: only an upgrade is no error.\<close>

definition dial_answer :: "connect_reply \<Rightarrow> ws_dial" where
  "dial_answer reply =
     (case reply of
        Refuse status \<Rightarrow> \<lparr>ws_status = Some status, ws_fails = True\<rparr>
      | Upgrade c \<Rightarrow> \<lparr>ws_status = Some 101, ws_fails = False\<rparr>)"

lemma revoked_refused:
  assumes "tsql_ok C db" and "tunnel_reach (tsql_ops C) sha256 (tunnel_start db actor) n s"
    and "revoke_tunnel (tsql_ops C) io1 io2 now sub x s = Some (s1, Inr c)"
    and "tunnel_reach (tsql_ops C) sha256 s1 k s2"
    and "cl_token_hash c = hash_token sha256 (dl_token d)" and "dl_token d \<noteq> []" and "rq_header r = dial_header d"
  shows "connect_reply_for False (\<lambda>token. authenticate (tsql_ops C) sha256 None t token s2) r = Refuse 401"
proof -
  note stays = revoked_claim_stays [OF assms(1-4)]
  obtain msg where "authenticate (tsql_ops C) sha256 None t (dl_token d) s2 = Inl (TUnauthorized msg)"
    using revoked_unauthorized [OF stays(3,2,1) assms(5)] by blast
  then show ?thesis
    using bearer_of_dial [OF assms(6,7)] by (simp add: connect_reply_for_def is_unauthorized_def)
qed


definition sample_dialer :: dialer where
  "sample_dialer = \<lparr>dl_endpoint = \<lparr>url_scheme = ''http'', url_host = ''t.io'', url_path = ''/v1/connect'', url_query = []\<rparr>,
     dl_token = token_prefix @ b64_encode drawn, dl_timeout = second, dl_config = default_link_config\<rparr>"

definition dial_request :: request where
  "dial_request = \<lparr>rq_method = ''GET'', rq_host = ''t.io'', rq_remote = ''203.0.113.9:4000'',
     rq_url = dl_endpoint sample_dialer, rq_header = dial_header sample_dialer\<rparr>"

definition refused_round :: round where
  "refused_round = \<lparr>rd_ended = False, rd_dialed = DialFails (LinkRejected 401), rd_waited = True\<rparr>"


end
